(* ===== verification/Prelude.thy ===== *)
theory Prelude
  imports Complex_Main "HOL-Library.Multiset"
begin

text \<open>
  Shared vocabulary of the development: insertion-ordered JavaScript maps, the
  string operations the sources use, decimal rendering of bigints, and the generic
  notion of a run of a step function with an invariant.

  Three collections carry the component proofs: \<open>jsmap_simps\<close> (laws of the map
  operations), \<open>jsmap_ok\<close> (operations that keep keys distinct) and
  \<open>dec_simps\<close> (decimal rendering).
\<close>

named_theorems jsmap_simps
named_theorems jsmap_ok
named_theorems dec_simps

section \<open>Insertion-ordered maps\<close>

text \<open>
  A JavaScript \<open>Map\<close> iterates in insertion order; \<open>set\<close> on a present key keeps
  its place, \<open>delete\<close> removes it, and a later \<open>set\<close> appends it again. The order is
  observable (cache eviction takes the first entry), so a map is an association
  list with distinct keys.
\<close>

type_synonym ('k, 'v) jsmap = "('k \<times> 'v) list"

definition map_get :: "('k, 'v) jsmap \<Rightarrow> 'k \<Rightarrow> 'v option" where
  "map_get m k = map_of m k"

fun map_set :: "'k \<Rightarrow> 'v \<Rightarrow> ('k, 'v) jsmap \<Rightarrow> ('k, 'v) jsmap" where
  "map_set k v [] = [(k, v)]"
| "map_set k v ((k', v') # m) =
     (if k' = k then (k, v) # m else (k', v') # map_set k v m)"

definition map_del :: "'k \<Rightarrow> ('k, 'v) jsmap \<Rightarrow> ('k, 'v) jsmap" where
  "map_del k m = filter (\<lambda>e. fst e \<noteq> k) m"

definition map_has :: "('k, 'v) jsmap \<Rightarrow> 'k \<Rightarrow> bool" where
  "map_has m k \<longleftrightarrow> k \<in> set (map fst m)"

text \<open>\<open>m.get(k) ?? d\<close>.\<close>

definition map_get_or :: "'v \<Rightarrow> ('k, 'v) jsmap \<Rightarrow> 'k \<Rightarrow> 'v" where
  "map_get_or d m k = (case map_get m k of None \<Rightarrow> d | Some v \<Rightarrow> v)"

abbreviation map_keys :: "('k, 'v) jsmap \<Rightarrow> 'k list" where
  "map_keys m \<equiv> map fst m"

definition map_ok :: "('k, 'v) jsmap \<Rightarrow> bool" where
  "map_ok m \<longleftrightarrow> distinct (map fst m)"

text \<open>Rewriting every value in place, as a loop that assigns a field of each value does.\<close>

definition map_upd_all :: "('k \<Rightarrow> 'v \<Rightarrow> 'v) \<Rightarrow> ('k, 'v) jsmap \<Rightarrow> ('k, 'v) jsmap" where
  "map_upd_all f m = map (\<lambda>e. (fst e, f (fst e) (snd e))) m"

subsection \<open>The contract of a map\<close>

text \<open>
  What the components rely on: what a lookup returns after each operation, and that
  each operation keeps the keys distinct.
\<close>

locale map_contract =
  fixes get :: "'m \<Rightarrow> 'k \<Rightarrow> 'v option"
    and put :: "'k \<Rightarrow> 'v \<Rightarrow> 'm \<Rightarrow> 'm"
    and del :: "'k \<Rightarrow> 'm \<Rightarrow> 'm"
    and ok :: "'m \<Rightarrow> bool"
  assumes get_put: "get (put k v m) k' = (if k' = k then Some v else get m k')"
    and get_del: "get (del k m) k' = (if k' = k then None else get m k')"
    and ok_put: "ok m \<Longrightarrow> ok (put k v m)"
    and ok_del: "ok m \<Longrightarrow> ok (del k m)"
begin

lemma get_put_same: "get (put k v m) k = Some v"
  by (simp add: get_put)

lemma get_del_same: "get (del k m) k = None"
  by (simp add: get_del)

lemma get_put_put: "get (put k v (put k w m)) = get (put k v m)"
  by (rule ext) (simp add: get_put)

lemma get_del_put: "get (del k (put k v m)) = get (del k m)"
  by (rule ext) (simp add: get_put get_del)

lemma get_put_commute: "k \<noteq> k' \<Longrightarrow> get (put k v (put k' w m)) = get (put k' w (put k v m))"
  by (rule ext) (simp add: get_put)

end

lemma map_get_Nil [simp, jsmap_simps]: "map_get [] k = None"
  by (simp add: map_get_def)

lemma map_get_Cons [jsmap_simps]:
  "map_get ((a, b) # m) k = (if k = a then Some b else map_get m k)"
  by (simp add: map_get_def)

lemma map_get_set [simp, jsmap_simps]:
  "map_get (map_set k v m) k' = (if k' = k then Some v else map_get m k')"
  by (induction k v m rule: map_set.induct) (auto simp: map_get_def)

lemma map_get_del [simp, jsmap_simps]:
  "map_get (map_del k m) k' = (if k' = k then None else map_get m k')"
  by (induction m) (auto simp: map_get_def map_del_def)

lemma map_get_or_simps [simp, jsmap_simps]:
  "map_get_or d [] k = d"
  "map_get_or d (map_set k v m) k' = (if k' = k then v else map_get_or d m k')"
  by (simp_all add: map_get_or_def)

lemma set_keys_map_set [simp, jsmap_simps]:
  "fst ` set (map_set k v m) = insert k (fst ` set m)"
  by (induction k v m rule: map_set.induct) auto

lemma set_map_del [simp, jsmap_simps]: "set (map_del k m) = {e \<in> set m. fst e \<noteq> k}"
  by (auto simp: map_del_def)

lemma map_ok_Nil [simp]: "map_ok []"
  by (simp add: map_ok_def)

lemma map_ok_Cons [simp]: "map_ok (e # m) \<longleftrightarrow> fst e \<notin> fst ` set m \<and> map_ok m"
  by (simp add: map_ok_def)

lemma map_ok_set [simp, jsmap_ok]: "map_ok m \<Longrightarrow> map_ok (map_set k v m)"
  by (induction k v m rule: map_set.induct) (auto simp: map_ok_def)

lemma map_ok_filter [simp, jsmap_ok]: "map_ok m \<Longrightarrow> map_ok (filter P m)"
  by (simp add: map_ok_def distinct_map_filter)

lemma map_ok_del [simp, jsmap_ok]: "map_ok m \<Longrightarrow> map_ok (map_del k m)"
  by (simp add: map_del_def)

lemma map_ok_upd_all [simp, jsmap_ok]: "map_ok (map_upd_all f m) \<longleftrightarrow> map_ok m"
  by (simp add: map_ok_def map_upd_all_def comp_def)

lemma keys_upd_all [simp, jsmap_simps]: "fst ` set (map_upd_all f m) = fst ` set m"
  by (force simp: map_upd_all_def)

lemma map_set_twice: "map_set k v (map_set k v' m) = map_set k v m"
  by (induction m) auto

lemma map_get_upd_all [simp, jsmap_simps]:
  "map_get (map_upd_all f m) k = map_option (f k) (map_get m k)"
  by (induction m) (auto simp: map_get_def map_upd_all_def)

lemma map_set_same: "map_get m k = Some v \<Longrightarrow> map_set k v m = m"
  by (induction k v m rule: map_set.induct) (auto simp: map_get_Cons split: if_splits)

lemma map_get_in: "map_get m k = Some v \<Longrightarrow> (k, v) \<in> set m"
  by (simp add: map_get_def map_of_SomeD)

lemma map_get_iff: "map_ok m \<Longrightarrow> map_get m k = Some v \<longleftrightarrow> (k, v) \<in> set m"
  by (simp add: map_get_def map_ok_def map_of_eq_Some_iff)

lemma map_get_None [jsmap_simps]: "map_get m k = None \<longleftrightarrow> k \<notin> fst ` set m"
  by (simp add: map_get_def map_of_eq_None_iff)

lemma map_has_get [jsmap_simps]: "map_has m k \<longleftrightarrow> map_get m k \<noteq> None"
  by (auto simp: map_has_def map_get_None)

lemma map_get_filter_key: "map_get (filter (\<lambda>e. P (fst e)) m) k = (if P k then map_get m k else None)"
  by (induction m) (auto simp: map_get_Nil map_get_Cons)

lemma map_get_filter:
  "map_ok m \<Longrightarrow> map_get (filter P m) k =
     (case map_get m k of None \<Rightarrow> None | Some v \<Rightarrow> if P (k, v) then Some v else None)"
  by (induction m)
    (auto simp: map_get_def map_ok_def image_iff split: option.splits dest!: map_of_SomeD)

lemma length_map_set:
  "length (map_set k v m) = (if k \<in> fst ` set m then length m else Suc (length m))"
  by (induction k v m rule: map_set.induct) auto

interpretation jsm: map_contract map_get map_set map_del map_ok
  by unfold_locales simp_all

section \<open>Runs of a step function\<close>

text \<open>
  A component with state is a step function over the actions its environment can
  perform; a run folds it over an interleaving of actions. An invariant that every
  step keeps holds after every run, and a measure no step decreases only grows.
\<close>

definition run :: "('a \<Rightarrow> 's \<Rightarrow> 's) \<Rightarrow> 'a list \<Rightarrow> 's \<Rightarrow> 's" where
  "run step acts s = fold step acts s"

lemma run_Nil [simp]: "run step [] s = s"
  by (simp add: run_def)

lemma run_Cons [simp]: "run step (a # as) s = run step as (step a s)"
  by (simp add: run_def)

lemma run_append [simp]: "run step (as @ bs) s = run step bs (run step as s)"
  by (simp add: run_def)

locale guarded_system =
  fixes step :: "'a \<Rightarrow> 's \<Rightarrow> 's"
    and ok :: "'a \<Rightarrow> bool"
    and inv :: "'s \<Rightarrow> bool"
  assumes inv_step_ok: "inv s \<Longrightarrow> ok a \<Longrightarrow> inv (step a s)"
begin

lemma inv_run_ok: "inv s \<Longrightarrow> \<forall>a \<in> set acts. ok a \<Longrightarrow> inv (run step acts s)"
  by (induction acts arbitrary: s) (simp_all add: inv_step_ok)

end

locale invariant_system =
  fixes step :: "'a \<Rightarrow> 's \<Rightarrow> 's"
    and inv :: "'s \<Rightarrow> bool"
  assumes inv_step: "inv s \<Longrightarrow> inv (step a s)"

sublocale invariant_system \<subseteq> unguarded: guarded_system step "\<lambda>_. True" inv
  by unfold_locales (rule inv_step)

context invariant_system
begin

lemma inv_run: "inv s \<Longrightarrow> inv (run step acts s)"
  by (rule unguarded.inv_run_ok) simp_all

end

locale monotone_system = invariant_system step inv
  for step :: "'a \<Rightarrow> 's \<Rightarrow> 's" and inv :: "'s \<Rightarrow> bool" +
  fixes level :: "'s \<Rightarrow> 'l::order"
  assumes level_step: "inv s \<Longrightarrow> level s \<le> level (step a s)"
begin

lemma level_run: "inv s \<Longrightarrow> level s \<le> level (run step acts s)"
proof (induction acts arbitrary: s)
  case Nil
  then show ?case by simp
next
  case (Cons a acts)
  have "level s \<le> level (step a s)" using Cons.prems by (rule level_step)
  also have "\<dots> \<le> level (run step acts (step a s))"
    using Cons.prems by (intro Cons.IH inv_step)
  finally show ?case by simp
qed

end

section \<open>Strings\<close>

text \<open>
  \<open>index_of c s\<close> is \<open>s.indexOf(c)\<close> for a one-character needle, with \<open>None\<close> for
  JavaScript's \<open>-1\<close>; \<open>index_from c s i\<close> is \<open>s.indexOf(c, i)\<close>.
\<close>

fun index_of :: "'a \<Rightarrow> 'a list \<Rightarrow> nat option" where
  "index_of c [] = None"
| "index_of c (x # xs) = (if x = c then Some 0 else map_option Suc (index_of c xs))"

definition index_from :: "'a \<Rightarrow> 'a list \<Rightarrow> nat \<Rightarrow> nat option" where
  "index_from c s i = map_option (\<lambda>j. j + i) (index_of c (drop i s))"

definition slice :: "'a list \<Rightarrow> nat \<Rightarrow> nat \<Rightarrow> 'a list" where
  "slice s i j = take (j - i) (drop i s)"

lemma index_of_None [simp]: "index_of c s = None \<longleftrightarrow> c \<notin> set s"
  by (induction s) auto

lemma index_of_SomeD:
  "index_of c s = Some i \<Longrightarrow> i < length s \<and> s = take i s @ c # drop (Suc i) s \<and> c \<notin> set (take i s)"
  by (induction s arbitrary: i) (auto split: if_splits)

lemma index_of_append: "c \<notin> set xs \<Longrightarrow> index_of c (xs @ c # ys) = Some (length xs)"
  by (induction xs) auto

text \<open>
  \<open>String.prototype.trim\<close> on the UTF-8 bytes of a string: the white space and line terminators of
  the language, each by its encoding, are removed from both ends.
\<close>

definition white_space :: "string list" where
  "white_space =
     [[CHR 0x09], [CHR 0x0A], [CHR 0x0B], [CHR 0x0C], [CHR 0x0D], [CHR 0x20], [CHR 0xC2, CHR 0xA0],
      [CHR 0xE1, CHR 0x9A, CHR 0x80], [CHR 0xE2, CHR 0x80, CHR 0x80], [CHR 0xE2, CHR 0x80, CHR 0x81],
      [CHR 0xE2, CHR 0x80, CHR 0x82], [CHR 0xE2, CHR 0x80, CHR 0x83], [CHR 0xE2, CHR 0x80, CHR 0x84],
      [CHR 0xE2, CHR 0x80, CHR 0x85], [CHR 0xE2, CHR 0x80, CHR 0x86], [CHR 0xE2, CHR 0x80, CHR 0x87],
      [CHR 0xE2, CHR 0x80, CHR 0x88], [CHR 0xE2, CHR 0x80, CHR 0x89], [CHR 0xE2, CHR 0x80, CHR 0x8A],
      [CHR 0xE2, CHR 0x80, CHR 0xA8], [CHR 0xE2, CHR 0x80, CHR 0xA9], [CHR 0xE2, CHR 0x80, CHR 0xAF],
      [CHR 0xE2, CHR 0x81, CHR 0x9F], [CHR 0xE3, CHR 0x80, CHR 0x80], [CHR 0xEF, CHR 0xBB, CHR 0xBF]]"

function strip_front :: "'a list list \<Rightarrow> 'a list \<Rightarrow> 'a list" where
  "strip_front seqs s =
     (case find (\<lambda>w. w \<noteq> [] \<and> take (length w) s = w) seqs of
        None \<Rightarrow> s | Some w \<Rightarrow> strip_front seqs (drop (length w) s))"
  by pat_completeness auto

termination
proof (relation "measure (\<lambda>(_, s). length s)")
  fix seqs s w
  assume "find (\<lambda>w. w \<noteq> [] \<and> take (length w) s = w) seqs = Some w"
  then have "w \<noteq> []" "take (length w) s = w" by (auto simp: find_Some_iff)
  then have "s \<noteq> []" "0 < length w" by auto
  then show "((seqs, drop (length w) s), seqs, s) \<in> measure (\<lambda>(_, s). length s)" by simp
qed simp

declare strip_front.simps [simp del]

definition js_trim :: "string \<Rightarrow> string" where
  "js_trim s = rev (strip_front (map rev white_space) (rev (strip_front white_space s)))"

section \<open>Numbers\<close>

text \<open>
  A JavaScript number is a real, a NaN or an infinity. \<open>js_trunc\<close> is \<open>Math.trunc\<close> of a finite number, read as an integer.
\<close>

datatype non_finite = NaN | PosInf | NegInf

datatype js_number = Finite real | NonFinite non_finite

definition isSafeInteger :: "js_number \<Rightarrow> bool" where
  "isSafeInteger n =
     (case n of NonFinite _ \<Rightarrow> False
      | Finite r \<Rightarrow> real_of_int \<lfloor>r\<rfloor> = r \<and> \<bar>\<lfloor>r\<rfloor>\<bar> \<le> 2 ^ 53 - 1)"

definition isInteger :: "js_number \<Rightarrow> bool" where
  "isInteger n = (case n of NonFinite _ \<Rightarrow> False | Finite r \<Rightarrow> real_of_int \<lfloor>r\<rfloor> = r)"

definition js_trunc :: "real \<Rightarrow> int" where
  "js_trunc r = (if 0 \<le> r then \<lfloor>r\<rfloor> else \<lceil>r\<rceil>)"

section \<open>Fallible results\<close>

text \<open>
  A computation that may throw is a sum, \<open>Inl\<close> the error. \<open>sum_bind\<close> runs the rest of the code
  on its result, \<open>require\<close> is a guard that throws.
\<close>

definition sum_bind :: "'e + 'a \<Rightarrow> ('a \<Rightarrow> 'e + 'b) \<Rightarrow> 'e + 'b" where
  "sum_bind x f = (case x of Inl e \<Rightarrow> Inl e | Inr a \<Rightarrow> f a)"

definition require :: "bool \<Rightarrow> 'e \<Rightarrow> 'a \<Rightarrow> 'e + 'a" where
  "require b e a = (if b then Inr a else Inl e)"

definition of_option :: "'e \<Rightarrow> 'a option \<Rightarrow> 'e + 'a" where
  "of_option e x = (case x of None \<Rightarrow> Inl e | Some a \<Rightarrow> Inr a)"

lemma sum_bind_simps [simp]: "sum_bind (Inl e) f = Inl e" "sum_bind (Inr a) f = f a"
  by (simp_all add: sum_bind_def)

lemma sum_bind_Inr: "sum_bind x f = Inr b \<longleftrightarrow> (\<exists>a. x = Inr a \<and> f a = Inr b)"
  by (cases x) auto

lemma require_Inr [simp]: "require b e a = Inr c \<longleftrightarrow> b \<and> c = a"
  by (auto simp: require_def)

lemma of_option_Inr [simp]: "of_option e x = Inr a \<longleftrightarrow> x = Some a"
  by (auto simp: of_option_def split: option.split)

text \<open>\<open>traverse f xs\<close> is a loop over \<open>xs\<close> whose body \<open>f\<close> may throw: the first error wins.\<close>

fun traverse :: "('a \<Rightarrow> 'e + 'b) \<Rightarrow> 'a list \<Rightarrow> 'e + 'b list" where
  "traverse f [] = Inr []"
| "traverse f (x # xs) =
     (case f x of Inl e \<Rightarrow> Inl e
      | Inr y \<Rightarrow> (case traverse f xs of Inl e \<Rightarrow> Inl e | Inr ys \<Rightarrow> Inr (y # ys)))"

lemma traverse_Inr: "traverse f xs = Inr ys \<longleftrightarrow> list_all2 (\<lambda>x y. f x = Inr y) xs ys"
proof (induction xs arbitrary: ys)
  case (Cons x xs)
  show ?case by (auto simp: list_all2_Cons1 Cons.IH [symmetric] split: sum.splits)
qed auto

lemma traverse_length: "traverse f xs = Inr ys \<Longrightarrow> length ys = length xs"
  by (simp add: traverse_Inr list_all2_lengthD)

lemma traverse_in: "traverse f xs = Inr ys \<Longrightarrow> x \<in> set xs \<Longrightarrow> \<exists>y \<in> set ys. f x = Inr y"
  unfolding traverse_Inr by (induction rule: list_all2_induct) auto

lemma traverse_from: "traverse f xs = Inr ys \<Longrightarrow> y \<in> set ys \<Longrightarrow> \<exists>x \<in> set xs. f x = Inr y"
  unfolding traverse_Inr by (induction rule: list_all2_induct) auto

lemma length_filter_all: "length (filter P xs) = length xs \<longleftrightarrow> list_all P xs"
proof (induction xs)
  case (Cons x xs)
  have "length (filter P xs) \<noteq> Suc (length xs)" by (metis Suc_n_not_le_n length_filter_le)
  then show ?case using Cons.IH by auto
qed simp

section \<open>Decimal rendering\<close>

text \<open>
  \<open>BigInt.prototype.toString()\<close> in base ten. Digits are the characters
  \<open>0\<close>--\<open>9\<close>; \<open>dec_val\<close> is \<open>BigInt(text)\<close> on a string of digits.
\<close>

definition digit_char :: "nat \<Rightarrow> char" where
  "digit_char d = char_of (48 + d)"

definition is_digit :: "char \<Rightarrow> bool" where
  "is_digit c \<longleftrightarrow> 48 \<le> (of_char c :: nat) \<and> (of_char c :: nat) \<le> 57"

definition digit_val :: "char \<Rightarrow> nat" where
  "digit_val c = of_char c - 48"

fun dec_nat :: "nat \<Rightarrow> string" where
  "dec_nat n = (if n < 10 then [digit_char n] else dec_nat (n div 10) @ [digit_char (n mod 10)])"

declare dec_nat.simps [simp del]

definition dec_int :: "int \<Rightarrow> string" where
  "dec_int i = (if i < 0 then CHR ''-'' # dec_nat (nat (- i)) else dec_nat (nat i))"

definition dec_val :: "string \<Rightarrow> nat" where
  "dec_val s = foldl (\<lambda>n c. 10 * n + digit_val c) 0 s"

lemma of_char_digit [simp]: "d < 10 \<Longrightarrow> (of_char (digit_char d) :: nat) = 48 + d"
  by (simp add: digit_char_def of_char_of take_bit_nat_eq_self)

lemma is_digit_digit_char [simp, dec_simps]: "d < 10 \<Longrightarrow> is_digit (digit_char d)"
  by (simp add: is_digit_def)

lemma digit_val_digit_char [simp, dec_simps]: "d < 10 \<Longrightarrow> digit_val (digit_char d) = d"
  by (simp add: digit_val_def)

lemma digit_val_less [dec_simps]: "is_digit c \<Longrightarrow> digit_val c < 10"
  unfolding is_digit_def digit_val_def by linarith

lemma digit_char_digit_val [simp, dec_simps]: "is_digit c \<Longrightarrow> digit_char (digit_val c) = c"
  by (simp add: is_digit_def digit_val_def digit_char_def)

lemma dec_val_Nil [simp, dec_simps]: "dec_val [] = 0"
  by (simp add: dec_val_def)

lemma dec_val_snoc [simp, dec_simps]: "dec_val (s @ [c]) = 10 * dec_val s + digit_val c"
  by (simp add: dec_val_def)

lemma dec_val_dec_nat [simp, dec_simps]: "dec_val (dec_nat n) = n"
proof (induction n rule: dec_nat.induct)
  case (1 n)
  show ?case
  proof (cases "n < 10")
    case True
    then show ?thesis using dec_val_snoc [of "[]" "digit_char n"] by (simp add: dec_nat.simps [of n])
  next
    case False
    then show ?thesis using "1.IH" by (simp add: dec_nat.simps [of n])
  qed
qed

lemma dec_nat_inj [dec_simps]: "dec_nat m = dec_nat n \<longleftrightarrow> m = n"
  by (metis dec_val_dec_nat)

lemma dec_nat_digits: "list_all is_digit (dec_nat n)"
proof (induction n rule: dec_nat.induct)
  case (1 n)
  then show ?case by (cases "n < 10") (simp_all add: dec_nat.simps [of n])
qed

lemma dec_nat_nonempty [simp]: "dec_nat n \<noteq> []"
  by (subst dec_nat.simps) simp

lemma digit_char_0 [simp]: "digit_char 0 = CHR ''0''"
  by code_simp

lemma digit_char_eq_zero: "d < 10 \<Longrightarrow> digit_char d = CHR ''0'' \<longleftrightarrow> d = 0"
proof
  assume "d < 10" "digit_char d = CHR ''0''"
  then have "digit_val (digit_char d) = digit_val CHR ''0''" by simp
  with \<open>d < 10\<close> show "d = 0" by (simp add: digit_val_def)
qed simp

lemma dec_nat_hd: "n \<noteq> 0 \<Longrightarrow> hd (dec_nat n) \<noteq> CHR ''0''"
proof (induction n rule: dec_nat.induct)
  case (1 n)
  show ?case
  proof (cases "n < 10")
    case True
    then show ?thesis using "1.prems" by (simp add: dec_nat.simps [of n] digit_char_eq_zero)
  next
    case False
    then have "hd (dec_nat (n div 10)) \<noteq> CHR ''0''" by (intro "1.IH") auto
    with False show ?thesis by (simp add: dec_nat.simps [of n])
  qed
qed

lemma dec_nat_0 [simp]: "dec_nat 0 = ''0''"
  by (subst dec_nat.simps) simp

text \<open>A canonical digit string (no superfluous leading zero) is the rendering of its value.\<close>

definition canonical_digits :: "string \<Rightarrow> bool" where
  "canonical_digits s \<longleftrightarrow> s \<noteq> [] \<and> list_all is_digit s \<and> (hd s = CHR ''0'' \<longrightarrow> s = ''0'')"

lemma canonical_digits_dec_nat [simp]: "canonical_digits (dec_nat n)"
  using dec_nat_digits [of n] dec_nat_hd [of n] by (cases "n = 0") (auto simp: canonical_digits_def)

lemma dec_val_pos:
  assumes "canonical_digits s" "s \<noteq> ''0''"
  shows "0 < dec_val s"
  using assms
proof (induction s rule: rev_induct)
  case Nil
  then show ?case by (simp add: canonical_digits_def)
next
  case (snoc c s)
  show ?case
  proof (cases "s = []")
    case True
    with snoc.prems have "is_digit c" "c \<noteq> CHR ''0''" by (auto simp: canonical_digits_def)
    then have "digit_val c \<noteq> 0" by (metis digit_char_digit_val digit_char_eq_zero zero_less_numeral)
    with True show ?thesis using dec_val_snoc [of "[]" c] by simp
  next
    case False
    with snoc.prems have "canonical_digits s" "s \<noteq> ''0''"
      by (auto simp: canonical_digits_def hd_append)
    then show ?thesis using snoc.IH by simp
  qed
qed

lemma dec_nat_dec_val:
  assumes "canonical_digits s"
  shows "dec_nat (dec_val s) = s"
  using assms
proof (induction s rule: rev_induct)
  case Nil
  then show ?case by (simp add: canonical_digits_def)
next
  case (snoc c s)
  then have c: "is_digit c" by (simp add: canonical_digits_def)
  show ?case
  proof (cases "s = []")
    case True
    then show ?thesis
      using c dec_val_snoc [of "[]" c] digit_val_less [OF c] by (simp add: dec_nat.simps)
  next
    case False
    with snoc.prems have s: "canonical_digits s" "s \<noteq> ''0''"
      by (auto simp: canonical_digits_def hd_append)
    then have pos: "0 < dec_val s" by (rule dec_val_pos)
    have d: "digit_val c < 10" using c by (rule digit_val_less)
    have "dec_nat (10 * dec_val s + digit_val c) = dec_nat (dec_val s) @ [digit_char (digit_val c)]"
      using pos d by (subst dec_nat.simps) simp
    then show ?thesis using snoc.IH s c by simp
  qed
qed

lemma dec_nat_no_char: "\<not> is_digit c \<Longrightarrow> c \<notin> set (dec_nat n)"
  using dec_nat_digits [of n] by (auto simp: list_all_iff)

end
