(* ===== verification/Refs.thy ===== *)
theory Refs
  imports Prelude
begin

text \<open>
  Resource references of the SDK (\<^verbatim>\<open>sdk/typescript/src/refs.ts\<close>): namespaces,
  display paths, relative-key resolution and version selectors. Every \<open>throw\<close> is a
  value of \<open>ref_error\<close>. The lemmas show that the display path and the configuration
  form of a namespace are exact encodings: parsing accepts precisely the rendered
  well-formed references and returns the reference it was rendered from.
\<close>

section \<open>Definitions\<close>

record namespace_ref =
  ns_env :: string
  ns_app :: string

record resource_ref =
  rr_namespace :: namespace_ref
  rr_key :: string

text \<open>A reference as the wire messages carry it; an absent namespace is \<open>None\<close>.\<close>

record wire_ref =
  wr_namespace :: "namespace_ref option"
  wr_key :: string

record version_ref =
  vr_version :: "int option"
  vr_label :: "string option"

datatype ref_error =
    InvalidNamespace string
  | PathNotAbsolute string
  | InvalidDisplayPath string
  | NoNamespaceError string
  | InvalidVersion

text \<open>The stable \<open>KmsError\<close> code of each error: all but one are \<open>ConfigError\<close>s.\<close>

fun ref_error_code :: "ref_error \<Rightarrow> string" where
  "ref_error_code (NoNamespaceError _) = ''no_namespace''"
| "ref_error_code _ = ''invalid_argument''"

abbreviation slash :: char where
  "slash \<equiv> CHR ''/''"

abbreviation nul :: char where
  "nul \<equiv> CHR 0x00"

definition UINT64_MAX :: int where
  "UINT64_MAX = 2 ^ 64 - 1"

definition CURRENT_VERSION :: version_ref where
  "CURRENT_VERSION = \<lparr>vr_version = None, vr_label = None\<rparr>"

definition immutableNamespace :: "string \<Rightarrow> string \<Rightarrow> namespace_ref" where
  "immutableNamespace e a = \<lparr>ns_env = e, ns_app = a\<rparr>"

definition immutableRef :: "namespace_ref \<Rightarrow> string \<Rightarrow> resource_ref" where
  "immutableRef ns k =
     \<lparr>rr_namespace = immutableNamespace (ns_env ns) (ns_app ns), rr_key = k\<rparr>"

definition parseNamespace :: "string \<Rightarrow> ref_error + namespace_ref" where
  "parseNamespace v =
     (case index_of slash v of
        None \<Rightarrow> Inl (InvalidNamespace v)
      | Some i \<Rightarrow>
          if i = 0 \<or> Suc i = length v \<or> index_from slash v (Suc i) \<noteq> None
          then Inl (InvalidNamespace v)
          else Inr (immutableNamespace (slice v 0 i) (drop (Suc i) v)))"

definition splitDisplayPath :: "string \<Rightarrow> ref_error + resource_ref" where
  "splitDisplayPath path =
     (if take 1 path \<noteq> [slash] then Inl (PathNotAbsolute path)
      else case index_from slash path 1 of
        None \<Rightarrow> Inl (InvalidDisplayPath path)
      | Some first \<Rightarrow>
          (case index_from slash path (Suc first) of
             None \<Rightarrow> Inl (InvalidDisplayPath path)
           | Some second \<Rightarrow>
               if first \<le> 1 \<or> second \<le> Suc first \<or> Suc second = length path
               then Inl (InvalidDisplayPath path)
               else Inr (immutableRef
                 (immutableNamespace (slice path 1 first) (slice path (Suc first) second))
                 (drop (Suc second) path))))"

definition displayPath :: "resource_ref \<Rightarrow> string" where
  "displayPath r =
     slash # ns_env (rr_namespace r) @ slash # ns_app (rr_namespace r) @ slash # rr_key r"

definition displayNamespace :: "namespace_ref \<Rightarrow> string" where
  "displayNamespace ns = ns_env ns @ slash # ns_app ns"

text \<open>The namespace argument of \<open>resolveRef\<close>: absent, a parsed reference or its text.\<close>

datatype namespace_arg = NsUndefined | NsRef namespace_ref | NsText string

definition resolveRef :: "string \<Rightarrow> namespace_arg \<Rightarrow> ref_error + resource_ref" where
  "resolveRef k arg =
     (if take 1 k = [slash] then splitDisplayPath k
      else
        let check = (\<lambda>ns. if ns_env ns = [] \<or> ns_app ns = [] then Inl (NoNamespaceError k)
                          else Inr (immutableRef ns k))
        in case arg of
             NsUndefined \<Rightarrow> Inl (NoNamespaceError k)
           | NsRef ns \<Rightarrow> check ns
           | NsText t \<Rightarrow> (case parseNamespace t of Inl e \<Rightarrow> Inl e | Inr ns \<Rightarrow> check ns))"

definition refOf :: "string \<Rightarrow> resource_ref option" where
  "refOf path = (case splitDisplayPath path of Inl _ \<Rightarrow> None | Inr r \<Rightarrow> Some r)"

definition namespaceEquals :: "namespace_ref \<Rightarrow> namespace_ref \<Rightarrow> bool" where
  "namespaceEquals a b \<longleftrightarrow> ns_env a = ns_env b \<and> ns_app a = ns_app b"

definition namespaceKey :: "namespace_ref \<Rightarrow> string" where
  "namespaceKey ns = ns_env ns @ nul # ns_app ns"

definition normalizeVersionRef :: "version_ref \<Rightarrow> ref_error + (int \<times> string)" where
  "normalizeVersionRef sel =
     (let version = (case vr_version sel of None \<Rightarrow> 0 | Some v \<Rightarrow> v)
      in if version < 0 \<or> UINT64_MAX < version then Inl InvalidVersion
         else Inr (version,
           if version = 0 then (case vr_label sel of None \<Rightarrow> [] | Some l \<Rightarrow> l) else []))"

section \<open>Well-formed references\<close>

definition ns_ok :: "namespace_ref \<Rightarrow> bool" where
  "ns_ok ns \<longleftrightarrow> ns_env ns \<noteq> [] \<and> slash \<notin> set (ns_env ns) \<and> ns_app ns \<noteq> [] \<and> slash \<notin> set (ns_app ns)"

definition ref_ok :: "resource_ref \<Rightarrow> bool" where
  "ref_ok r \<longleftrightarrow> ns_ok (rr_namespace r) \<and> rr_key r \<noteq> []"

lemma immutableNamespace_sel [simp]:
  "ns_env (immutableNamespace e a) = e" "ns_app (immutableNamespace e a) = a"
  "immutableNamespace (ns_env ns) (ns_app ns) = ns"
  by (simp_all add: immutableNamespace_def)

lemma immutableRef_eq [simp]: "immutableRef (rr_namespace r) (rr_key r) = r"
  "rr_namespace (immutableRef ns k) = ns" "rr_key (immutableRef ns k) = k"
  by (simp_all add: immutableRef_def)

lemma namespaceEquals_iff [simp]: "namespaceEquals a b \<longleftrightarrow> a = b"
  by (auto simp: namespaceEquals_def)

section \<open>Namespaces\<close>

lemma parseNamespace_display: "ns_ok ns \<Longrightarrow> parseNamespace (displayNamespace ns) = Inr ns"
  by (simp add: parseNamespace_def displayNamespace_def ns_ok_def index_of_append index_from_def
      slice_def)

lemma parseNamespace_InrD:
  assumes "parseNamespace v = Inr ns"
  shows "ns_ok ns \<and> v = displayNamespace ns"
proof -
  obtain i where i: "index_of slash v = Some i" "i \<noteq> 0" "Suc i \<noteq> length v"
      "index_from slash v (Suc i) = None" and ns: "ns = immutableNamespace (take i v) (drop (Suc i) v)"
    using assms by (auto simp: parseNamespace_def slice_def split: option.splits if_splits)
  have v: "i < length v" "v = take i v @ slash # drop (Suc i) v" "slash \<notin> set (take i v)"
    using index_of_SomeD [OF i(1)] by auto
  moreover have "slash \<notin> set (drop (Suc i) v)"
    using i(4) by (simp add: index_from_def)
  moreover have "take i v \<noteq> []" "drop (Suc i) v \<noteq> []"
    using i(2,3) v(1) by auto
  ultimately show ?thesis
    by (simp add: ns ns_ok_def displayNamespace_def)
qed

lemma namespaceKey_inj:
  assumes "nul \<notin> set (ns_env a)" "nul \<notin> set (ns_env b)"
  shows "namespaceKey a = namespaceKey b \<longleftrightarrow> a = b"
proof
  assume eq: "namespaceKey a = namespaceKey b"
  have "length (ns_env a) = length (ns_env b)"
    using arg_cong [OF eq, of "index_of nul"] assms by (simp add: namespaceKey_def index_of_append)
  with eq show "a = b" by (simp add: namespaceKey_def)
qed simp

section \<open>Display paths\<close>

lemma splitDisplayPath_display:
  assumes "ref_ok r"
  shows "splitDisplayPath (displayPath r) = Inr r"
proof -
  let ?e = "ns_env (rr_namespace r)" and ?a = "ns_app (rr_namespace r)" and ?k = "rr_key r"
  have ok: "?e \<noteq> []" "slash \<notin> set ?e" "?a \<noteq> []" "slash \<notin> set ?a" "?k \<noteq> []"
    using assms by (auto simp: ref_ok_def ns_ok_def)
  have first: "index_from slash (displayPath r) 1 = Some (Suc (length ?e))"
    using ok by (simp add: index_from_def displayPath_def index_of_append)
  have second: "index_from slash (displayPath r) (Suc (Suc (length ?e)))
      = Some (Suc (Suc (length ?e + length ?a)))"
    using ok by (simp add: index_from_def displayPath_def index_of_append)
  have parts: "slice (displayPath r) 1 (Suc (length ?e)) = ?e"
    "slice (displayPath r) (Suc (Suc (length ?e))) (Suc (Suc (length ?e + length ?a))) = ?a"
    "drop (Suc (Suc (Suc (length ?e + length ?a)))) (displayPath r) = ?k"
    by (simp_all add: slice_def displayPath_def)
  show ?thesis
    using ok first second parts by (simp add: splitDisplayPath_def) (simp add: displayPath_def)
qed

lemma splitDisplayPath_InrD:
  assumes "splitDisplayPath p = Inr r"
  shows "ref_ok r \<and> p = displayPath r"
proof -
  obtain first second where p: "take 1 p = [slash]"
    and f: "index_from slash p 1 = Some first" and s: "index_from slash p (Suc first) = Some second"
    and b: "1 < first" "Suc first < second" "Suc second \<noteq> length p"
    and r: "r = immutableRef (immutableNamespace (slice p 1 first) (slice p (Suc first) second))
                 (drop (Suc second) p)"
    using assms by (auto simp: splitDisplayPath_def split: option.splits if_splits)
  obtain q where q: "p = slash # q" using p by (cases p) auto
  have f': "index_of slash q = Some (first - 1)" using f q by (auto simp: index_from_def)
  define i where "i = first - 1"
  have i: "first = Suc i" "0 < i" using b(1) by (auto simp: i_def)
  have q1: "i < length q" "q = take i q @ slash # drop (Suc i) q" "slash \<notin> set (take i q)"
    using index_of_SomeD [OF f'] by (auto simp: i_def)
  have s': "index_of slash (drop (Suc i) q) = Some (second - Suc (Suc i))"
    using s q i by (auto simp: index_from_def)
  define j where "j = second - Suc (Suc i)"
  have j: "second = Suc (Suc (i + j))" "0 < j" using b(2) i by (auto simp: j_def)
  let ?t = "drop (Suc i) q"
  have q2: "j < length ?t" "?t = take j ?t @ slash # drop (Suc j) ?t" "slash \<notin> set (take j ?t)"
    using index_of_SomeD [OF s'] by (auto simp: j_def)
  have k: "drop (Suc j) ?t \<noteq> []" using b(3) j q q2(1) by auto
  have "r = immutableRef (immutableNamespace (take i q) (take j ?t)) (drop (Suc j) ?t)"
    using r q i j by (simp add: slice_def add.commute)
  moreover have "take i q \<noteq> []" "take j ?t \<noteq> []" using q1(1) q2(1) i j by auto
  moreover have "p = slash # take i q @ slash # take j ?t @ slash # drop (Suc j) ?t"
    using q q1(2) q2(2) by metis
  ultimately show ?thesis
    using q1(3) q2(3) k by (simp add: ref_ok_def ns_ok_def displayPath_def)
qed

lemma refOf_Some: "refOf p = Some r \<longleftrightarrow> ref_ok r \<and> p = displayPath r"
  using splitDisplayPath_InrD splitDisplayPath_display
  by (auto simp: refOf_def split: sum.splits)

lemma displayPath_inj: "ref_ok r \<Longrightarrow> ref_ok r' \<Longrightarrow> displayPath r = displayPath r' \<longleftrightarrow> r = r'"
  by (metis splitDisplayPath_display sum.inject(2))

lemma resolveRef_ok:
  assumes "resolveRef k arg = Inr r" "k \<noteq> []"
    and "\<And>ns. arg = NsRef ns \<Longrightarrow> slash \<notin> set (ns_env ns) \<and> slash \<notin> set (ns_app ns)"
  shows "ref_ok r"
proof (cases "take 1 k = [slash]")
  case True
  then show ?thesis using assms(1) splitDisplayPath_InrD by (auto simp: resolveRef_def)
next
  case False
  with assms show ?thesis
    by (auto simp: resolveRef_def Let_def ref_ok_def ns_ok_def
        split: namespace_arg.splits if_splits sum.splits dest!: parseNamespace_InrD)
qed

section \<open>Properties\<close>

text \<open>C13: \<open>splitDisplayPath\<close> accepts exactly the rendered display paths of well-formed
  references (non-empty slash-free environment and application, non-empty key, interior
  slashes of the key kept), and returns the reference the path was rendered from.\<close>

theorem display_path_exact:
  "splitDisplayPath p = Inr r \<longleftrightarrow> ref_ok r \<and> p = displayPath r"
  using splitDisplayPath_InrD splitDisplayPath_display by auto

text \<open>\<open>parseNamespace\<close> accepts exactly the \<open>env/app\<close> forms with one slash and two
  non-empty parts, and returns the namespace that renders back to the text.\<close>

theorem parse_namespace_exact:
  "parseNamespace v = Inr ns \<longleftrightarrow> ns_ok ns \<and> v = displayNamespace ns"
  using parseNamespace_InrD parseNamespace_display by auto

text \<open>A non-empty key that resolves, absolute or relative to a namespace whose parts are
  slash-free, gives a reference whose display path identifies it: the path the cache and the
  watch manager key their state by parses back to the same reference.\<close>

theorem resolve_ref_identifies:
  assumes "resolveRef k arg = Inr r" and "k \<noteq> []"
    and "\<And>ns. arg = NsRef ns \<Longrightarrow> slash \<notin> set (ns_env ns) \<and> slash \<notin> set (ns_app ns)"
  shows "refOf (displayPath r) = Some r"
  using resolveRef_ok [OF assms] by (simp add: refOf_Some)

theorem resolve_ref_identifies_witness:
  "refOf (displayPath \<lparr>rr_namespace = \<lparr>ns_env = ''prod'', ns_app = ''pay''\<rparr>, rr_key = ''a/b''\<rparr>)
     = Some \<lparr>rr_namespace = \<lparr>ns_env = ''prod'', ns_app = ''pay''\<rparr>, rr_key = ''a/b''\<rparr>"
proof (rule resolve_ref_identifies)
  show "resolveRef ''a/b'' (NsText ''prod/pay'')
      = Inr \<lparr>rr_namespace = \<lparr>ns_env = ''prod'', ns_app = ''pay''\<rparr>, rr_key = ''a/b''\<rparr>"
    by (simp add: resolveRef_def parseNamespace_def index_from_def slice_def immutableRef_def
        immutableNamespace_def)
qed simp_all

end
