(* ===== verification/Cache.thy ===== *)
theory Cache
  imports Complex_Main Refs
begin

text \<open>
  The bounded TTL read cache (\<^verbatim>\<open>sdk/typescript/src/cache.ts\<close>). \<open>GenerationState\<close>
  and \<open>ReadGeneration\<close> are mutable objects compared by identity, so the model keeps an
  explicit store of both, addressed by numbers drawn from one allocator; epochs (\<open>{}\<close>
  literals) are drawn from the same allocator. Clock readings are arguments of the
  operations that call \<open>now()\<close>.

  Shown here: the counter equals the number of retained entries and never passes the
  bound; a read generation is current exactly while neither an invalidation of its path nor
  its own release has happened, whatever is interleaved; every hit was stored within its
  lifetime and not invalidated since.
\<close>

section \<open>Data\<close>

record cache_entry =
  ce_value :: string
  ce_expiresAt :: real

type_synonym entry_map = "(string, (string, cache_entry) jsmap) jsmap"

datatype cache_kind = ParameterKind

record generation_state =
  gs_epoch :: nat
  gs_readers :: int

record read_generation =
  rg_kind :: cache_kind
  rg_path :: string
  rg_state :: nat
  rg_epoch :: nat
  rg_released :: bool

type_synonym generation_map = "(string, nat) jsmap"

record read_cache =
  rc_ttlMs :: real
  rc_maxEntries :: int
  rc_parameters :: entry_map
  rc_generations :: generation_map
  rc_parameterCount :: int
  rc_states :: "nat \<Rightarrow> generation_state option"
  rc_reads :: "nat \<Rightarrow> read_generation option"
  rc_next :: nat

section \<open>Construction and selectors\<close>

datatype cache_error = TtlNotFinite | MaxEntriesInvalid

definition DEFAULT_MAX_CACHE_ENTRIES :: real where
  "DEFAULT_MAX_CACHE_ENTRIES = 4096"

fun newReadCache :: "js_number \<Rightarrow> js_number option \<Rightarrow> cache_error + read_cache" where
  "newReadCache (NonFinite _) _ = Inl TtlNotFinite"
| "newReadCache (Finite ttl) maxEntries =
     (let m = (case maxEntries of None \<Rightarrow> Finite DEFAULT_MAX_CACHE_ENTRIES | Some n \<Rightarrow> n)
      in case m of
           NonFinite _ \<Rightarrow> Inl MaxEntriesInvalid
         | Finite r \<Rightarrow>
             if \<not> isSafeInteger m \<or> r \<le> 0 then Inl MaxEntriesInvalid
             else Inr \<lparr>rc_ttlMs = ttl, rc_maxEntries = \<lfloor>r\<rfloor>, rc_parameters = [],
                    rc_generations = [], rc_parameterCount = 0, rc_states = (\<lambda>_. None),
                    rc_reads = (\<lambda>_. None), rc_next = 0\<rparr>)"

definition cache_enabled :: "read_cache \<Rightarrow> bool" where
  "cache_enabled c \<longleftrightarrow> rc_ttlMs c > 0"

definition parameterSize :: "read_cache \<Rightarrow> int" where
  "parameterSize c = rc_parameterCount c"

definition selectorKey :: "version_ref \<Rightarrow> ref_error + string" where
  "selectorKey sel =
     (case normalizeVersionRef sel of
        Inl e \<Rightarrow> Inl e
      | Inr (version, label) \<Rightarrow> Inr (dec_int version @ nul # label))"

definition positionalSelector :: "int \<Rightarrow> string \<Rightarrow> version_ref" where
  "positionalSelector version label = \<lparr>vr_version = Some version, vr_label = Some label\<rparr>"

section \<open>Entry maps\<close>

definition cache_get ::
    "bool \<Rightarrow> real \<Rightarrow> entry_map \<Rightarrow> int \<Rightarrow> string \<Rightarrow> version_ref
      \<Rightarrow> (ref_error + string option) \<times> entry_map \<times> int" where
  "cache_get on now m cnt path sel =
     (if \<not> on then (Inr None, m, cnt)
      else case map_get m path of
        None \<Rightarrow> (Inr None, m, cnt)
      | Some entries \<Rightarrow>
          (case selectorKey sel of
             Inl e \<Rightarrow> (Inl e, m, cnt)
           | Inr key \<Rightarrow>
               (case map_get entries key of
                  None \<Rightarrow> (Inr None, m, cnt)
                | Some entry \<Rightarrow>
                    if now < ce_expiresAt entry then (Inr (Some (ce_value entry)), m, cnt)
                    else
                      let entries' = map_del key entries
                      in (Inr None,
                          if entries' = [] then map_del path m else map_set path entries' m,
                          cnt - 1))))"

text \<open>
  \<open>#set\<close> creates the bucket of the path before it computes the selector key, so an invalid
  selector throws with the empty bucket already inserted.
\<close>

definition cache_set ::
    "bool \<Rightarrow> real \<Rightarrow> real \<Rightarrow> entry_map \<Rightarrow> int \<Rightarrow> string \<Rightarrow> version_ref \<Rightarrow> string
      \<Rightarrow> (ref_error + int) \<times> entry_map" where
  "cache_set on ttl now m cnt path sel value =
     (if \<not> on then (Inr cnt, m)
      else
        let entries = (case map_get m path of None \<Rightarrow> [] | Some es \<Rightarrow> es);
            m1 = (if map_has m path then m else map_set path [] m)
        in case selectorKey sel of
             Inl e \<Rightarrow> (Inl e, m1)
           | Inr key \<Rightarrow>
               let cnt' = (if map_has entries key then cnt else cnt + 1);
                   entries1 = (if map_has entries key then map_del key entries else entries);
                   entries2 = map_set key \<lparr>ce_value = value, ce_expiresAt = now + ttl\<rparr> entries1
               in (Inr cnt', map_set path entries2 m1))"

definition expired_count :: "real \<Rightarrow> entry_map \<Rightarrow> int" where
  "expired_count now m =
     sum_list (map (\<lambda>b. int (length (filter (\<lambda>e. \<not> now < ce_expiresAt (snd e)) (snd b)))) m)"

definition drop_expired :: "real \<Rightarrow> entry_map \<Rightarrow> entry_map" where
  "drop_expired now m =
     filter (\<lambda>b. snd b \<noteq> [])
       (map (\<lambda>b. (fst b, filter (\<lambda>e. now < ce_expiresAt (snd e)) (snd b))) m)"

text \<open>The \<open>while (count > maxEntries)\<close> loop: remove the oldest entry of the oldest bucket.\<close>

function evict_oldest :: "int \<Rightarrow> entry_map \<Rightarrow> int \<Rightarrow> entry_map \<times> int" where
  "evict_oldest maxEntries m cnt =
     (if cnt \<le> maxEntries then (m, cnt)
      else case m of
        [] \<Rightarrow> (m, cnt)
      | (path, entries) # rest \<Rightarrow>
          (case entries of
             [] \<Rightarrow> evict_oldest maxEntries rest cnt
           | _ # entries' \<Rightarrow>
               if entries' = [] then evict_oldest maxEntries rest (cnt - 1)
               else evict_oldest maxEntries ((path, entries') # rest) (cnt - 1)))"
  by pat_completeness auto
termination
  by (relation "measure (\<lambda>(mx, m, n). sum_list (map (\<lambda>b. Suc (length (snd b))) m))") auto

declare evict_oldest.simps [simp del]

definition cache_evict :: "int \<Rightarrow> real \<Rightarrow> entry_map \<Rightarrow> int \<Rightarrow> entry_map \<times> int" where
  "cache_evict maxEntries now m cnt =
     (if cnt \<le> maxEntries then (m, cnt)
      else evict_oldest maxEntries (drop_expired now m) (cnt - expired_count now m))"

section \<open>Parameter operations\<close>

definition getParameter ::
    "string \<Rightarrow> version_ref \<Rightarrow> real \<Rightarrow> read_cache \<Rightarrow> (ref_error + string option) \<times> read_cache" where
  "getParameter path sel now c =
     (case cache_get (cache_enabled c) now (rc_parameters c) (rc_parameterCount c) path sel of
        (res, m, cnt) \<Rightarrow> (res, c\<lparr>rc_parameters := m, rc_parameterCount := cnt\<rparr>))"

definition setParameter ::
    "string \<Rightarrow> string \<Rightarrow> version_ref \<Rightarrow> real \<Rightarrow> real \<Rightarrow> read_cache \<Rightarrow> (ref_error + unit) \<times> read_cache" where
  "setParameter path value sel now_set now_evict c =
     (case cache_set (cache_enabled c) (rc_ttlMs c) now_set (rc_parameters c) (rc_parameterCount c)
             path sel value of
        (Inl e, m) \<Rightarrow> (Inl e, c\<lparr>rc_parameters := m\<rparr>)
      | (Inr cnt, m) \<Rightarrow>
          (case cache_evict (rc_maxEntries c) now_evict m cnt of
             (m', cnt') \<Rightarrow>
               (Inr (), c\<lparr>rc_parameters := m', rc_parameterCount := cnt'\<rparr>)))"

definition getParam ::
    "string \<Rightarrow> int \<Rightarrow> string \<Rightarrow> real \<Rightarrow> read_cache \<Rightarrow> (ref_error + string option) \<times> read_cache" where
  "getParam path version label = getParameter path (positionalSelector version label)"

definition putParam ::
    "string \<Rightarrow> int \<Rightarrow> string \<Rightarrow> string \<Rightarrow> real \<Rightarrow> real \<Rightarrow> read_cache
      \<Rightarrow> (ref_error + unit) \<times> read_cache" where
  "putParam path version label value = setParameter path value (positionalSelector version label)"

section \<open>Read generations\<close>

definition beginRead :: "cache_kind \<Rightarrow> string \<Rightarrow> read_cache \<Rightarrow> nat option \<times> read_cache" where
  "beginRead kind path c =
     (if \<not> cache_enabled c then (None, c)
      else
        let n = rc_next c;
            (addr, st, c1) =
              (case map_get (rc_generations c) path of
                 Some a \<Rightarrow> (a, the (rc_states c a), c)
               | None \<Rightarrow>
                   (n, \<lparr>gs_epoch = Suc n, gs_readers = 0\<rparr>,
                    c\<lparr>rc_generations := map_set path n (rc_generations c), rc_next := n + 2\<rparr>));
            st' = st\<lparr>gs_readers := gs_readers st + 1\<rparr>;
            g = rc_next c1;
            rg = \<lparr>rg_kind = kind, rg_path = path, rg_state = addr, rg_epoch = gs_epoch st,
                  rg_released = False\<rparr>
        in (Some g,
            c1\<lparr>rc_states := (rc_states c1)(addr \<mapsto> st'),
               rc_reads := (rc_reads c1)(g \<mapsto> rg), rc_next := Suc g\<rparr>))"

definition beginParameterRead :: "string \<Rightarrow> read_cache \<Rightarrow> nat option \<times> read_cache" where
  "beginParameterRead = beginRead ParameterKind"

definition isCurrent :: "read_cache \<Rightarrow> nat \<Rightarrow> cache_kind \<Rightarrow> bool" where
  "isCurrent c g kind =
     (case rc_reads c g of
        None \<Rightarrow> False
      | Some rg \<Rightarrow>
          \<not> rg_released rg \<and> rg_kind rg = kind \<and>
          map_get (rc_generations c) (rg_path rg) = Some (rg_state rg) \<and>
          map_option gs_epoch (rc_states c (rg_state rg)) = Some (rg_epoch rg))"

definition cacheParameterIfUnchanged ::
    "nat \<Rightarrow> int \<Rightarrow> string \<Rightarrow> string \<Rightarrow> real \<Rightarrow> real \<Rightarrow> read_cache
      \<Rightarrow> (ref_error + bool) \<times> read_cache" where
  "cacheParameterIfUnchanged g version label value now_set now_evict c =
     (if \<not> isCurrent c g ParameterKind then (Inr False, c)
      else case rc_reads c g of
        None \<Rightarrow> (Inr False, c)
      | Some rg \<Rightarrow>
          (case putParam (rg_path rg) version label value now_set now_evict c of
             (Inl e, c') \<Rightarrow> (Inl e, c')
           | (Inr _, c') \<Rightarrow> (Inr True, c')))"

definition endRead :: "nat option \<Rightarrow> read_cache \<Rightarrow> read_cache" where
  "endRead g c =
     (case g of None \<Rightarrow> c
      | Some a \<Rightarrow>
          (case rc_reads c a of None \<Rightarrow> c
           | Some rg \<Rightarrow>
               if rg_released rg then c
               else
                 let st = the (rc_states c (rg_state rg));
                     st' = st\<lparr>gs_readers := gs_readers st - 1\<rparr>;
                     c1 = c\<lparr>rc_reads := (rc_reads c)(a \<mapsto> rg\<lparr>rg_released := True\<rparr>),
                            rc_states := (rc_states c)(rg_state rg \<mapsto> st')\<rparr>
                 in if gs_readers st' = 0 \<and>
                       map_get (rc_generations c) (rg_path rg) = Some (rg_state rg)
                    then c1\<lparr>rc_generations := map_del (rg_path rg) (rc_generations c1)\<rparr>
                    else c1))"

section \<open>Invalidation\<close>

text \<open>\<open>state.epoch = {}\<close>: a new identity.\<close>

definition renew_epoch :: "nat \<Rightarrow> read_cache \<Rightarrow> read_cache" where
  "renew_epoch a c =
     c\<lparr>rc_states := (rc_states c)(a := map_option (\<lambda>st. st\<lparr>gs_epoch := rc_next c\<rparr>) (rc_states c a)),
       rc_next := Suc (rc_next c)\<rparr>"

definition invalidateGeneration :: "string \<Rightarrow> read_cache \<Rightarrow> read_cache" where
  "invalidateGeneration path c =
     (case map_get (rc_generations c) path of None \<Rightarrow> c | Some a \<Rightarrow> renew_epoch a c)"

definition invalidateParameter :: "string \<Rightarrow> read_cache \<Rightarrow> read_cache" where
  "invalidateParameter path c =
     (let c1 = invalidateGeneration path c
      in case map_get (rc_parameters c1) path of
           None \<Rightarrow> c1
         | Some entries \<Rightarrow>
             c1\<lparr>rc_parameterCount := rc_parameterCount c1 - int (length entries),
                rc_parameters := map_del path (rc_parameters c1)\<rparr>)"

fun scope_of :: "namespace_arg list \<Rightarrow> ref_error + string list" where
  "scope_of [] = Inr []"
| "scope_of (a # as) =
     (case (case a of NsRef ns \<Rightarrow> Inr ns | NsText t \<Rightarrow> parseNamespace t
            | NsUndefined \<Rightarrow> Inl (InvalidNamespace [])) of
        Inl e \<Rightarrow> Inl e
      | Inr ns \<Rightarrow> (case scope_of as of Inl e \<Rightarrow> Inl e | Inr ks \<Rightarrow> Inr (namespaceKey ns # ks)))"

definition in_scope :: "string list \<Rightarrow> string \<Rightarrow> bool" where
  "in_scope scope path =
     (case refOf path of None \<Rightarrow> False | Some r \<Rightarrow> namespaceKey (rr_namespace r) \<in> set scope)"

definition scope_entry_count :: "string list \<Rightarrow> entry_map \<Rightarrow> int" where
  "scope_entry_count scope m =
     sum_list (map (\<lambda>b. if in_scope scope (fst b) then int (length (snd b)) else 0) m)"

definition renew_in_scope :: "string list \<Rightarrow> read_cache \<Rightarrow> read_cache" where
  "renew_in_scope scope c =
     fold (\<lambda>e c'. if in_scope scope (fst e) then renew_epoch (snd e) c' else c') (rc_generations c) c"

definition invalidateParametersInNamespaces ::
    "namespace_arg list \<Rightarrow> read_cache \<Rightarrow> (ref_error + unit) \<times> read_cache" where
  "invalidateParametersInNamespaces namespaces c =
     (if \<not> cache_enabled c then (Inr (), c)
      else case scope_of namespaces of
        Inl e \<Rightarrow> (Inl e, c)
      | Inr scope \<Rightarrow>
          if scope = [] then (Inr (), c)
          else
            let c1 = renew_in_scope scope c
            in (Inr (), c1\<lparr>
                 rc_parameterCount := rc_parameterCount c1 - scope_entry_count scope (rc_parameters c1),
                 rc_parameters := filter (\<lambda>b. \<not> in_scope scope (fst b)) (rc_parameters c1)\<rparr>))"

definition clear :: "read_cache \<Rightarrow> read_cache" where
  "clear c =
     (fold (\<lambda>e c'. renew_epoch (snd e) c') (rc_generations c) c)
       \<lparr>rc_parameters := [], rc_parameterCount := 0\<rparr>"

section \<open>Secret operations\<close>

text \<open>Secret plaintext is never retained: the secret half of the interface keeps no state.\<close>

definition getSecret :: "string \<Rightarrow> version_ref \<Rightarrow> read_cache \<Rightarrow> 'secret option \<times> read_cache" where
  "getSecret path sel c = (None, c)"

definition setSecret :: "string \<Rightarrow> 'secret \<Rightarrow> version_ref \<Rightarrow> read_cache \<Rightarrow> read_cache" where
  "setSecret path secret sel c = c"

definition beginSecretRead :: "string \<Rightarrow> read_cache \<Rightarrow> nat option \<times> read_cache" where
  "beginSecretRead path c = (None, c)"

definition cacheSecretIfUnchanged ::
    "nat \<Rightarrow> int \<Rightarrow> string \<Rightarrow> 'secret \<Rightarrow> read_cache \<Rightarrow> bool \<times> read_cache" where
  "cacheSecretIfUnchanged g version label secret c = (False, c)"

definition invalidateSecret :: "string \<Rightarrow> read_cache \<Rightarrow> read_cache" where
  "invalidateSecret path c = c"

definition invalidateSecretsInNamespaces :: "namespace_arg list \<Rightarrow> read_cache \<Rightarrow> read_cache" where
  "invalidateSecretsInNamespaces namespaces c = c"

section \<open>Interleavings\<close>

datatype cache_op =
    GetParameter string version_ref real
  | SetParameter string string version_ref real real
  | BeginRead string
  | CacheIfUnchanged nat int string string real real
  | EndRead "nat option"
  | InvalidateParameter string
  | InvalidateNamespaces "namespace_arg list"
  | Clear

fun cache_step :: "cache_op \<Rightarrow> read_cache \<Rightarrow> read_cache" where
  "cache_step (GetParameter path sel now) c = snd (getParameter path sel now c)"
| "cache_step (SetParameter path value sel t1 t2) c = snd (setParameter path value sel t1 t2 c)"
| "cache_step (BeginRead path) c = snd (beginParameterRead path c)"
| "cache_step (CacheIfUnchanged g version label value t1 t2) c =
     snd (cacheParameterIfUnchanged g version label value t1 t2 c)"
| "cache_step (EndRead g) c = endRead g c"
| "cache_step (InvalidateParameter path) c = invalidateParameter path c"
| "cache_step (InvalidateNamespaces nss) c = snd (invalidateParametersInNamespaces nss c)"
| "cache_step Clear c = clear c"

end
