(* ===== verification/Watch.thy ===== *)
theory Watch
  imports Cache
begin

text \<open>
  The shared watch manager (\<^verbatim>\<open>sdk/typescript/src/watch.ts\<close>): namespace reference counts, the
  parameter values it knows, change and snapshot events, the reconnect loop and the periodic
  reconciliation. The asynchronous methods are cut at their \<open>await\<close>s: every action below is
  one synchronous segment, and a run is any interleaving of them. Local variables that live
  across an \<open>await\<close> are kept in \<open>run_pc\<close> and \<open>recon_pc\<close>.

  The manager invalidates the client's read cache, so the state carries it. Calls that leave
  the manager (update handlers, dispatched watch callbacks, stream requests) are recorded in
  \<open>wm_out\<close>, oldest first. An update handler is a closure of its own registration and is named
  by the registration's number; the handler sets are objects shared by the map and the
  closures, so they live in a store. \<open>localeCompare\<close> orders the namespaces of a request; it is
  the parameter \<open>collate\<close>. Clock and random readings are arguments of the actions that take them.
\<close>

section \<open>Data\<close>

definition DEFAULT_RECONCILE_INTERVAL_MS :: real where
  "DEFAULT_RECONCILE_INTERVAL_MS = 5 * 60000"

definition MAX_RECONCILE_PAGES :: nat where
  "MAX_RECONCILE_PAGES = 100"

datatype watch_event =
    PutEvent string string string string int int string
  | DeleteEvent string string string int int string
  | SecretChangeEvent string string string int int string

datatype connection_state = Idle | Connecting | Connected | Reconnecting | Stopped

datatype reconciliation_health = NotStarted | Healthy | Degraded

record known_value =
  kv_value :: string
  kv_present :: bool
  kv_revision :: int

record watcher =
  w_id :: nat
  w_namespace :: namespace_ref

datatype watch_out =
    Registered nat string
  | HandlerCall nat string bool
  | Dispatch string nat watch_event
  | SendRegistration "namespace_ref list" int
  | SendAck int

text \<open>The wire messages the manager reads; absent sub-messages are \<open>None\<close>.\<close>

record snapshot_parameter =
  sp_ref :: "wire_ref option"
  sp_value :: string
  sp_version :: int

record parameter_change =
  pc_ref :: "wire_ref option"
  pc_changeType :: string
  pc_value :: string
  pc_version :: int

record secret_change =
  sc_ref :: "wire_ref option"
  sc_changeType :: string
  sc_version :: int

datatype subscribe_event =
    SnapshotEvent "snapshot_parameter list"
  | ChangeEvent parameter_change
  | SecretChange secret_change
  | Heartbeat
  | NoEvent

record listed_parameter =
  lp_path :: string
  lp_value :: string
  lp_version :: int

record reconcile_run =
  rn_generation :: nat
  rn_total :: nat
  rn_todo :: "namespace_ref list"
  rn_knownPaths :: "string list"
  rn_snapshotRevision :: int
  rn_present :: "string list"
  rn_completelyListed :: "string list"
  rn_pageToken :: string
  rn_page :: nat

datatype run_pc = RunOff | RunHead | RunWaiting | RunSending nat bool | RunStreaming nat bool | RunBackoff | RunDone

datatype recon_pc = RecOff | RecHead | RecWaiting | RecSleeping nat | RecListing reconcile_run
  | RecFinishing reconcile_run | RecDone

record registration =
  reg_ref :: resource_ref
  reg_handlers :: nat

record watch_mgr =
  wm_cache :: read_cache
  wm_namespaces :: "(string, namespace_ref) jsmap"
  wm_namespaceRefCounts :: "(string, int) jsmap"
  wm_parameterHandlers :: "(string, nat) jsmap"
  wm_handlerSets :: "nat \<Rightarrow> nat list"
  wm_nextHandlerSet :: nat
  wm_known :: "(string, known_value) jsmap"
  wm_watchers :: "(nat, watcher) jsmap"
  wm_watcherStops :: "(nat, namespace_ref) jsmap"
  wm_streamNamespaces :: "namespace_ref list"
  wm_nextWatcherId :: nat
  wm_lastRevision :: int
  wm_state :: connection_state
  wm_reconciliation :: reconciliation_health
  wm_reconnectCount :: int
  wm_connectedAt :: "int option"
  wm_lastEventAt :: "int option"
  wm_disconnectedAt :: "int option"
  wm_lastReconcileAttemptAt :: "int option"
  wm_lastReconcileSuccessAt :: "int option"
  wm_lastReconcileFailureAt :: "int option"
  wm_started :: bool
  wm_restartRequested :: bool
  wm_namespaceGeneration :: nat
  wm_snapshotGeneration :: nat
  wm_aborted :: bool
  wm_stopped :: bool
  wm_stopping :: bool
  wm_attempt :: nat
  wm_run :: run_pc
  wm_recon :: recon_pc
  wm_registrations :: "(nat, registration) jsmap"
  wm_nextRegistration :: nat
  wm_out :: "watch_out list"

section \<open>Construction and status\<close>

datatype watch_error = IntervalNotPositive | ManagerStopped

definition newSubscriptionManager :: "js_number option \<Rightarrow> bool \<Rightarrow> read_cache \<Rightarrow> watch_error + watch_mgr" where
  "newSubscriptionManager reconcileIntervalMs root_aborted cache =
     (case (case reconcileIntervalMs of None \<Rightarrow> Finite DEFAULT_RECONCILE_INTERVAL_MS | Some i \<Rightarrow> i) of
        NonFinite _ \<Rightarrow> Inl IntervalNotPositive
      | Finite interval \<Rightarrow>
          if interval \<le> 0 then Inl IntervalNotPositive
          else Inr \<lparr>wm_cache = cache, wm_namespaces = [], wm_namespaceRefCounts = [],
                 wm_parameterHandlers = [], wm_handlerSets = (\<lambda>_. []), wm_nextHandlerSet = 0, wm_known = [], wm_watchers = [], wm_watcherStops = [],
                 wm_streamNamespaces = [], wm_nextWatcherId = 1, wm_lastRevision = 0,
                 wm_state = Idle, wm_reconciliation = NotStarted, wm_reconnectCount = 0,
                 wm_connectedAt = None, wm_lastEventAt = None, wm_disconnectedAt = None,
                 wm_lastReconcileAttemptAt = None, wm_lastReconcileSuccessAt = None,
                 wm_lastReconcileFailureAt = None, wm_started = False,
                 wm_restartRequested = False, wm_namespaceGeneration = 0,
                 wm_snapshotGeneration = 0, wm_aborted = root_aborted, wm_stopped = False,
                 wm_stopping = False, wm_attempt = 0, wm_run = RunOff, wm_recon = RecOff,
                 wm_registrations = [], wm_nextRegistration = 0, wm_out = []\<rparr>)"

record watch_status =
  ws_state :: connection_state
  ws_reconciliation :: reconciliation_health
  ws_currentRevision :: int
  ws_reconnectCount :: int
  ws_namespaceCount :: nat
  ws_trackedParameterCount :: nat
  ws_watcherCount :: nat
  ws_parameterHandlerCount :: nat
  ws_connectedAtUnixMs :: "int option"
  ws_lastEventAtUnixMs :: "int option"
  ws_disconnectedAtUnixMs :: "int option"
  ws_lastReconcileAttemptAtUnixMs :: "int option"
  ws_lastReconcileSuccessAtUnixMs :: "int option"
  ws_lastReconcileFailureAtUnixMs :: "int option"

definition watch_status_of :: "watch_mgr \<Rightarrow> watch_status" where
  "watch_status_of w = \<lparr>
     ws_state = wm_state w, ws_reconciliation = wm_reconciliation w,
     ws_currentRevision = wm_lastRevision w, ws_reconnectCount = wm_reconnectCount w,
     ws_namespaceCount = length (wm_namespaces w), ws_trackedParameterCount = length (wm_known w),
     ws_watcherCount = length (wm_watchers w),
     ws_parameterHandlerCount =
       sum_list (map (\<lambda>e. length (wm_handlerSets w (snd e))) (wm_parameterHandlers w)),
     ws_connectedAtUnixMs = wm_connectedAt w, ws_lastEventAtUnixMs = wm_lastEventAt w,
     ws_disconnectedAtUnixMs = wm_disconnectedAt w,
     ws_lastReconcileAttemptAtUnixMs = wm_lastReconcileAttemptAt w,
     ws_lastReconcileSuccessAtUnixMs = wm_lastReconcileSuccessAt w,
     ws_lastReconcileFailureAtUnixMs = wm_lastReconcileFailureAt w\<rparr>"

section \<open>Namespaces\<close>

text \<open>
  Replacing the scope controller aborts the previous one, so a loop that captured it sees it
  aborted exactly when the generation has moved on.
\<close>

definition scopeChanged :: "watch_mgr \<Rightarrow> watch_mgr" where
  "scopeChanged w = w\<lparr>wm_namespaceGeneration := Suc (wm_namespaceGeneration w)\<rparr>"

definition retainNamespace :: "namespace_ref \<Rightarrow> watch_mgr \<Rightarrow> bool \<times> watch_mgr" where
  "retainNamespace ns w =
     (let key = namespaceKey ns;
          cnt = (case map_get (wm_namespaceRefCounts w) key of None \<Rightarrow> 0 | Some n \<Rightarrow> n);
          w1 = w\<lparr>wm_namespaceRefCounts := map_set key (cnt + 1) (wm_namespaceRefCounts w)\<rparr>
      in if cnt > 0 then (False, w1)
         else
           let w2 = scopeChanged (w1\<lparr>wm_namespaces := map_set key ns (wm_namespaces w1)\<rparr>)
           in (True, w2\<lparr>wm_cache := invalidateSecretsInNamespaces [NsRef ns] (wm_cache w2)\<rparr>))"

definition known_in :: "string \<Rightarrow> string \<Rightarrow> bool" where
  "known_in key path =
     (case refOf path of None \<Rightarrow> False | Some r \<Rightarrow> namespaceKey (rr_namespace r) = key)"

definition releaseNamespace :: "namespace_ref \<Rightarrow> watch_mgr \<Rightarrow> bool \<times> watch_mgr" where
  "releaseNamespace ns w =
     (let key = namespaceKey ns
      in case map_get (wm_namespaceRefCounts w) key of
           None \<Rightarrow> (False, w)
         | Some cnt \<Rightarrow>
             if cnt > 1 then
               (False, w\<lparr>wm_namespaceRefCounts := map_set key (cnt - 1) (wm_namespaceRefCounts w)\<rparr>)
             else
               (True, scopeChanged
                  (w\<lparr>wm_namespaceRefCounts := map_del key (wm_namespaceRefCounts w),
                     wm_namespaces := map_del key (wm_namespaces w),
                     wm_known := filter (\<lambda>e. \<not> known_in key (fst e)) (wm_known w)\<rparr>)))"

definition ensureStarted :: "watch_mgr \<Rightarrow> watch_mgr" where
  "ensureStarted w =
     (if wm_started w \<or> wm_stopped w then w
      else w\<lparr>wm_started := True, wm_run := RunHead, wm_recon := RecHead\<rparr>)"

definition restart :: "watch_mgr \<Rightarrow> watch_mgr" where
  "restart w = w\<lparr>wm_restartRequested := True\<rparr>"

definition retain_and_start :: "namespace_ref \<Rightarrow> watch_mgr \<Rightarrow> watch_mgr" where
  "retain_and_start ns w =
     (case retainNamespace ns w of
        (changed, w1) \<Rightarrow>
          let w2 = ensureStarted w1 in if wm_started w \<and> changed then restart w2 else w2)"

definition release_and_restart :: "namespace_ref \<Rightarrow> watch_mgr \<Rightarrow> watch_mgr" where
  "release_and_restart ns w =
     (case releaseNamespace ns w of (changed, w1) \<Rightarrow> if changed then restart w1 else w1)"

section \<open>Registrations and watchers\<close>

definition emit :: "watch_out list \<Rightarrow> watch_mgr \<Rightarrow> watch_mgr" where
  "emit os w = w\<lparr>wm_out := wm_out w @ os\<rparr>"

definition registerParameter :: "resource_ref \<Rightarrow> string \<Rightarrow> watch_mgr \<Rightarrow> nat \<times> watch_mgr" where
  "registerParameter ref initial w =
     (let path = displayPath ref;
          h = wm_nextRegistration w;
          w0 = emit [Registered h initial] (w\<lparr>wm_nextRegistration := Suc h\<rparr>);
          w1 = (case map_get (wm_known w0) path of
                  None \<Rightarrow> w0\<lparr>wm_known := map_set path
                             \<lparr>kv_value = initial, kv_present = True, kv_revision = 0\<rparr> (wm_known w0)\<rparr>
                | Some known \<Rightarrow> emit [HandlerCall h (kv_value known) (kv_present known)] w0);
          (s, w2) = (case map_get (wm_parameterHandlers w1) path of
                  Some s \<Rightarrow> (s, w1)
                | None \<Rightarrow>
                    let s = wm_nextHandlerSet w1
                    in (s, w1\<lparr>wm_nextHandlerSet := Suc s, wm_handlerSets := (wm_handlerSets w1)(s := []),
                             wm_parameterHandlers := map_set path s (wm_parameterHandlers w1)\<rparr>));
          w3 = w2\<lparr>wm_handlerSets := (wm_handlerSets w2)(s := wm_handlerSets w2 s @ [h])\<rparr>;
          w4 = retain_and_start (rr_namespace ref) w3
      in (h, w4\<lparr>wm_registrations :=
                  map_set h \<lparr>reg_ref = ref, reg_handlers = s\<rparr> (wm_registrations w4)\<rparr>))"

definition unregisterParameter :: "nat \<Rightarrow> watch_mgr \<Rightarrow> watch_mgr" where
  "unregisterParameter h w =
     (case map_get (wm_registrations w) h of
        None \<Rightarrow> w
      | Some r \<Rightarrow>
          let path = displayPath (reg_ref r);
              handlers = filter (\<lambda>x. x \<noteq> h) (wm_handlerSets w (reg_handlers r));
              w1 = w\<lparr>wm_registrations := map_del h (wm_registrations w),
                     wm_handlerSets := (wm_handlerSets w)(reg_handlers r := handlers)\<rparr>;
              w2 = (if handlers = [] then
                      let w' = w1\<lparr>wm_parameterHandlers := map_del path (wm_parameterHandlers w1)\<rparr>
                      in if map_option kv_present (map_get (wm_known w') path) = Some False
                         then w'\<lparr>wm_known := map_del path (wm_known w')\<rparr> else w'
                    else w1)
          in release_and_restart (rr_namespace (reg_ref r)) w2)"

definition watch :: "namespace_ref \<Rightarrow> bool \<Rightarrow> watch_mgr \<Rightarrow> (watch_error + nat option) \<times> watch_mgr" where
  "watch ns aborted w =
     (if wm_stopped w then (Inl ManagerStopped, w)
      else if aborted then (Inr None, w)
      else
        let i = wm_nextWatcherId w;
            w1 = w\<lparr>wm_nextWatcherId := Suc i,
                   wm_watchers := map_set i \<lparr>w_id = i, w_namespace = ns\<rparr> (wm_watchers w)\<rparr>;
            w2 = retain_and_start ns w1
        in (Inr (Some i), w2\<lparr>wm_watcherStops := map_set i ns (wm_watcherStops w2)\<rparr>))"

definition stop_watcher :: "nat \<Rightarrow> watch_mgr \<Rightarrow> watch_mgr" where
  "stop_watcher i w =
     (case map_get (wm_watcherStops w) i of
        None \<Rightarrow> w
      | Some ns \<Rightarrow>
          release_and_restart ns
            (w\<lparr>wm_watchers := map_del i (wm_watchers w),
               wm_watcherStops := map_del i (wm_watcherStops w)\<rparr>))"

text \<open>\<open>stop()\<close> up to its \<open>await\<close>, and its remainder once both tasks have settled.\<close>

definition stop_begin :: "watch_mgr \<Rightarrow> watch_mgr" where
  "stop_begin w =
     (if wm_stopped w then w
      else
        let w1 = w\<lparr>wm_stopped := True, wm_state := Stopped\<rparr>;
            w2 = fold stop_watcher (map_keys (wm_watcherStops w1)) w1
        in w2\<lparr>wm_aborted := True, wm_stopping := True\<rparr>)"

definition stop_finish :: "watch_mgr \<Rightarrow> watch_mgr" where
  "stop_finish w =
     (if wm_stopping w \<and> wm_run w \<in> {RunOff, RunDone} \<and> wm_recon w \<in> {RecOff, RecDone} then
        w\<lparr>wm_stopping := False, wm_state := Stopped, wm_watchers := [], wm_watcherStops := [],
          wm_parameterHandlers := [], wm_known := [], wm_namespaces := [],
          wm_namespaceRefCounts := []\<rparr>
      else w)"

section \<open>Applying values\<close>

definition revisionAllowsWrite :: "int \<Rightarrow> int \<Rightarrow> bool \<Rightarrow> bool" where
  "revisionAllowsWrite previousRevision revision reconcile =
     (if reconcile then previousRevision \<le> revision else revision = 0 \<or> revision > previousRevision)"

definition wireChangeRef :: "wire_ref option \<Rightarrow> resource_ref option" where
  "wireChangeRef value =
     (case value of None \<Rightarrow> None
      | Some r \<Rightarrow> (case wr_namespace r of None \<Rightarrow> None
                   | Some ns \<Rightarrow> Some \<lparr>rr_namespace = \<lparr>ns_env = ns_env ns, ns_app = ns_app ns\<rparr>, rr_key = wr_key r\<rparr>))"

definition event_path :: "watch_event \<Rightarrow> string" where
  "event_path ev = (case ev of PutEvent _ _ p _ _ _ _ \<Rightarrow> p | DeleteEvent _ _ p _ _ _ \<Rightarrow> p
                    | SecretChangeEvent _ _ p _ _ _ \<Rightarrow> p)"

definition fireWatchers :: "namespace_ref \<Rightarrow> watch_event \<Rightarrow> watch_mgr \<Rightarrow> watch_mgr" where
  "fireWatchers ns ev w =
     emit (map (\<lambda>e. Dispatch (event_path ev) (w_id (snd e)) ev)
        (filter (\<lambda>e. namespaceEquals (w_namespace (snd e)) ns) (wm_watchers w))) w"

text \<open>The dispatched callback runs only while its watcher is still the registered one.\<close>

definition delivers :: "watch_mgr \<Rightarrow> watcher \<Rightarrow> bool" where
  "delivers w wa \<longleftrightarrow> map_get (wm_watchers w) (w_id wa) = Some wa"

definition value_changed :: "known_value option \<Rightarrow> bool \<Rightarrow> string \<Rightarrow> bool" where
  "value_changed previous present value =
     (if present then (case previous of None \<Rightarrow> True | Some k \<Rightarrow> \<not> kv_present k \<or> kv_value k \<noteq> value)
      else (case previous of None \<Rightarrow> False | Some k \<Rightarrow> kv_present k))"

definition handlers_of :: "watch_mgr \<Rightarrow> string \<Rightarrow> nat list" where
  "handlers_of w path =
     (case map_get (wm_parameterHandlers w) path of None \<Rightarrow> [] | Some s \<Rightarrow> wm_handlerSets w s)"

definition setValue :: "string \<Rightarrow> string \<Rightarrow> bool \<Rightarrow> int \<Rightarrow> int \<Rightarrow> bool \<Rightarrow> watch_mgr \<Rightarrow> watch_mgr" where
  "setValue path value present version revision reconcile w =
     (let previous = map_get (wm_known w) path
      in if reconcile \<and> revision < wm_lastRevision w then w
         else if (case previous of None \<Rightarrow> False
                  | Some k \<Rightarrow> \<not> revisionAllowsWrite (kv_revision k) revision reconcile) then w
         else
           let nextRevision = (case previous of None \<Rightarrow> revision
                 | Some k \<Rightarrow> if kv_revision k > revision then kv_revision k else revision);
               w1 = w\<lparr>wm_known := map_set path \<lparr>kv_value = (if present then value else []),
                        kv_present = present, kv_revision = nextRevision\<rparr> (wm_known w)\<rparr>;
               forget = (\<lambda>w'. if \<not> present \<and> \<not> map_has (wm_parameterHandlers w') path
                              then w'\<lparr>wm_known := map_del path (wm_known w')\<rparr> else w')
           in if \<not> value_changed previous present value then forget w1
              else
                let w2 = w1\<lparr>wm_cache := invalidateParameter path (wm_cache w1)\<rparr>;
                    w3 = emit (map (\<lambda>h. HandlerCall h value present)
                           (handlers_of w2 path)) w2
                in case refOf path of
                     None \<Rightarrow> w3
                   | Some ref \<Rightarrow>
                       let ns = displayNamespace (rr_namespace ref);
                           ev = (if present then PutEvent ns (rr_key ref) path value version revision ''put''
                                 else DeleteEvent ns (rr_key ref) path version revision ''delete'')
                       in forget (fireWatchers (rr_namespace ref) ev w3))"

definition shouldApply :: "int \<Rightarrow> watch_mgr \<Rightarrow> bool" where
  "shouldApply revision w \<longleftrightarrow> revision = 0 \<or> revision > wm_lastRevision w"

definition advanceRevision :: "int \<Rightarrow> watch_mgr \<Rightarrow> watch_mgr" where
  "advanceRevision revision w =
     (if revision > wm_lastRevision w then w\<lparr>wm_lastRevision := revision\<rparr> else w)"

definition pathInStreamScope :: "watch_mgr \<Rightarrow> string \<Rightarrow> bool" where
  "pathInStreamScope w path =
     (case refOf path of None \<Rightarrow> False
      | Some ref \<Rightarrow> list_ex (\<lambda>ns. namespaceEquals ns (rr_namespace ref)) (wm_streamNamespaces w))"

fun snapshot_values :: "snapshot_parameter list \<Rightarrow> (string \<times> string \<times> int) list" where
  "snapshot_values [] = []"
| "snapshot_values (p # ps) =
     (case wireChangeRef (sp_ref p) of
        None \<Rightarrow> snapshot_values ps
      | Some ref \<Rightarrow> (displayPath ref, sp_value p, sp_version p) # snapshot_values ps)"

definition drop_absent :: "string list \<Rightarrow> int \<Rightarrow> string \<Rightarrow> watch_mgr \<Rightarrow> watch_mgr" where
  "drop_absent present revision path w =
     (case map_get (wm_known w) path of
        None \<Rightarrow> w
      | Some known \<Rightarrow>
          if \<not> kv_present known \<or> path \<in> set present \<or> \<not> pathInStreamScope w path then w
          else setValue path [] False 0 revision False w)"

definition applySnapshot :: "snapshot_parameter list \<Rightarrow> int \<Rightarrow> watch_mgr \<Rightarrow> watch_mgr" where
  "applySnapshot snapshot revision w =
     (let scope = map NsRef (wm_streamNamespaces w);
          w1 = w\<lparr>wm_cache := invalidateSecretsInNamespaces scope
                   (snd (invalidateParametersInNamespaces scope (wm_cache w)))\<rparr>;
          vals = snapshot_values snapshot;
          w2 = fold (\<lambda>(path, value, version). setValue path value True version revision False) vals w1
      in fold (drop_absent (map fst vals) revision) (map_keys (wm_known w2)) w2)"

definition applyChange :: "parameter_change \<Rightarrow> int \<Rightarrow> watch_mgr \<Rightarrow> watch_mgr" where
  "applyChange change revision w =
     (case wireChangeRef (pc_ref change) of
        None \<Rightarrow> w
      | Some ref \<Rightarrow>
          let path = displayPath ref
          in if pc_changeType change = ''delete'' then
               setValue path [] False (pc_version change) revision False
                 (w\<lparr>wm_cache := invalidateParameter path (wm_cache w)\<rparr>)
             else setValue path (pc_value change) True (pc_version change) revision False w)"

definition applySecretChange :: "secret_change \<Rightarrow> int \<Rightarrow> watch_mgr \<Rightarrow> watch_mgr" where
  "applySecretChange change revision w =
     (case wireChangeRef (sc_ref change) of
        None \<Rightarrow> w
      | Some ref \<Rightarrow>
          let path = displayPath ref;
              w1 = w\<lparr>wm_cache := invalidateSecret path (wm_cache w)\<rparr>;
              ev = SecretChangeEvent (displayNamespace (rr_namespace ref)) (rr_key ref) path
                     (sc_version change) revision (sc_changeType change)
          in fireWatchers (rr_namespace ref) ev w1)"

definition handleEvent :: "subscribe_event \<Rightarrow> int \<Rightarrow> nat option \<Rightarrow> int \<Rightarrow> watch_mgr \<Rightarrow> watch_mgr" where
  "handleEvent event revision requestedSnapshotGeneration now w =
     (let w0 = w\<lparr>wm_lastEventAt := Some now\<rparr>
      in case event of
           SnapshotEvent snapshot \<Rightarrow>
             let w1 = applySnapshot snapshot revision w0;
                 w2 = (case requestedSnapshotGeneration of None \<Rightarrow> w1
                       | Some g \<Rightarrow> w1\<lparr>wm_snapshotGeneration := max (wm_snapshotGeneration w1) g\<rparr>)
             in advanceRevision revision w2
         | ChangeEvent change \<Rightarrow>
             advanceRevision revision (if shouldApply revision w0 then applyChange change revision w0 else w0)
         | SecretChange change \<Rightarrow>
             advanceRevision revision (if shouldApply revision w0 then applySecretChange change revision w0 else w0)
         | Heartbeat \<Rightarrow>
             let w1 = advanceRevision revision w0 in emit [SendAck (wm_lastRevision w1)] w1
         | NoEvent \<Rightarrow> w0)"

section \<open>The connection loop\<close>

definition fullJitterBackoff :: "nat \<Rightarrow> real \<Rightarrow> int" where
  "fullJitterBackoff attempt r =
     (let ceiling = min 60000 (1000 * 2 ^ min attempt 6) in max 10 \<lfloor>r * ceiling\<rfloor>)"

fun insert_ns :: "(string \<Rightarrow> string \<Rightarrow> bool) \<Rightarrow> namespace_ref \<Rightarrow> namespace_ref list \<Rightarrow> namespace_ref list" where
  "insert_ns collate x [] = [x]"
| "insert_ns collate x (y # ys) =
     (if collate (displayNamespace x) (displayNamespace y) then x # y # ys else y # insert_ns collate x ys)"

definition sort_ns :: "(string \<Rightarrow> string \<Rightarrow> bool) \<Rightarrow> namespace_ref list \<Rightarrow> namespace_ref list" where
  "sort_ns collate xs = foldr (insert_ns collate) xs []"

text \<open>\<open>#runSession\<close> up to the registration request it sends.\<close>

definition open_session :: "(string \<Rightarrow> string \<Rightarrow> bool) \<Rightarrow> watch_mgr \<Rightarrow> watch_mgr" where
  "open_session collate w =
     (let namespaces = sort_ns collate (map snd (wm_namespaces w));
          generation = wm_namespaceGeneration w;
          requestFullSnapshot = generation > wm_snapshotGeneration w
      in emit [SendRegistration namespaces (if requestFullSnapshot then 0 else wm_lastRevision w)]
           (w\<lparr>wm_streamNamespaces := namespaces, wm_run := RunSending generation requestFullSnapshot\<rparr>))"

text \<open>One pass of the \<open>while\<close> of \<open>#run\<close> from its head to the first \<open>await\<close>.\<close>

definition run_head :: "(string \<Rightarrow> string \<Rightarrow> bool) \<Rightarrow> watch_mgr \<Rightarrow> watch_mgr" where
  "run_head collate w =
     (if wm_aborted w then w\<lparr>wm_run := RunDone\<rparr>
      else if wm_namespaces w = [] then w\<lparr>wm_state := Idle, wm_run := RunWaiting\<rparr>
      else open_session collate (w\<lparr>wm_restartRequested := False, wm_state := Connecting\<rparr>))"

definition session_connected :: "int \<Rightarrow> watch_mgr \<Rightarrow> watch_mgr" where
  "session_connected now w =
     (case wm_run w of
        RunSending g full \<Rightarrow> w\<lparr>wm_state := Connected, wm_connectedAt := Some now, wm_run := RunStreaming g full\<rparr>
      | _ \<Rightarrow> w)"

text \<open>The \<open>catch\<close> of \<open>#run\<close>: every session ends with an exception.\<close>

definition session_failed :: "int \<Rightarrow> watch_mgr \<Rightarrow> watch_mgr" where
  "session_failed now w =
     (if wm_aborted w then w\<lparr>wm_run := RunDone\<rparr>
      else if wm_restartRequested w then w\<lparr>wm_attempt := 0, wm_run := RunHead\<rparr>
      else w\<lparr>wm_state := Reconnecting, wm_reconnectCount := wm_reconnectCount w + 1,
             wm_disconnectedAt := Some now, wm_attempt := Suc (wm_attempt w), wm_run := RunBackoff\<rparr>)"

definition backoff_done :: "watch_mgr \<Rightarrow> watch_mgr" where
  "backoff_done w =
     (if wm_restartRequested w then w\<lparr>wm_attempt := 0, wm_run := RunHead\<rparr> else w\<lparr>wm_run := RunHead\<rparr>)"

text \<open>One iteration of the \<open>for await\<close>: an event of another generation ends the session.\<close>

definition stream_event :: "subscribe_event \<Rightarrow> int \<Rightarrow> int \<Rightarrow> watch_mgr \<Rightarrow> watch_mgr" where
  "stream_event event revision now w =
     (case wm_run w of
        RunStreaming g full \<Rightarrow>
          if g \<noteq> wm_namespaceGeneration w then session_failed now w
          else handleEvent event revision (if full then Some g else None) now w
      | _ \<Rightarrow> w)"

section \<open>Reconciliation\<close>

definition reconcile_head :: "watch_mgr \<Rightarrow> watch_mgr" where
  "reconcile_head w =
     (if wm_aborted w then w\<lparr>wm_recon := RecDone\<rparr>
      else if wm_namespaces w = [] then w\<lparr>wm_reconciliation := NotStarted, wm_recon := RecWaiting\<rparr>
      else w\<lparr>wm_recon := RecSleeping (wm_namespaceGeneration w)\<rparr>)"

definition advance_run :: "reconcile_run \<Rightarrow> recon_pc" where
  "advance_run rn = (if rn_todo rn = [] then RecFinishing rn else RecListing rn)"

definition reconcile_begin :: "int \<Rightarrow> watch_mgr \<Rightarrow> watch_mgr" where
  "reconcile_begin now w =
     (let namespaces = map snd (wm_namespaces w)
      in w\<lparr>wm_lastReconcileAttemptAt := Some now,
           wm_recon := advance_run \<lparr>rn_generation = wm_namespaceGeneration w, rn_total = length namespaces,
             rn_todo = namespaces,
             rn_knownPaths = map fst (filter (\<lambda>e. kv_present (snd e)) (wm_known w)),
             rn_snapshotRevision = wm_lastRevision w, rn_present = [], rn_completelyListed = [],
             rn_pageToken = [], rn_page = 0\<rparr>\<rparr>)"

text \<open>The sleep of \<open>#reconcileLoop\<close> ends: aborted, out of date, or time to reconcile.\<close>

definition reconcile_wake :: "int \<Rightarrow> watch_mgr \<Rightarrow> watch_mgr" where
  "reconcile_wake now w =
     (case wm_recon w of
        RecSleeping g \<Rightarrow>
          if wm_aborted w then w\<lparr>wm_recon := RecDone\<rparr>
          else if g \<noteq> wm_namespaceGeneration w then w\<lparr>wm_recon := RecHead\<rparr>
          else reconcile_begin now w
      | _ \<Rightarrow> w)"

definition next_namespace :: "reconcile_run \<Rightarrow> reconcile_run" where
  "next_namespace rn = rn\<lparr>rn_todo := tl (rn_todo rn), rn_pageToken := [], rn_page := 0\<rparr>"

text \<open>
  One page of \<open>#reconcileNamespace\<close>: \<open>None\<close> is a failed list call. The boolean result of the
  method is whether the namespace's key is added to \<open>completelyListed\<close>.
\<close>

definition reconcile_page :: "(listed_parameter list \<times> string) option \<Rightarrow> watch_mgr \<Rightarrow> watch_mgr" where
  "reconcile_page response w =
     (case wm_recon w of
        RecListing rn \<Rightarrow>
          (case rn_todo rn of
             [] \<Rightarrow> w
           | ns # _ \<Rightarrow>
               let failed = w\<lparr>wm_recon := advance_run (next_namespace rn)\<rparr>
               in case response of
                    None \<Rightarrow> failed
                  | Some (items, nextPageToken) \<Rightarrow>
                      if rn_generation rn \<noteq> wm_namespaceGeneration w \<or>
                         \<not> map_has (wm_namespaces w) (namespaceKey ns) then failed
                      else
                        let w1 = fold (\<lambda>p. setValue (lp_path p) (lp_value p) True (lp_version p)
                                         (rn_snapshotRevision rn) True) items w;
                            rn1 = rn\<lparr>rn_present := rn_present rn @ map lp_path items,
                                     rn_pageToken := nextPageToken, rn_page := Suc (rn_page rn)\<rparr>
                        in if nextPageToken = [] then
                             w1\<lparr>wm_recon := advance_run (next_namespace
                               (rn1\<lparr>rn_completelyListed := rn_completelyListed rn1 @ [namespaceKey ns]\<rparr>))\<rparr>
                           else if rn_page rn1 < MAX_RECONCILE_PAGES then w1\<lparr>wm_recon := RecListing rn1\<rparr>
                           else w1\<lparr>wm_recon := advance_run (next_namespace rn1)\<rparr>)
      | _ \<Rightarrow> w)"

definition reconcile_absent :: "reconcile_run \<Rightarrow> string \<Rightarrow> watch_mgr \<Rightarrow> watch_mgr" where
  "reconcile_absent rn path w =
     (if path \<in> set (rn_present rn) then w
      else case refOf path of
        None \<Rightarrow> w
      | Some ref \<Rightarrow>
          let key = namespaceKey (rr_namespace ref)
          in if \<not> map_has (wm_namespaces w) key \<or> key \<notin> set (rn_completelyListed rn) then w
             else setValue path [] False 0 (rn_snapshotRevision rn) True w)"

definition reconcile :: "reconcile_run \<Rightarrow> watch_mgr \<Rightarrow> bool \<times> watch_mgr" where
  "reconcile rn w =
     (if rn_generation rn \<noteq> wm_namespaceGeneration w \<or> rn_snapshotRevision rn \<noteq> wm_lastRevision w
      then (False, w)
      else
        let w1 = fold (reconcile_absent rn) (rn_knownPaths rn) w
        in (card (set (rn_completelyListed rn)) = rn_total rn \<and>
            rn_generation rn = wm_namespaceGeneration w1 \<and> rn_snapshotRevision rn = wm_lastRevision w1, w1))"

definition reconcile_finish :: "int \<Rightarrow> watch_mgr \<Rightarrow> watch_mgr" where
  "reconcile_finish now w =
     (case wm_recon w of
        RecFinishing rn \<Rightarrow>
          (case reconcile rn w of
             (True, w1) \<Rightarrow> w1\<lparr>wm_reconciliation := Healthy, wm_lastReconcileSuccessAt := Some now, wm_recon := RecHead\<rparr>
           | (False, w1) \<Rightarrow> w1\<lparr>wm_reconciliation := Degraded, wm_lastReconcileFailureAt := Some now, wm_recon := RecHead\<rparr>)
      | _ \<Rightarrow> w)"

section \<open>Actions\<close>

datatype watch_action =
    Register resource_ref string
  | Unregister nat
  | WatchNamespace namespace_ref bool
  | StopWatcher nat
  | StopBegin
  | StopFinish
  | RootAbort
  | RunHeadStep
  | NamespaceWake
  | SendOk int
  | SessionFailed int
  | StreamEvent subscribe_event int int
  | BackoffDone
  | ReconHeadStep
  | ReconWaitWake
  | ReconWake int
  | ReconPage "(listed_parameter list \<times> string) option"
  | ReconFinish int
  | CacheOp cache_op

fun watch_step :: "(string \<Rightarrow> string \<Rightarrow> bool) \<Rightarrow> watch_action \<Rightarrow> watch_mgr \<Rightarrow> watch_mgr" where
  "watch_step collate (Register ref initial) w = snd (registerParameter ref initial w)"
| "watch_step collate (Unregister h) w = unregisterParameter h w"
| "watch_step collate (WatchNamespace ns aborted) w = snd (watch ns aborted w)"
| "watch_step collate (StopWatcher i) w = stop_watcher i w"
| "watch_step collate StopBegin w = stop_begin w"
| "watch_step collate StopFinish w = stop_finish w"
| "watch_step collate RootAbort w = w\<lparr>wm_aborted := True\<rparr>"
| "watch_step collate RunHeadStep w = (if wm_run w = RunHead then run_head collate w else w)"
| "watch_step collate NamespaceWake w =
     (if wm_run w = RunWaiting \<and> (wm_namespaces w \<noteq> [] \<or> wm_aborted w) then w\<lparr>wm_run := RunHead\<rparr> else w)"
| "watch_step collate (SendOk now) w = session_connected now w"
| "watch_step collate (SessionFailed now) w =
     (case wm_run w of RunSending _ _ \<Rightarrow> session_failed now w | RunStreaming _ _ \<Rightarrow> session_failed now w | _ \<Rightarrow> w)"
| "watch_step collate (StreamEvent event revision now) w = stream_event event revision now w"
| "watch_step collate BackoffDone w = (if wm_run w = RunBackoff then backoff_done w else w)"
| "watch_step collate ReconHeadStep w = (if wm_recon w = RecHead then reconcile_head w else w)"
| "watch_step collate ReconWaitWake w =
     (if wm_recon w = RecWaiting \<and> (wm_namespaces w \<noteq> [] \<or> wm_aborted w) then w\<lparr>wm_recon := RecHead\<rparr> else w)"
| "watch_step collate (ReconWake now) w = reconcile_wake now w"
| "watch_step collate (ReconPage response) w = reconcile_page response w"
| "watch_step collate (ReconFinish now) w = reconcile_finish now w"
| "watch_step collate (CacheOp op) w = w\<lparr>wm_cache := cache_step op (wm_cache w)\<rparr>"

end
