(* ===== verification/Cache_Correct.thy ===== *)
theory Cache_Correct
  imports Cache
begin

text \<open>
  Correctness of the read cache: the invariant of the entry map and of the generation
  store, the exact meaning of a current read generation, and the provenance of every hit.
\<close>

section \<open>Entry maps\<close>

definition entry_total :: "entry_map \<Rightarrow> int" where
  "entry_total m = sum_list (map (\<lambda>b. int (length (snd b))) m)"

definition entries_ok :: "entry_map \<Rightarrow> bool" where
  "entries_ok m \<longleftrightarrow> map_ok m \<and> (\<forall>b \<in> set m. map_ok (snd b))"

definition entry_of :: "entry_map \<Rightarrow> string \<Rightarrow> string \<Rightarrow> cache_entry option" where
  "entry_of m path key = Option.bind (map_get m path) (\<lambda>es. map_get es key)"

named_theorems total_simps

lemma entry_total_Nil [simp, total_simps]: "entry_total [] = 0"
  by (simp add: entry_total_def)

lemma entry_total_Cons [simp, total_simps]:
  "entry_total (b # m) = int (length (snd b)) + entry_total m"
  by (simp add: entry_total_def)

lemma entry_total_nonneg [simp]: "0 \<le> entry_total m"
  by (induction m) simp_all

lemma entries_ok_Nil [simp]: "entries_ok []"
  by (simp add: entries_ok_def)

lemma entries_ok_Cons [simp]:
  "entries_ok (b # m) \<longleftrightarrow> fst b \<notin> fst ` set m \<and> map_ok (snd b) \<and> entries_ok m"
  by (auto simp: entries_ok_def)

lemma entries_okD: "entries_ok m \<Longrightarrow> map_get m p = Some es \<Longrightarrow> map_ok es"
  by (force simp: entries_ok_def dest: map_get_in)

lemma entries_ok_set [simp]: "entries_ok m \<Longrightarrow> map_ok es \<Longrightarrow> entries_ok (map_set p es m)"
  by (induction p es m rule: map_set.induct) auto

lemma entries_ok_filter [simp]: "entries_ok m \<Longrightarrow> entries_ok (filter P m)"
  by (auto simp: entries_ok_def)

lemma entries_ok_del [simp]: "entries_ok m \<Longrightarrow> entries_ok (map_del p m)"
  by (simp add: map_del_def)

lemma map_set_absent: "p \<notin> fst ` set m \<Longrightarrow> map_set p es m = m @ [(p, es)]"
  by (induction p es m rule: map_set.induct) auto

lemma entry_total_append [simp, total_simps]: "entry_total (m @ m') = entry_total m + entry_total m'"
  by (simp add: entry_total_def)

lemma entry_total_set [total_simps]:
  "map_ok m \<Longrightarrow> entry_total (map_set p es m) =
     entry_total m - (case map_get m p of None \<Rightarrow> 0 | Some es0 \<Rightarrow> int (length es0)) + int (length es)"
  by (induction p es m rule: map_set.induct) (auto simp: map_get_Cons split: option.splits)

lemma map_del_absent: "k \<notin> fst ` set m \<Longrightarrow> map_del k m = m"
  by (auto simp: map_del_def filter_id_conv)

lemma map_del_Cons: "map_del k (e # m) = (if fst e = k then map_del k m else e # map_del k m)"
  by (simp add: map_del_def)

lemma map_del_Nil [simp]: "map_del k [] = []"
  by (simp add: map_del_def)

lemma entry_total_del [total_simps]:
  "map_ok m \<Longrightarrow> entry_total (map_del p m) =
     entry_total m - (case map_get m p of None \<Rightarrow> 0 | Some es \<Rightarrow> int (length es))"
  by (induction m) (auto simp: map_del_Cons map_get_Cons map_del_absent split: option.splits)

lemma length_map_del:
  "map_ok es \<Longrightarrow> int (length (map_del k es)) =
     int (length es) - (if map_get es k = None then 0 else 1)"
proof (induction es)
  case (Cons e es)
  then show ?case
    by (cases e; cases "map_get es k") (auto simp: map_del_Cons map_get_Cons map_del_absent dest: map_get_in)
qed simp

lemma length_map_set_get:
  "length (map_set k v m) = (if map_get m k = None then Suc (length m) else length m)"
  by (simp add: length_map_set map_get_None)

lemma entry_of_set: "entry_of (map_set p es m) q k = (if q = p then map_get es k else entry_of m q k)"
  by (simp add: entry_of_def)

lemma entry_of_del: "entry_of (map_del p m) q k = (if q = p then None else entry_of m q k)"
  by (simp add: entry_of_def)

lemma entry_of_filter:
  "map_ok m \<Longrightarrow> entry_of (filter (\<lambda>b. P (fst b)) m) q k = (if P q then entry_of m q k else None)"
  by (auto simp: entry_of_def map_get_filter split: option.splits)

lemma entry_of_Cons: "entry_of ((p, es) # m) q k = (if q = p then map_get es k else entry_of m q k)"
  by (simp add: entry_of_def map_get_Cons)

lemma entry_of_absent: "p \<notin> fst ` set m \<Longrightarrow> entry_of m p k = None"
  by (auto simp: entry_of_def map_get_None [THEN iffD2])

subsection \<open>Eviction\<close>

lemma drop_expired_ok: "entries_ok m \<Longrightarrow> entries_ok (drop_expired now m)"
proof -
  assume ok: "entries_ok m"
  have "entries_ok (map (\<lambda>b. (fst b, filter (\<lambda>e. now < ce_expiresAt (snd e)) (snd b))) m)"
    using ok by (auto simp: entries_ok_def map_ok_def comp_def distinct_map_filter)
  then show ?thesis by (simp add: drop_expired_def)
qed

lemma drop_expired_total: "entry_total (drop_expired now m) = entry_total m - expired_count now m"
proof (induction m)
  case Nil
  then show ?case by (simp add: drop_expired_def expired_count_def)
next
  case (Cons b m)
  have "int (length (snd b)) = int (length (filter (\<lambda>e. now < ce_expiresAt (snd e)) (snd b)))
      + int (length (filter (\<lambda>e. \<not> now < ce_expiresAt (snd e)) (snd b)))"
    using sum_length_filter_compl [of "\<lambda>e. now < ce_expiresAt (snd e)" "snd b"] by simp
  with Cons show ?case by (auto simp: drop_expired_def expired_count_def)
qed

lemma drop_expired_entry:
  "entries_ok m \<Longrightarrow> entry_of (drop_expired now m) p k = Some e \<Longrightarrow> entry_of m p k = Some e"
proof (induction m)
  case Nil
  then show ?case by (simp add: drop_expired_def)
next
  case (Cons b m)
  obtain q es where b: "b = (q, es)" by (cases b)
  let ?es = "filter (\<lambda>e. now < ce_expiresAt (snd e)) es"
  have eq: "drop_expired now (b # m) = (if ?es = [] then [] else [(q, ?es)]) @ drop_expired now m"
    by (simp add: drop_expired_def b)
  have absent: "q \<notin> fst ` set (drop_expired now m)"
    using Cons.prems(1) b by (force simp: drop_expired_def)
  show ?case
  proof (cases "p = q")
    case True
    with Cons.prems b eq absent have "map_get ?es k = Some e"
      by (auto simp: entry_of_Cons entry_of_absent split: if_splits)
    then have "map_get es k = Some e"
      using Cons.prems(1) b by (auto simp: map_get_filter split: option.splits if_splits)
    with True b show ?thesis by (simp add: entry_of_Cons)
  next
    case False
    with Cons.prems b eq have "entry_of (drop_expired now m) p k = Some e"
      by (auto simp: entry_of_Cons split: if_splits)
    then show ?thesis using Cons b False by (simp add: entry_of_Cons)
  qed
qed

lemma evict_oldest_ok: "entries_ok m \<Longrightarrow> entries_ok (fst (evict_oldest mx m n))"
proof (induction mx m n rule: evict_oldest.induct)
  case (1 mx m n)
  then show ?case
    by (subst evict_oldest.simps) (auto split: list.splits prod.splits)
qed

lemma evict_oldest_total:
  "n = entry_total m \<Longrightarrow> snd (evict_oldest mx m n) = entry_total (fst (evict_oldest mx m n))"
proof (induction mx m n rule: evict_oldest.induct)
  case (1 mx m n)
  then show ?case
    by (subst (1 2) evict_oldest.simps) (auto split: list.splits prod.splits)
qed

lemma evict_oldest_bound:
  "n = entry_total m \<Longrightarrow> 0 \<le> mx \<Longrightarrow> snd (evict_oldest mx m n) \<le> mx"
proof (induction mx m n rule: evict_oldest.induct)
  case (1 mx m n)
  then show ?case
    by (subst evict_oldest.simps) (auto split: list.splits prod.splits)
qed

lemma evict_oldest_entry:
  "entries_ok m \<Longrightarrow> entry_of (fst (evict_oldest mx m n)) p k = Some e \<Longrightarrow> entry_of m p k = Some e"
proof (induction mx m n rule: evict_oldest.induct)
  case (1 mx m n)
  show ?case
  proof (cases "n \<le> mx \<or> m = []")
    case True
    then show ?thesis using "1.prems" by (subst (asm) evict_oldest.simps) (auto split: list.splits)
  next
    case False
    then obtain q es rest where m: "m = (q, es) # rest" by (cases m) auto
    have ok: "entries_ok rest" "q \<notin> fst ` set rest" "map_ok es"
      using "1.prems"(1) m by auto
    show ?thesis
    proof (cases es)
      case Nil
      have "entry_of (fst (evict_oldest mx rest n)) p k = Some e"
        using "1.prems"(2) False m Nil by (subst (asm) evict_oldest.simps) simp
      then have "entry_of rest p k = Some e" using "1.IH"(1) False m Nil ok by simp
      then show ?thesis using m ok Nil by (auto simp: entry_of_Cons entry_of_absent)
    next
      case (Cons x es')
      show ?thesis
      proof (cases "es' = []")
        case True
        have "entry_of (fst (evict_oldest mx rest (n - 1))) p k = Some e"
          using "1.prems"(2) False m Cons True by (subst (asm) evict_oldest.simps) simp
        then have "entry_of rest p k = Some e" using "1.IH"(2) False m Cons True ok by simp
        then show ?thesis using m ok by (auto simp: entry_of_Cons entry_of_absent)
      next
        case False': False
        have "entry_of (fst (evict_oldest mx ((q, es') # rest) (n - 1))) p k = Some e"
          using "1.prems"(2) False m Cons False' by (subst (asm) evict_oldest.simps) simp
        then have "entry_of ((q, es') # rest) p k = Some e"
          using "1.IH"(3) False m Cons False' ok by simp
        then show ?thesis
          using m ok Cons by (cases x) (force simp: entry_of_Cons map_get_Cons dest: map_get_in split: if_splits)
      qed
    qed
  qed
qed

lemma cache_evict_ok: "entries_ok m \<Longrightarrow> entries_ok (fst (cache_evict mx now m n))"
  by (simp add: cache_evict_def evict_oldest_ok drop_expired_ok)

lemma cache_evict_total:
  "n = entry_total m \<Longrightarrow> snd (cache_evict mx now m n) = entry_total (fst (cache_evict mx now m n))"
  by (simp add: cache_evict_def evict_oldest_total drop_expired_total)

lemma cache_evict_bound:
  "n = entry_total m \<Longrightarrow> 0 \<le> mx \<Longrightarrow> snd (cache_evict mx now m n) \<le> mx"
  by (simp add: cache_evict_def evict_oldest_bound drop_expired_total)

lemma cache_evict_entry:
  "entries_ok m \<Longrightarrow> entry_of (fst (cache_evict mx now m n)) p k = Some e \<Longrightarrow> entry_of m p k = Some e"
  by (auto simp: cache_evict_def drop_expired_ok split: if_splits
      dest!: evict_oldest_entry [rotated] drop_expired_entry [rotated])

section \<open>Entry invariant\<close>

definition entry_inv :: "read_cache \<Rightarrow> bool" where
  "entry_inv c \<longleftrightarrow>
     entries_ok (rc_parameters c) \<and> rc_parameterCount c = entry_total (rc_parameters c) \<and>
     0 < rc_maxEntries c \<and> rc_parameterCount c \<le> rc_maxEntries c \<and>
     (\<not> cache_enabled c \<longrightarrow> rc_parameters c = [])"

lemma cache_enabled_update [simp]:
  "cache_enabled (rc_parameters_update f c) = cache_enabled c"
  "cache_enabled (rc_parameterCount_update i c) = cache_enabled c"
  "cache_enabled (rc_generations_update h c) = cache_enabled c"
  "cache_enabled (rc_states_update j c) = cache_enabled c"
  "cache_enabled (rc_reads_update k c) = cache_enabled c"
  "cache_enabled (rc_next_update l c) = cache_enabled c"
  by (simp_all add: cache_enabled_def)

lemma cache_get_cases:
  assumes "cache_get on now m n path sel = (res, m', n')"
  obtains (same) "m' = m" "n' = n"
  | (expired) es k e0 where "map_get m path = Some es" "map_get es k = Some e0"
      "m' = (if map_del k es = [] then map_del path m else map_set path (map_del k es) m)" "n' = n - 1"
  using assms by (auto simp: cache_get_def Let_def split: if_splits option.splits sum.splits)

lemma cache_get_ok:
  assumes "cache_get on now m n path sel = (res, m', n')" "entries_ok m" "n = entry_total m"
  shows "entries_ok m'" "n' = entry_total m'" "n' \<le> n" "m = [] \<Longrightarrow> m' = []"
    and "entry_of m' p q = Some e \<Longrightarrow> entry_of m p q = Some e"
proof -
  have "entries_ok m' \<and> n' = entry_total m' \<and> n' \<le> n \<and> (m = [] \<longrightarrow> m' = []) \<and>
    (entry_of m' p q = Some e \<longrightarrow> entry_of m p q = Some e)"
    using assms(1)
  proof (cases rule: cache_get_cases)
    case same
    then show ?thesis using assms by simp
  next
    case (expired es k e0)
    have es: "map_ok es" "map_ok m" using assms(2) expired entries_okD by (auto simp: entries_ok_def)
    then have "int (length (map_del k es)) = int (length es) - 1"
      using expired by (simp add: length_map_del)
    moreover have "entry_of m' p q = Some e \<longrightarrow> entry_of m p q = Some e"
      using expired by (auto simp: entry_of_set entry_of_del entry_of_def split: if_splits)
    ultimately show ?thesis using expired es assms(2,3) by (auto simp: total_simps jsmap_ok)
  qed
  then show "entries_ok m'" "n' = entry_total m'" "n' \<le> n" "m = [] \<Longrightarrow> m' = []"
    "entry_of m' p q = Some e \<Longrightarrow> entry_of m p q = Some e" by simp_all
qed

lemma cache_set_ok:
  assumes "cache_set on ttl now m n path sel v = (res, m')" "entries_ok m" "n = entry_total m"
  shows "entries_ok m'" and "res = Inr n' \<Longrightarrow> n' = entry_total m'"
    and "res = Inl e \<Longrightarrow> entry_total m' = entry_total m"
proof -
  have ok: "map_ok m" using assms(2) by (simp add: entries_ok_def)
  have eok: "map_ok es" if "map_get m path = Some es" for es
    using that assms(2) entries_okD by blast
  show "entries_ok m'"
    using assms(1,2) eok by (auto simp: cache_set_def Let_def jsmap_ok split: if_splits sum.splits option.splits)
  show "n' = entry_total m'" if "res = Inr n'"
    using assms(1,3) that ok eok
    by (auto simp: cache_set_def Let_def total_simps map_has_get length_map_set_get length_map_del
        map_ok_set jsmap_ok map_get_del split: if_splits sum.splits option.splits)
  show "entry_total m' = entry_total m" if "res = Inl e"
    using assms(1) that ok
    by (auto simp: cache_set_def Let_def total_simps map_has_get split: if_splits sum.splits option.splits)
qed

lemma cache_set_entry:
  assumes "cache_set on ttl now m n path sel v = (res, m')" "entries_ok m"
    and "entry_of m' p k = Some e"
  shows "entry_of m p k = Some e \<or>
    on \<and> p = path \<and> selectorKey sel = Inr k \<and> e = \<lparr>ce_value = v, ce_expiresAt = now + ttl\<rparr>"
  using assms
  by (auto simp: cache_set_def Let_def entry_of_set map_get_Nil map_get_Cons map_has_get entry_of_def
      split: if_splits sum.splits option.splits)

lemma cache_set_disabled: "\<not> on \<Longrightarrow> cache_set on ttl now m n path sel v = (Inr n, m)"
  by (simp add: cache_set_def)

lemma entry_inv_getParameter: "entry_inv c \<Longrightarrow> entry_inv (snd (getParameter path sel now c))"
  unfolding entry_inv_def getParameter_def
  by (auto split: prod.splits dest: cache_get_ok(1-4))

lemma entry_inv_setParameter: "entry_inv c \<Longrightarrow> entry_inv (snd (setParameter path v sel t1 t2 c))"
proof -
  assume inv: "entry_inv c"
  obtain res m where set: "cache_set (cache_enabled c) (rc_ttlMs c) t1 (rc_parameters c)
      (rc_parameterCount c) path sel v = (res, m)" by fastforce
  note ok = cache_set_ok [OF set]
  have pre: "entries_ok (rc_parameters c)" "rc_parameterCount c = entry_total (rc_parameters c)"
    using inv by (simp_all add: entry_inv_def)
  show ?thesis
  proof (cases res)
    case (Inl e)
    with set inv ok(1,3) pre show ?thesis
      by (auto simp: setParameter_def entry_inv_def cache_set_disabled)
  next
    case (Inr n)
    obtain m' n' where ev: "cache_evict (rc_maxEntries c) t2 m n = (m', n')" by fastforce
    have n: "n = entry_total m" using ok(2) pre Inr by simp
    have "\<not> cache_enabled c \<Longrightarrow> m' = []"
      using set ev inv Inr by (auto simp: cache_set_disabled cache_evict_def entry_inv_def split: if_splits)
    then show ?thesis
      using set ev inv Inr n ok(1) pre cache_evict_ok [of m "rc_maxEntries c" t2 n]
        cache_evict_total [OF n, of "rc_maxEntries c" t2] cache_evict_bound [OF n, of "rc_maxEntries c" t2]
      by (auto simp: setParameter_def entry_inv_def)
  qed
qed

lemma setParameter_entry:
  assumes "entry_inv c" "entry_of (rc_parameters (snd (setParameter path v sel t1 t2 c))) p k = Some e"
  shows "entry_of (rc_parameters c) p k = Some e \<or> cache_enabled c \<and> p = path \<and>
    selectorKey sel = Inr k \<and> e = \<lparr>ce_value = v, ce_expiresAt = t1 + rc_ttlMs c\<rparr>"
proof -
  obtain res m where set: "cache_set (cache_enabled c) (rc_ttlMs c) t1 (rc_parameters c)
      (rc_parameterCount c) path sel v = (res, m)" by fastforce
  have ok: "entries_ok (rc_parameters c)" "entries_ok m"
    using assms(1) cache_set_ok(1) [OF set] by (auto simp: entry_inv_def)
  have "entry_of m p k = Some e"
    using assms(2) set ok cache_evict_entry
    by (auto simp: setParameter_def split: sum.splits prod.splits) (metis fst_conv)
  then show ?thesis using cache_set_entry [OF set ok(1)] by blast
qed

lemma getParameter_entry:
  "entry_inv c \<Longrightarrow> entry_of (rc_parameters (snd (getParameter path sel now c))) p k = Some e \<Longrightarrow>
   entry_of (rc_parameters c) p k = Some e"
  by (auto simp: getParameter_def entry_inv_def split: prod.splits dest: cache_get_ok(5))

section \<open>Generation store\<close>

definition active_reads :: "read_cache \<Rightarrow> nat \<Rightarrow> nat set" where
  "active_reads c a = {g. \<exists>rg. rc_reads c g = Some rg \<and> \<not> rg_released rg \<and> rg_state rg = a}"

definition state_inv :: "read_cache \<Rightarrow> bool" where
  "state_inv c \<longleftrightarrow>
     (\<forall>a st. rc_states c a = Some st \<longrightarrow>
        a < rc_next c \<and> gs_epoch st < rc_next c \<and> gs_readers st = int (card (active_reads c a)))"

definition map_inv :: "read_cache \<Rightarrow> bool" where
  "map_inv c \<longleftrightarrow> map_ok (rc_generations c) \<and>
     (\<forall>p a. map_get (rc_generations c) p = Some a \<longrightarrow> rc_states c a \<noteq> None) \<and>
     (\<forall>p q a. map_get (rc_generations c) p = Some a \<longrightarrow> map_get (rc_generations c) q = Some a \<longrightarrow> p = q)"

definition read_inv :: "read_cache \<Rightarrow> bool" where
  "read_inv c \<longleftrightarrow> finite (dom (rc_reads c)) \<and> (\<not> cache_enabled c \<longrightarrow> rc_reads c = (\<lambda>_. None)) \<and>
     (\<forall>g rg. rc_reads c g = Some rg \<longrightarrow> g < rc_next c \<and>
        (\<exists>st. rc_states c (rg_state rg) = Some st \<and> rg_epoch rg \<le> gs_epoch st) \<and>
        (\<not> rg_released rg \<longrightarrow> map_get (rc_generations c) (rg_path rg) = Some (rg_state rg)))"

definition cache_inv :: "read_cache \<Rightarrow> bool" where
  "cache_inv c \<longleftrightarrow> entry_inv c \<and> state_inv c \<and> map_inv c \<and> read_inv c"

lemmas gen_defs = state_inv_def map_inv_def read_inv_def

lemma gen_inv_params [simp]:
  "state_inv (rc_parameters_update f c) = state_inv c" "state_inv (rc_parameterCount_update i c) = state_inv c"
  "map_inv (rc_parameters_update f c) = map_inv c" "map_inv (rc_parameterCount_update i c) = map_inv c"
  "read_inv (rc_parameters_update f c) = read_inv c" "read_inv (rc_parameterCount_update i c) = read_inv c"
  by (simp_all add: gen_defs active_reads_def)

lemma finite_active: "read_inv c \<Longrightarrow> finite (active_reads c a)"
  by (rule finite_subset [of _ "dom (rc_reads c)"]) (auto simp: active_reads_def read_inv_def)

lemma isCurrent_iff:
  assumes "map_inv c" "read_inv c" "rc_reads c g = Some rg"
  shows "isCurrent c g ParameterKind \<longleftrightarrow>
    \<not> rg_released rg \<and> map_option gs_epoch (rc_states c (rg_state rg)) = Some (rg_epoch rg)"
  using assms cache_kind.exhaust by (auto simp: isCurrent_def read_inv_def)

subsection \<open>Renewing epochs\<close>

definition renewed :: "nat set \<Rightarrow> read_cache \<Rightarrow> read_cache \<Rightarrow> bool" where
  "renewed A c c' \<longleftrightarrow>
     (\<exists>ss n. c' = c\<lparr>rc_states := ss, rc_next := n\<rparr> \<and> rc_next c \<le> n \<and>
        (\<forall>a. a \<notin> A \<longrightarrow> ss a = rc_states c a) \<and>
        (\<forall>a \<in> A. (rc_states c a = None \<and> ss a = None) \<or>
           (\<exists>st e. rc_states c a = Some st \<and> ss a = Some (st\<lparr>gs_epoch := e\<rparr>) \<and>
              rc_next c \<le> e \<and> e < n)))"

lemma renewed_refl [simp]: "renewed {} c c"
  unfolding renewed_def by (rule exI [of _ "rc_states c"], rule exI [of _ "rc_next c"]) simp

lemma renewed_step:
  assumes "renewed A c c'"
  shows "renewed (insert a A) c (renew_epoch a c')"
proof -
  obtain ss n where c': "c' = c\<lparr>rc_states := ss, rc_next := n\<rparr>" and n: "rc_next c \<le> n"
    and out: "\<And>b. b \<notin> A \<Longrightarrow> ss b = rc_states c b"
    and inn: "\<And>b. b \<in> A \<Longrightarrow> (rc_states c b = None \<and> ss b = None) \<or>
      (\<exists>st e. rc_states c b = Some st \<and> ss b = Some (st\<lparr>gs_epoch := e\<rparr>) \<and> rc_next c \<le> e \<and> e < n)"
    using assms by (auto simp: renewed_def)
  let ?ss = "ss(a := map_option (\<lambda>st. st\<lparr>gs_epoch := n\<rparr>) (ss a))"
  have *: "rc_states c b = None \<and> ?ss b = None \<or>
      (\<exists>st e. rc_states c b = Some st \<and> ?ss b = Some (st\<lparr>gs_epoch := e\<rparr>) \<and> rc_next c \<le> e \<and> e < Suc n)"
    if "b \<in> insert a A" for b
    using that n inn [of b] out [of b] by (cases "b \<in> A"; cases "rc_states c b") (auto simp: less_Suc_eq)
  have eq: "renew_epoch a c' = c\<lparr>rc_states := ?ss, rc_next := Suc n\<rparr>"
    by (simp add: c' renew_epoch_def)
  show ?thesis
    unfolding renewed_def eq
    by (rule exI [of _ ?ss], rule exI [of _ "Suc n"]) (use * n out in auto)
qed

lemma renewed_fold: "renewed A c c' \<Longrightarrow> renewed (A \<union> set as) c (fold renew_epoch as c')"
  using renewed_step by (induction as arbitrary: A c') (auto, metis Un_insert_left Un_insert_right)

lemma fold_if_filter: "fold (\<lambda>e s. if P e then f (g e) s else s) xs s = fold f (map g (filter P xs)) s"
  by (induction xs arbitrary: s) auto

lemma fold_comp_map: "fold (\<lambda>e s. f (g e) s) xs s = fold f (map g xs) s"
  by (induction xs arbitrary: s) auto

lemma renewed_inv:
  assumes "renewed A c c'" "state_inv c" "map_inv c" "read_inv c"
  shows "state_inv c'" "map_inv c'" "read_inv c'"
proof -
  obtain ss n where c': "c' = c\<lparr>rc_states := ss, rc_next := n\<rparr>" and n: "rc_next c \<le> n"
    and out: "\<And>b. b \<notin> A \<Longrightarrow> ss b = rc_states c b"
    and inn: "\<And>b. b \<in> A \<Longrightarrow> (rc_states c b = None \<and> ss b = None) \<or>
      (\<exists>st e. rc_states c b = Some st \<and> ss b = Some (st\<lparr>gs_epoch := e\<rparr>) \<and> rc_next c \<le> e \<and> e < n)"
    using assms(1) by (auto simp: renewed_def)
  have act: "active_reads c' = active_reads c" by (auto simp: active_reads_def c' fun_eq_iff)
  have dom: "ss b = None \<longleftrightarrow> rc_states c b = None" for b
    using out [of b] inn [of b] by (cases "b \<in> A") auto
  have keep: "\<exists>st. rc_states c b = Some st \<and> gs_readers st' = gs_readers st \<and>
      gs_epoch st \<le> gs_epoch st' \<and> gs_epoch st' < n \<and> b < n" if "ss b = Some st'" for b st'
    using that out [of b] inn [of b] n assms(2) by (cases "b \<in> A") (force simp: state_inv_def)+
  show "state_inv c'"
    using keep assms(2) unfolding state_inv_def act by (fastforce simp: c')
  show "map_inv c'" using assms(3) dom by (auto simp: map_inv_def c')
  have "\<exists>st. ss (rg_state rg) = Some st \<and> rg_epoch rg \<le> gs_epoch st"
    if rd: "rc_reads c g = Some rg" for g rg
  proof -
    obtain st where st: "rc_states c (rg_state rg) = Some st" "rg_epoch rg \<le> gs_epoch st"
      using rd assms(4) by (auto simp: read_inv_def)
    obtain st' where "ss (rg_state rg) = Some st'" using dom [of "rg_state rg"] st by auto
    with keep st show ?thesis by force
  qed
  then show "read_inv c'" using assms(4) n by (force simp: read_inv_def c' cache_enabled_def)
qed

lemma renewed_current:
  assumes "renewed A c c'" "state_inv c" "map_inv c" "read_inv c" "rc_reads c g = Some rg"
  shows "isCurrent c' g ParameterKind \<longleftrightarrow> isCurrent c g ParameterKind \<and> rg_state rg \<notin> A"
proof -
  obtain ss n where c': "c' = c\<lparr>rc_states := ss, rc_next := n\<rparr>"
    and out: "\<And>b. b \<notin> A \<Longrightarrow> ss b = rc_states c b"
    and inn: "\<And>b. b \<in> A \<Longrightarrow> (rc_states c b = None \<and> ss b = None) \<or>
      (\<exists>st e. rc_states c b = Some st \<and> ss b = Some (st\<lparr>gs_epoch := e\<rparr>) \<and> rc_next c \<le> e \<and> e < n)"
    using assms(1) by (auto simp: renewed_def)
  have lt: "rg_epoch rg < rc_next c"
    using assms(2,4,5) by (fastforce simp: read_inv_def state_inv_def)
  have rd: "rc_reads c' g = Some rg" using assms(5) by (simp add: c')
  note inv' = renewed_inv [OF assms(1-4)]
  show ?thesis
    unfolding isCurrent_iff [OF inv'(2,3) rd] isCurrent_iff [OF assms(3-5)]
    using lt out [of "rg_state rg"] inn [of "rg_state rg"]
    by (cases "rg_state rg \<in> A") (auto simp: c')
qed

lemma invalidateGeneration_renewed:
  "renewed {a. map_get (rc_generations c) path = Some a} c (invalidateGeneration path c)"
  using renewed_step [OF renewed_refl, of "the (map_get (rc_generations c) path)" c]
  by (auto simp: invalidateGeneration_def split: option.splits)

lemma renew_in_scope_renewed:
  "renewed (snd ` {e \<in> set (rc_generations c). in_scope scope (fst e)}) c (renew_in_scope scope c)"
  using renewed_fold [OF renewed_refl, of "map snd (filter (\<lambda>e. in_scope scope (fst e)) (rc_generations c))" c]
  by (simp add: renew_in_scope_def fold_if_filter [of "\<lambda>e. in_scope scope (fst e)" renew_epoch snd])

lemma renew_all_renewed:
  "renewed (snd ` set (rc_generations c)) c (fold (\<lambda>e c'. renew_epoch (snd e) c') (rc_generations c) c)"
  using renewed_fold [OF renewed_refl, of "map snd (rc_generations c)" c]
  by (simp add: fold_comp_map)

lemma renewed_entries:
  "renewed A c c' \<Longrightarrow> rc_parameters c' = rc_parameters c \<and> rc_parameterCount c' = rc_parameterCount c \<and>
     rc_maxEntries c' = rc_maxEntries c \<and> rc_ttlMs c' = rc_ttlMs c \<and>
     rc_reads c' = rc_reads c \<and> rc_generations c' = rc_generations c"
  by (auto simp: renewed_def)

subsection \<open>Beginning and ending reads\<close>

lemma beginRead_fields:
  assumes "cache_enabled c"
  obtains a st g where
    "snd (beginRead kind p c) = c\<lparr>rc_generations := map_set p a (rc_generations c),
       rc_states := (rc_states c)(a \<mapsto> st\<lparr>gs_readers := gs_readers st + 1\<rparr>),
       rc_reads := (rc_reads c)(g \<mapsto> \<lparr>rg_kind = kind, rg_path = p, rg_state = a,
                                  rg_epoch = gs_epoch st, rg_released = False\<rparr>),
       rc_next := Suc g\<rparr>"
    "fst (beginRead kind p c) = Some g" "rc_next c \<le> g"
    "map_get (rc_generations c) p = Some a \<and> st = the (rc_states c a) \<or>
     map_get (rc_generations c) p = None \<and> a = rc_next c \<and> gs_readers st = 0 \<and>
       gs_epoch st = Suc a \<and> Suc a < g"
proof (cases "map_get (rc_generations c) p")
  case None
  then show ?thesis
    using that [where a = "rc_next c" and g = "rc_next c + 2" and
        st = "\<lparr>gs_epoch = Suc (rc_next c), gs_readers = 0\<rparr>"] assms
    by (simp add: beginRead_def Let_def)
next
  case (Some a)
  then show ?thesis
    using that [where a = a and st = "the (rc_states c a)" and g = "rc_next c"] assms
    by (simp add: beginRead_def Let_def map_set_same)
qed

lemma cache_inv_beginRead:
  assumes "cache_inv c"
  shows "cache_inv (snd (beginRead kind p c))"
proof (cases "cache_enabled c")
  case False
  then show ?thesis using assms by (simp add: beginRead_def)
next
  case True
  then obtain a st g where
    c': "snd (beginRead kind p c) = c\<lparr>rc_generations := map_set p a (rc_generations c),
       rc_states := (rc_states c)(a \<mapsto> st\<lparr>gs_readers := gs_readers st + 1\<rparr>),
       rc_reads := (rc_reads c)(g \<mapsto> \<lparr>rg_kind = kind, rg_path = p, rg_state = a,
                                  rg_epoch = gs_epoch st, rg_released = False\<rparr>),
       rc_next := Suc g\<rparr>" (is "_ = ?c")
    and g: "rc_next c \<le> g"
    and a: "map_get (rc_generations c) p = Some a \<and> st = the (rc_states c a) \<or>
      map_get (rc_generations c) p = None \<and> a = rc_next c \<and> gs_readers st = 0 \<and>
       gs_epoch st = Suc a \<and> Suc a < g"
    by (rule beginRead_fields) blast
  have inv: "entry_inv c" "state_inv c" "map_inv c" "read_inv c"
    using assms by (simp_all add: cache_inv_def)
  have fresh: "rc_reads c g = None"
    using inv(4) g by (cases "rc_reads c g") (force simp: read_inv_def)+
  have nost: "rc_states c (rc_next c) = None"
    using inv(2) by (cases "rc_states c (rc_next c)") (auto simp: state_inv_def)
  have st: "gs_epoch st < Suc g \<and> a < Suc g \<and> gs_readers st = int (card (active_reads c a)) \<and>
      (\<forall>st0. rc_states c a = Some st0 \<longrightarrow> st0 = st)"
    using a
  proof
    assume "map_get (rc_generations c) p = Some a \<and> st = the (rc_states c a)"
    then have "rc_states c a = Some st" using inv(3) by (auto simp: map_inv_def)
    then show ?thesis using inv(2) g by (fastforce simp: state_inv_def)
  next
    assume new: "map_get (rc_generations c) p = None \<and> a = rc_next c \<and> gs_readers st = 0 \<and>
       gs_epoch st = Suc a \<and> Suc a < g"
    then have "active_reads c a = {}"
      using inv(4) nost by (fastforce simp: active_reads_def read_inv_def)
    then show ?thesis using new nost by simp
  qed
  have act: "active_reads ?c b = (if b = a then insert g (active_reads c a) else active_reads c b)" for b
    using fresh by (auto simp: active_reads_def)
  have "g \<notin> active_reads c a" using fresh by (simp add: active_reads_def)
  then have card: "card (insert g (active_reads c a)) = Suc (card (active_reads c a))"
    using finite_active [OF inv(4)] by simp
  have "entry_inv ?c" using inv(1) by (simp add: entry_inv_def)
  moreover have "state_inv ?c"
    using inv(2) st g card unfolding state_inv_def act by force
  moreover have "map_get (rc_generations c) q \<noteq> Some (rc_next c)" for q
    using inv(3) nost by (fastforce simp: map_inv_def)
  then have "map_inv ?c"
    using inv(2,3) a by (auto simp: map_inv_def jsmap_ok split: if_splits)
  moreover have "read_inv ?c"
    using inv(4) a st g True nost unfolding read_inv_def by (fastforce split: if_splits)
  ultimately show ?thesis using c' by (simp add: cache_inv_def)
qed

lemma cache_inv_endRead:
  assumes "cache_inv c"
  shows "cache_inv (endRead go c)"
proof (cases "\<exists>g rg. go = Some g \<and> rc_reads c g = Some rg \<and> \<not> rg_released rg")
  case False
  then show ?thesis using assms by (auto simp: endRead_def split: option.splits)
next
  case True
  then obtain g rg where g: "go = Some g" "rc_reads c g = Some rg" "\<not> rg_released rg" by blast
  let ?a = "rg_state rg"
  have inv: "entry_inv c" "state_inv c" "map_inv c" "read_inv c"
    using assms by (simp_all add: cache_inv_def)
  have gm: "map_get (rc_generations c) (rg_path rg) = Some ?a" using g inv(4) by (auto simp: read_inv_def)
  obtain st where st: "rc_states c ?a = Some st"
    using gm inv(3) by (fastforce simp: map_inv_def)
  define gens where "gens = (if gs_readers st = 1 then map_del (rg_path rg) (rc_generations c) else rc_generations c)"
  have c': "endRead go c = c\<lparr>rc_reads := (rc_reads c)(g \<mapsto> rg\<lparr>rg_released := True\<rparr>),
      rc_states := (rc_states c)(?a \<mapsto> st\<lparr>gs_readers := gs_readers st - 1\<rparr>), rc_generations := gens\<rparr>"
    (is "_ = ?c") using g gm st by (simp add: endRead_def Let_def gens_def)
  have act: "active_reads ?c b = (if b = ?a then active_reads c ?a - {g} else active_reads c b)" for b
    using g by (auto simp: active_reads_def)
  have mem: "g \<in> active_reads c ?a" using g by (auto simp: active_reads_def)
  then have card: "int (card (active_reads c ?a - {g})) = int (card (active_reads c ?a)) - 1"
    using card_Suc_Diff1 [OF finite_active [OF inv(4)] mem] by linarith
  have last: "h = g" if "gs_readers st = 1" "h \<in> active_reads c ?a" for h
  proof -
    have "card (active_reads c ?a) = 1" using inv(2) st that(1) by (force simp: state_inv_def)
    then show ?thesis using mem that(2) by (auto simp: card_1_singleton_iff)
  qed
  have other: "map_get gens (rg_path rh) = Some (rg_state rh)"
    if "rc_reads c h = Some rh" "\<not> rg_released rh" "h \<noteq> g" for h rh
  proof -
    have hm: "map_get (rc_generations c) (rg_path rh) = Some (rg_state rh)"
      using inv(4) that by (auto simp: read_inv_def)
    have "rg_path rh \<noteq> rg_path rg" if one: "gs_readers st = 1"
    proof
      assume "rg_path rh = rg_path rg"
      then have "h \<in> active_reads c ?a" using hm gm \<open>rc_reads c h = Some rh\<close> \<open>\<not> rg_released rh\<close>
        by (auto simp: active_reads_def)
      then show False using last one \<open>h \<noteq> g\<close> by blast
    qed
    then show ?thesis using hm by (auto simp: gens_def)
  qed
  have "entry_inv ?c" using inv(1) by (simp add: entry_inv_def)
  moreover have "state_inv ?c"
    using inv(2) st card unfolding state_inv_def act by force
  moreover have "map_inv ?c"
    using inv(3) by (auto simp: map_inv_def gens_def jsmap_ok split: if_splits)
  moreover have "read_inv ?c"
    using inv(4) st g other unfolding read_inv_def by (auto split: if_splits) force+
  ultimately show ?thesis using c' by (simp add: cache_inv_def)
qed

section \<open>Every operation keeps the invariant\<close>

lemma entry_inv_renewed: "renewed A c c' \<Longrightarrow> entry_inv c \<Longrightarrow> entry_inv c'"
  using renewed_entries by (auto simp: entry_inv_def cache_enabled_def)

lemma cache_inv_renewed: "renewed A c c' \<Longrightarrow> cache_inv c \<Longrightarrow> cache_inv c'"
  using renewed_inv entry_inv_renewed by (auto simp: cache_inv_def)

lemma cache_inv_entries:
  "cache_inv c \<Longrightarrow> entry_inv (c\<lparr>rc_parameters := m, rc_parameterCount := n\<rparr>) \<Longrightarrow>
   cache_inv (c\<lparr>rc_parameters := m, rc_parameterCount := n\<rparr>)"
  by (simp add: cache_inv_def)

lemma getParameter_frame:
  "\<exists>m n. snd (getParameter path sel now c) = c\<lparr>rc_parameters := m, rc_parameterCount := n\<rparr>"
  by (auto simp: getParameter_def split: prod.splits)

lemma setParameter_frame:
  "\<exists>m n. snd (setParameter path v sel t1 t2 c) = c\<lparr>rc_parameters := m, rc_parameterCount := n\<rparr>"
proof -
  have "\<exists>m n. c\<lparr>rc_parameters := m0\<rparr> = c\<lparr>rc_parameters := m, rc_parameterCount := n\<rparr>" for m0
    by (rule exI [of _ m0], rule exI [of _ "rc_parameterCount c"]) simp
  then show ?thesis
    by (auto simp: setParameter_def split: prod.splits sum.splits)
qed

lemma cacheIfUnchanged_frame:
  "\<exists>m n. snd (cacheParameterIfUnchanged g ver lab v t1 t2 c) = c\<lparr>rc_parameters := m, rc_parameterCount := n\<rparr>"
proof -
  have "\<exists>m n. c = c\<lparr>rc_parameters := m, rc_parameterCount := n\<rparr>"
    by (rule exI [of _ "rc_parameters c"], rule exI [of _ "rc_parameterCount c"]) simp
  moreover note setParameter_frame [of _ v "positionalSelector ver lab" t1 t2 c]
  ultimately show ?thesis
    by (auto simp: cacheParameterIfUnchanged_def putParam_def split: prod.splits sum.splits option.splits)
      (metis snd_conv)+
qed

lemma cacheIfUnchanged_set:
  "snd (cacheParameterIfUnchanged g ver lab v t1 t2 c) =
    (case rc_reads c g of
       Some rg \<Rightarrow> if isCurrent c g ParameterKind
                  then snd (setParameter (rg_path rg) v (positionalSelector ver lab) t1 t2 c) else c
     | None \<Rightarrow> c)"
  by (auto simp: cacheParameterIfUnchanged_def putParam_def isCurrent_def
      split: prod.splits sum.splits option.splits)

lemma cache_inv_setParameter: "cache_inv c \<Longrightarrow> cache_inv (snd (setParameter path v sel t1 t2 c))"
  using setParameter_frame [of path v sel t1 t2 c] entry_inv_setParameter [of c path v sel t1 t2]
  by (auto simp: cache_inv_def)

lemma cache_inv_getParameter: "cache_inv c \<Longrightarrow> cache_inv (snd (getParameter path sel now c))"
  using getParameter_frame [of path sel now c] entry_inv_getParameter [of c path sel now]
  by (auto simp: cache_inv_def)

lemma cache_inv_invalidateParameter: "cache_inv c \<Longrightarrow> cache_inv (invalidateParameter path c)"
proof -
  assume inv: "cache_inv c"
  let ?c = "invalidateGeneration path c"
  have inv': "cache_inv ?c" by (rule cache_inv_renewed [OF invalidateGeneration_renewed inv])
  then show ?thesis
    by (auto simp: invalidateParameter_def Let_def cache_inv_def entry_inv_def total_simps entries_ok_def
        jsmap_ok split: option.splits)
qed

lemma scope_entry_total:
  "entry_total (filter (\<lambda>b. \<not> in_scope scope (fst b)) m) = entry_total m - scope_entry_count scope m"
  by (induction m) (auto simp: scope_entry_count_def)

lemma scope_entry_count_nonneg: "0 \<le> scope_entry_count scope m"
  by (induction m) (auto simp: scope_entry_count_def)

lemma cache_inv_drop_scope:
  assumes "cache_inv c"
  shows "cache_inv (c\<lparr>rc_parameterCount := rc_parameterCount c - scope_entry_count scope (rc_parameters c),
                  rc_parameters := filter (\<lambda>b. \<not> in_scope scope (fst b)) (rc_parameters c)\<rparr>)"
  using assms scope_entry_count_nonneg [of scope "rc_parameters c"]
  by (auto simp: cache_inv_def entry_inv_def scope_entry_total)

lemma cache_inv_invalidateNamespaces:
  "cache_inv c \<Longrightarrow> cache_inv (snd (invalidateParametersInNamespaces nss c))"
  using cache_inv_drop_scope [OF cache_inv_renewed [OF renew_in_scope_renewed]]
  by (auto simp: invalidateParametersInNamespaces_def Let_def split: sum.splits)

lemma cache_inv_clear: "cache_inv c \<Longrightarrow> cache_inv (clear c)"
  using cache_inv_renewed [OF renew_all_renewed]
  by (fastforce simp: clear_def cache_inv_def entry_inv_def)

lemma cache_inv_step: "cache_inv c \<Longrightarrow> cache_inv (cache_step op c)"
  by (cases op) (simp_all add: cache_inv_setParameter cache_inv_getParameter cache_inv_beginRead
      beginParameterRead_def cache_inv_endRead cache_inv_invalidateParameter
      cache_inv_invalidateNamespaces cache_inv_clear cacheIfUnchanged_set split: option.splits)

lemma cache_inv_new: "newReadCache ttl mx = Inr c \<Longrightarrow> cache_inv c"
  by (cases ttl) (auto simp: Let_def isSafeInteger_def cache_inv_def entry_inv_def gen_defs map_get_Nil
      active_reads_def jsmap_ok cache_enabled_def DEFAULT_MAX_CACHE_ENTRIES_def split: js_number.splits option.splits if_splits)

interpretation cache_sys: invariant_system cache_step cache_inv
  by unfold_locales (rule cache_inv_step)

section \<open>When a read generation is current\<close>

fun op_invalidates :: "cache_op \<Rightarrow> string \<Rightarrow> bool" where
  "op_invalidates (InvalidateParameter q) p \<longleftrightarrow> q = p"
| "op_invalidates (InvalidateNamespaces nss) p \<longleftrightarrow>
     (case scope_of nss of Inl _ \<Rightarrow> False | Inr scope \<Rightarrow> in_scope scope p)"
| "op_invalidates Clear p \<longleftrightarrow> True"
| "op_invalidates _ p \<longleftrightarrow> False"

definition op_ends :: "cache_op \<Rightarrow> nat \<Rightarrow> bool" where
  "op_ends op g \<longleftrightarrow> op = EndRead (Some g)"

lemma in_scope_Nil [simp]: "\<not> in_scope [] p"
  by (simp add: in_scope_def split: option.split)

lemma isCurrent_params [simp]:
  "isCurrent (rc_parameters_update f c) = isCurrent c"
  "isCurrent (rc_parameterCount_update i c) = isCurrent c"
  by (auto simp: isCurrent_def fun_eq_iff split: option.splits)

lemma isCurrent_released: "rc_reads c g = Some rg \<Longrightarrow> rg_released rg \<Longrightarrow> \<not> isCurrent c g k"
  by (simp add: isCurrent_def)

lemma renewed_scope_current:
  assumes "cache_inv c" "rc_reads c g = Some rg"
    and "renewed (snd ` {e \<in> set (rc_generations c). P (fst e)}) c c'"
  shows "isCurrent c' g ParameterKind \<longleftrightarrow> isCurrent c g ParameterKind \<and> \<not> P (rg_path rg)"
proof -
  have inv: "state_inv c" "map_inv c" "read_inv c" using assms(1) by (simp_all add: cache_inv_def)
  have "rg_state rg \<in> snd ` {e \<in> set (rc_generations c). P (fst e)} \<longleftrightarrow> P (rg_path rg)"
    if "\<not> rg_released rg"
  proof -
    have gm: "map_get (rc_generations c) (rg_path rg) = Some (rg_state rg)"
      using inv(3) assms(2) that by (auto simp: read_inv_def)
    have "q = rg_path rg" if "(q, rg_state rg) \<in> set (rc_generations c)" for q
      using that gm inv(2) map_get_iff [of "rc_generations c" q "rg_state rg"] by (auto simp: map_inv_def)
    moreover have "P (rg_path rg) \<Longrightarrow> (rg_path rg, rg_state rg) \<in> {e \<in> set (rc_generations c). P (fst e)}"
      using map_get_in [OF gm] by simp
    ultimately show ?thesis by (metis (no_types, lifting) image_iff mem_Collect_eq prod.collapse snd_conv)
  qed
  then show ?thesis
    using renewed_current [OF assms(3) inv assms(2)] isCurrent_released [OF assms(2)] by blast
qed

lemma current_beginRead:
  assumes "cache_inv c" "rc_reads c g = Some rg"
  shows "rc_reads (snd (beginRead kind p c)) g = Some rg"
    and "isCurrent (snd (beginRead kind p c)) g ParameterKind \<longleftrightarrow> isCurrent c g ParameterKind"
proof -
  have inv: "state_inv c" "map_inv c" "read_inv c" using assms(1) by (simp_all add: cache_inv_def)
  have inv': "map_inv (snd (beginRead kind p c))" "read_inv (snd (beginRead kind p c))"
    using cache_inv_beginRead [OF assms(1), of kind p] by (simp_all add: cache_inv_def)
  have en: "cache_enabled c" using inv(3) assms(2) by (auto simp: read_inv_def)
  obtain a st h where
    c': "snd (beginRead kind p c) = c\<lparr>rc_generations := map_set p a (rc_generations c),
       rc_states := (rc_states c)(a \<mapsto> st\<lparr>gs_readers := gs_readers st + 1\<rparr>),
       rc_reads := (rc_reads c)(h \<mapsto> \<lparr>rg_kind = kind, rg_path = p, rg_state = a,
                                  rg_epoch = gs_epoch st, rg_released = False\<rparr>),
       rc_next := Suc h\<rparr>"
    and h: "rc_next c \<le> h"
    and a: "map_get (rc_generations c) p = Some a \<and> st = the (rc_states c a) \<or>
      map_get (rc_generations c) p = None \<and> a = rc_next c \<and> gs_readers st = 0 \<and>
       gs_epoch st = Suc a \<and> Suc a < h"
    using en by (rule beginRead_fields)
  have "g < rc_next c" using inv(3) assms(2) by (auto simp: read_inv_def)
  then show rd: "rc_reads (snd (beginRead kind p c)) g = Some rg" using h assms(2) by (simp add: c')
  obtain st0 where st0: "rc_states c (rg_state rg) = Some st0" "rg_state rg < rc_next c"
    using inv(1,3) assms(2) by (fastforce simp: read_inv_def state_inv_def)
  have ep: "map_option gs_epoch (rc_states (snd (beginRead kind p c)) (rg_state rg)) =
      map_option gs_epoch (rc_states c (rg_state rg))"
    using a st0 by (auto simp: c')
  show "isCurrent (snd (beginRead kind p c)) g ParameterKind \<longleftrightarrow> isCurrent c g ParameterKind"
    unfolding isCurrent_iff [OF inv(2,3) assms(2)] isCurrent_iff [OF inv' rd] ep ..
qed

lemma current_endRead:
  assumes "cache_inv c" "rc_reads c g = Some rg"
  shows "\<exists>b. rc_reads (endRead go c) g = Some (rg\<lparr>rg_released := b\<rparr>)"
    and "isCurrent (endRead go c) g ParameterKind \<longleftrightarrow> isCurrent c g ParameterKind \<and> go \<noteq> Some g"
proof -
  have inv: "state_inv c" "map_inv c" "read_inv c" using assms(1) by (simp_all add: cache_inv_def)
  have inv': "map_inv (endRead go c)" "read_inv (endRead go c)"
    using cache_inv_endRead [OF assms(1), of go] by (simp_all add: cache_inv_def)
  let ?b = "rg_released rg \<or> go = Some g"
  have rd: "rc_reads (endRead go c) g = Some (rg\<lparr>rg_released := ?b\<rparr>)"
    using assms(2) by (cases "go = Some g") (auto simp: endRead_def Let_def split: option.splits)
  then show "\<exists>b. rc_reads (endRead go c) g = Some (rg\<lparr>rg_released := b\<rparr>)" by blast
  have st: "\<exists>st. rc_states c (rg_state rh) = Some st" if "rc_reads c h = Some rh" for h rh
    using inv(3) that by (auto simp: read_inv_def)
  have ep: "map_option gs_epoch (rc_states (endRead go c) a) = map_option gs_epoch (rc_states c a)" for a
    using st by (fastforce simp: endRead_def Let_def split: option.split)
  show "isCurrent (endRead go c) g ParameterKind \<longleftrightarrow> isCurrent c g ParameterKind \<and> go \<noteq> Some g"
    unfolding isCurrent_iff [OF inv(2,3) assms(2)] isCurrent_iff [OF inv' rd] ep by simp blast
qed

lemma renewed_path_set:
  "map_ok m \<Longrightarrow> {a. map_get m path = Some a} = snd ` {e \<in> set m. fst e = path}"
  by (force simp: map_get_iff)

lemma invalidate_current:
  assumes "cache_inv c" "rc_reads c g = Some rg"
  shows "isCurrent (invalidateParameter path c) g ParameterKind \<longleftrightarrow>
      isCurrent c g ParameterKind \<and> rg_path rg \<noteq> path"
    and "rc_reads (invalidateParameter path c) = rc_reads c"
    and "isCurrent (clear c) g ParameterKind \<longleftrightarrow> False"
    and "rc_reads (clear c) = rc_reads c"
proof -
  have ok: "map_ok (rc_generations c)" using assms(1) by (simp add: cache_inv_def map_inv_def)
  note ren = invalidateGeneration_renewed [of c path]
  have "isCurrent (invalidateGeneration path c) g ParameterKind \<longleftrightarrow>
      isCurrent c g ParameterKind \<and> rg_path rg \<noteq> path"
    using renewed_scope_current [OF assms, of "\<lambda>q. q = path"] ren renewed_path_set [OF ok] by auto
  then show "isCurrent (invalidateParameter path c) g ParameterKind \<longleftrightarrow>
      isCurrent c g ParameterKind \<and> rg_path rg \<noteq> path"
    by (simp add: invalidateParameter_def Let_def split: option.split)
  show "rc_reads (invalidateParameter path c) = rc_reads c"
    using renewed_entries [OF ren] by (simp add: invalidateParameter_def Let_def split: option.split)
  note all = renew_all_renewed [of c]
  show "isCurrent (clear c) g ParameterKind \<longleftrightarrow> False"
    using renewed_scope_current [OF assms, of "\<lambda>_. True"] all by (simp add: clear_def)
  show "rc_reads (clear c) = rc_reads c" using renewed_entries [OF all] by (simp add: clear_def)
qed

lemma invalidateNamespaces_current:
  assumes "cache_inv c" "rc_reads c g = Some rg"
  shows "isCurrent (snd (invalidateParametersInNamespaces nss c)) g ParameterKind \<longleftrightarrow>
      isCurrent c g ParameterKind \<and> \<not> op_invalidates (InvalidateNamespaces nss) (rg_path rg)"
    and "rc_reads (snd (invalidateParametersInNamespaces nss c)) = rc_reads c"
proof -
  have en: "cache_enabled c" using assms by (auto simp: cache_inv_def read_inv_def)
  show "isCurrent (snd (invalidateParametersInNamespaces nss c)) g ParameterKind \<longleftrightarrow>
      isCurrent c g ParameterKind \<and> \<not> op_invalidates (InvalidateNamespaces nss) (rg_path rg)"
    using renewed_scope_current [OF assms renew_in_scope_renewed] en
    by (auto simp: invalidateParametersInNamespaces_def Let_def split: sum.splits)
  show "rc_reads (snd (invalidateParametersInNamespaces nss c)) = rc_reads c"
    using renewed_entries [OF renew_in_scope_renewed]
    by (auto simp: invalidateParametersInNamespaces_def Let_def split: sum.splits)
qed

lemma entries_frame_current:
  "\<exists>m n. c' = c\<lparr>rc_parameters := m, rc_parameterCount := n\<rparr> \<Longrightarrow>
    isCurrent c' = isCurrent c \<and> rc_reads c' = rc_reads c \<and> rc_ttlMs c' = rc_ttlMs c \<and>
    rc_maxEntries c' = rc_maxEntries c"
  by auto

lemmas frame_current = entries_frame_current [OF getParameter_frame]
  entries_frame_current [OF setParameter_frame] entries_frame_current [OF cacheIfUnchanged_frame]

lemma current_step:
  assumes "cache_inv c" "rc_reads c g = Some rg"
  shows "isCurrent (cache_step op c) g ParameterKind \<longleftrightarrow>
      isCurrent c g ParameterKind \<and> \<not> op_ends op g \<and> \<not> op_invalidates op (rg_path rg)"
    and "\<exists>b. rc_reads (cache_step op c) g = Some (rg\<lparr>rg_released := b\<rparr>)"
proof -
  show "isCurrent (cache_step op c) g ParameterKind \<longleftrightarrow>
      isCurrent c g ParameterKind \<and> \<not> op_ends op g \<and> \<not> op_invalidates op (rg_path rg)"
    using current_beginRead [OF assms] current_endRead [OF assms] invalidate_current [OF assms]
      invalidateNamespaces_current [OF assms]
    by (cases op) (auto simp: frame_current op_ends_def beginParameterRead_def simp del: op_invalidates.simps(2))
  have "\<exists>b. rg = rg\<lparr>rg_released := b\<rparr>" by (rule exI [of _ "rg_released rg"]) simp
  then show "\<exists>b. rc_reads (cache_step op c) g = Some (rg\<lparr>rg_released := b\<rparr>)"
    using current_beginRead [OF assms] current_endRead [OF assms] invalidate_current [OF assms]
      invalidateNamespaces_current [OF assms] assms(2)
    by (cases op) (simp_all add: frame_current beginParameterRead_def)
qed

lemma current_run:
  assumes "cache_inv c" "rc_reads c g = Some rg"
  shows "isCurrent (run cache_step ops c) g ParameterKind \<longleftrightarrow>
    isCurrent c g ParameterKind \<and> (\<forall>op \<in> set ops. \<not> op_ends op g \<and> \<not> op_invalidates op (rg_path rg))"
  using assms
proof (induction ops arbitrary: c rg)
  case (Cons op ops)
  obtain b where "rc_reads (cache_step op c) g = Some (rg\<lparr>rg_released := b\<rparr>)"
    using current_step(2) [OF Cons.prems] by blast
  from Cons.IH [OF cache_inv_step [OF Cons.prems(1)] this]
  show ?case using current_step(1) [OF Cons.prems, of op] by auto
qed simp

lemma beginRead_current:
  assumes "cache_inv c" "beginParameterRead p c = (Some g, c')"
  shows "cache_inv c'" "isCurrent c' g ParameterKind" "\<exists>rg. rc_reads c' g = Some rg \<and> rg_path rg = p"
proof -
  have en: "cache_enabled c" using assms(2) by (auto simp: beginParameterRead_def beginRead_def split: if_splits)
  obtain a st h where
    c': "snd (beginRead ParameterKind p c) = c\<lparr>rc_generations := map_set p a (rc_generations c),
       rc_states := (rc_states c)(a \<mapsto> st\<lparr>gs_readers := gs_readers st + 1\<rparr>),
       rc_reads := (rc_reads c)(h \<mapsto> \<lparr>rg_kind = ParameterKind, rg_path = p, rg_state = a,
                                  rg_epoch = gs_epoch st, rg_released = False\<rparr>),
       rc_next := Suc h\<rparr>"
    and h: "fst (beginRead ParameterKind p c) = Some h"
    using en by (rule beginRead_fields)
  have eq: "c' = snd (beginRead ParameterKind p c)" "h = g"
    using assms(2) h by (auto simp: beginParameterRead_def)
  show "cache_inv c'" using cache_inv_beginRead [OF assms(1)] eq by simp
  show "isCurrent c' g ParameterKind" using c' eq by (simp add: isCurrent_def)
  show "\<exists>rg. rc_reads c' g = Some rg \<and> rg_path rg = p" using c' eq by simp
qed

section \<open>Where a hit comes from\<close>

text \<open>The entry an operation writes, in the state it runs in: path, selector key and entry.\<close>

fun op_writes :: "read_cache \<Rightarrow> cache_op \<Rightarrow> (string \<times> string \<times> cache_entry) option" where
  "op_writes c (SetParameter path v sel t1 t2) =
     (case selectorKey sel of Inl _ \<Rightarrow> None
      | Inr key \<Rightarrow> Some (path, key, \<lparr>ce_value = v, ce_expiresAt = t1 + rc_ttlMs c\<rparr>))"
| "op_writes c (CacheIfUnchanged g ver lab v t1 t2) =
     (if isCurrent c g ParameterKind then
        (case (rc_reads c g, selectorKey (positionalSelector ver lab)) of
           (Some rg, Inr key) \<Rightarrow> Some (rg_path rg, key, \<lparr>ce_value = v, ce_expiresAt = t1 + rc_ttlMs c\<rparr>)
         | _ \<Rightarrow> None)
      else None)"
| "op_writes c _ = None"

lemma entry_step:
  assumes "cache_inv c" "entry_of (rc_parameters (cache_step op c)) p k = Some e"
  shows "entry_of (rc_parameters c) p k = Some e \<and> \<not> op_invalidates op p \<or> op_writes c op = Some (p, k, e)"
proof -
  have inv: "entry_inv c" "map_ok (rc_parameters c)" "map_ok (rc_generations c)"
    using assms(1) by (simp_all add: cache_inv_def entry_inv_def entries_ok_def map_inv_def)
  have dis: "cache_enabled c" if "entry_of (rc_parameters c) p k = Some e"
    using inv(1) that by (auto simp: entry_inv_def entry_of_def map_get_Nil)
  show ?thesis
  proof (cases op)
    case (BeginRead q)
    then show ?thesis using assms(2)
      by (auto simp: beginParameterRead_def beginRead_def Let_def split: option.splits if_splits)
  next
    case (CacheIfUnchanged g ver lab v t1 t2)
    then show ?thesis using assms(2) setParameter_entry [OF inv(1), of _ v "positionalSelector ver lab" t1 t2 p k e]
      by (fastforce simp: cacheIfUnchanged_set split: option.splits if_splits sum.splits)
  next
    case (EndRead go)
    then show ?thesis using assms(2)
      by (auto simp: endRead_def Let_def split: option.splits if_splits)
  next
    case (InvalidateParameter q)
    then show ?thesis using assms(2) renewed_entries [OF invalidateGeneration_renewed]
      by (auto simp: invalidateParameter_def Let_def entry_of_del entry_of_def split: option.splits if_splits)
  next
    case (InvalidateNamespaces nss)
    then show ?thesis using assms(2) renewed_entries [OF renew_in_scope_renewed] dis
      by (auto simp: invalidateParametersInNamespaces_def Let_def entry_of_filter [OF inv(2), of "\<lambda>q. \<not> in_scope _ q"]
          split: sum.splits if_splits)
  next
    case Clear
    then show ?thesis using assms(2) by (simp add: clear_def entry_of_def map_get_Nil)
  qed (use assms(2) setParameter_entry [OF inv(1)] getParameter_entry [OF inv(1)] in
      \<open>fastforce split: sum.splits\<close>)+
qed

lemma entry_run:
  assumes "cache_inv c" "entry_of (rc_parameters c) p k = None"
    and "entry_of (rc_parameters (run cache_step ops c)) p k = Some e"
  shows "\<exists>pre op post. ops = pre @ op # post \<and>
    op_writes (run cache_step pre c) op = Some (p, k, e) \<and> (\<forall>o' \<in> set post. \<not> op_invalidates o' p)"
  using assms(3)
proof (induction ops rule: rev_induct)
  case Nil
  then show ?case using assms(2) by simp
next
  case (snoc op ops)
  let ?c = "run cache_step ops c"
  have "cache_inv ?c" using cache_sys.inv_run assms(1) by blast
  from entry_step [OF this] snoc.prems
  consider "entry_of (rc_parameters ?c) p k = Some e" "\<not> op_invalidates op p" | "op_writes ?c op = Some (p, k, e)"
    by auto
  then show ?case
  proof cases
    case 1
    then obtain pre o1 post where "ops = pre @ o1 # post"
      "op_writes (run cache_step pre c) o1 = Some (p, k, e)" "\<forall>o' \<in> set post. \<not> op_invalidates o' p"
      using snoc.IH by blast
    then show ?thesis using 1(2) by (intro exI [of _ pre] exI [of _ o1] exI [of _ "post @ [op]"]) auto
  next
    case 2
    then show ?thesis by (intro exI [of _ ops] exI [of _ op] exI [of _ "[]"]) simp
  qed
qed

lemma getParameter_hit:
  assumes "fst (getParameter p sel now c) = Inr (Some v)"
  obtains k e where "selectorKey sel = Inr k" "entry_of (rc_parameters c) p k = Some e"
    "now < ce_expiresAt e" "ce_value e = v"
  using assms
  by (auto simp: getParameter_def cache_get_def entry_of_def Let_def
      split: prod.splits option.splits sum.splits if_splits)

lemma limits_step: "rc_ttlMs (cache_step op c) = rc_ttlMs c \<and> rc_maxEntries (cache_step op c) = rc_maxEntries c"
proof -
  let ?same = "\<lambda>c'. rc_ttlMs c' = rc_ttlMs c \<and> rc_maxEntries c' = rc_maxEntries c"
  have "?same (snd (beginRead k p c))" for k p
    by (simp add: beginRead_def Let_def split: option.split)
  moreover have "?same (endRead go c)" for go
    by (simp add: endRead_def Let_def split: option.split)
  moreover have "?same (invalidateParameter p c)" for p
    using renewed_entries [OF invalidateGeneration_renewed]
    by (simp add: invalidateParameter_def Let_def split: option.split)
  moreover have "?same (snd (invalidateParametersInNamespaces nss c))" for nss
    using renewed_entries [OF renew_in_scope_renewed]
    by (simp add: invalidateParametersInNamespaces_def Let_def split: sum.split)
  moreover have "?same (clear c)"
    using renewed_entries [OF renew_all_renewed] by (simp add: clear_def)
  ultimately show ?thesis by (cases op) (simp_all add: frame_current beginParameterRead_def)
qed

lemma limits_run: "rc_ttlMs (run cache_step ops c) = rc_ttlMs c" "rc_maxEntries (run cache_step ops c) = rc_maxEntries c"
  by (induction ops arbitrary: c) (simp_all add: limits_step)

lemma new_cache_empty:
  "newReadCache ttl mx = Inr c \<Longrightarrow> rc_parameters c = [] \<and> rc_reads c = (\<lambda>_. None)"
  by (cases ttl) (auto simp: Let_def split: js_number.splits option.splits if_splits)

lemma read_origin:
  assumes "cache_inv c" "rc_reads c = (\<lambda>_. None)" "rc_reads (run cache_step ops c) g = Some rg"
  shows "\<exists>pre post. ops = pre @ BeginRead (rg_path rg) # post \<and>
    fst (beginParameterRead (rg_path rg) (run cache_step pre c)) = Some g"
  using assms(3)
proof (induction ops arbitrary: rg rule: rev_induct)
  case Nil
  then show ?case using assms(2) by simp
next
  case (snoc op ops)
  let ?c = "run cache_step ops c"
  have inv: "cache_inv ?c" using cache_sys.inv_run assms(1) by blast
  show ?case
  proof (cases "rc_reads ?c g")
    case (Some rg0)
    obtain b where "rc_reads (cache_step op ?c) g = Some (rg0\<lparr>rg_released := b\<rparr>)"
      using current_step(2) [OF inv Some] by blast
    then have "rg_path rg0 = rg_path rg" using snoc.prems by auto
    then obtain pre post where "ops = pre @ BeginRead (rg_path rg) # post"
      "fst (beginParameterRead (rg_path rg) (run cache_step pre c)) = Some g"
      using snoc.IH [OF Some] by auto
    then show ?thesis by (intro exI [of _ pre] exI [of _ "post @ [op]"]) simp
  next
    case None
    then have new: "rc_reads (cache_step op ?c) g \<noteq> rc_reads ?c g" using snoc.prems by simp
    have same: "rc_reads (invalidateParameter q ?c) = rc_reads ?c" "rc_reads (clear ?c) = rc_reads ?c"
      "rc_reads (snd (invalidateParametersInNamespaces nss ?c)) = rc_reads ?c" for q nss
      using renewed_entries [OF invalidateGeneration_renewed] renewed_entries [OF renew_all_renewed]
        renewed_entries [OF renew_in_scope_renewed]
      by (simp_all add: invalidateParameter_def clear_def invalidateParametersInNamespaces_def Let_def
          split: option.split sum.split)
    have "rc_reads (endRead go ?c) g = None" for go
      using None by (auto simp: endRead_def Let_def split: option.splits)
    then obtain q where op: "op = BeginRead q"
      using new same None by (cases op) (auto simp: frame_current)
    have "rg_path rg = q \<and> fst (beginParameterRead q ?c) = Some g"
      using snoc.prems None op
      by (auto simp: beginParameterRead_def beginRead_def Let_def split: if_splits option.splits)
    then show ?thesis using op by (intro exI [of _ ops] exI [of _ "[]"]) auto
  qed
qed

lemma current_origin:
  assumes "cache_inv c" "rc_reads c = (\<lambda>_. None)"
    and "isCurrent (run cache_step ops c) g ParameterKind" "rc_reads (run cache_step ops c) g = Some rg"
  shows "\<exists>pre post. ops = pre @ BeginRead (rg_path rg) # post \<and>
    fst (beginParameterRead (rg_path rg) (run cache_step pre c)) = Some g \<and>
    (\<forall>op \<in> set post. \<not> op_invalidates op (rg_path rg))"
proof -
  let ?p = "rg_path rg"
  obtain pre post where ops: "ops = pre @ BeginRead ?p # post"
    and g: "fst (beginParameterRead ?p (run cache_step pre c)) = Some g"
    using read_origin [OF assms(1,2,4)] by blast
  have inv: "cache_inv (run cache_step pre c)" using cache_sys.inv_run assms(1) by blast
  obtain c1 where c1: "beginParameterRead ?p (run cache_step pre c) = (Some g, c1)"
    using g by (cases "beginParameterRead ?p (run cache_step pre c)") auto
  obtain rg1 where "rc_reads c1 g = Some rg1" "rg_path rg1 = ?p"
    using beginRead_current(3) [OF inv c1] by blast
  then show ?thesis
    using ops g c1 assms(3) current_run [OF beginRead_current(1) [OF inv c1], of g rg1 post]
    by (intro exI [of _ pre] exI [of _ post]) auto
qed

section \<open>Whether a stored value is found\<close>

text \<open>
  A store that overfills the cache evicts the oldest entry of the oldest bucket that has one. This is the entry just
  written when its bucket was there already, empty, and no older bucket holds anything.
\<close>

definition lost_write :: "read_cache \<Rightarrow> string \<Rightarrow> real \<Rightarrow> bool" where
  "lost_write c p now \<longleftrightarrow> rc_parameterCount c = rc_maxEntries c \<and> expired_count now (rc_parameters c) = 0 \<and>
     (\<exists>before after. rc_parameters c = before @ (p, []) # after \<and> (\<forall>b \<in> set before. snd b = []))"

abbreviation occupied :: "entry_map \<Rightarrow> entry_map" where
  "occupied m \<equiv> filter (\<lambda>b. snd b \<noteq> []) m"

lemma expired_count_nonneg: "0 \<le> expired_count now m"
  by (induction m) (auto simp: expired_count_def)

lemma expired_count_simps:
  "expired_count now (m @ m') = expired_count now m + expired_count now m'"
  "expired_count now (b # m) = int (length (filter (\<lambda>e. \<not> now < ce_expiresAt (snd e)) (snd b))) + expired_count now m"
  "expired_count now [] = 0"
  by (simp_all add: expired_count_def)

lemma drop_expired_occupied: "expired_count now m = 0 \<Longrightarrow> drop_expired now m = occupied m"
proof (induction m)
  case (Cons b m)
  have "int (length (filter (\<lambda>e. \<not> now < ce_expiresAt (snd e)) (snd b))) = 0 \<and> expired_count now m = 0"
    using expired_count_nonneg [of now m] Cons.prems expired_count_simps(2) [of now b m] by linarith
  then have "filter (\<lambda>e. \<not> now < ce_expiresAt (snd e)) (snd b) = []" "expired_count now m = 0" by simp_all
  moreover from this(1) have "filter (\<lambda>e. now < ce_expiresAt (snd e)) (snd b) = snd b"
    by (auto simp: filter_empty_conv intro!: filter_True)
  ultimately show ?case using Cons by (simp add: drop_expired_def)
qed (simp add: drop_expired_def)

lemma entry_of_split:
  "p \<notin> fst ` set before \<Longrightarrow> entry_of (before @ (p, es) # after) p k = map_get es k"
  by (induction before) (auto simp: entry_of_Cons)

lemma drop_expired_keeps:
  "entries_ok m \<Longrightarrow> entry_of m p k = Some e \<Longrightarrow> now < ce_expiresAt e \<Longrightarrow>
   entry_of (drop_expired now m) p k = Some e"
proof (induction m)
  case (Cons b m)
  obtain q es where b: "b = (q, es)" by (cases b)
  let ?es = "filter (\<lambda>e. now < ce_expiresAt (snd e)) es"
  have eq: "drop_expired now (b # m) = (if ?es = [] then [] else [(q, ?es)]) @ drop_expired now m"
    by (simp add: drop_expired_def b)
  show ?case
  proof (cases "p = q")
    case True
    then have "map_get es k = Some e" using Cons.prems b by (simp add: entry_of_Cons)
    then have "map_get ?es k = Some e" using Cons.prems(1,3) b by (simp add: map_get_filter)
    then show ?thesis using eq True by (auto simp: entry_of_Cons map_get_Nil)
  next
    case False
    then show ?thesis using Cons b eq by (auto simp: entry_of_Cons)
  qed
qed (simp add: entry_of_def map_get_Nil)

lemma evict_oldest_stop: "cnt \<le> mx \<Longrightarrow> evict_oldest mx m cnt = (m, cnt)"
  by (simp add: evict_oldest.simps)

lemma evict_one:
  "cnt = mx + 1 \<Longrightarrow> m = (q, x # es') # rest \<Longrightarrow> fst (evict_oldest mx m cnt) = (if es' = [] then rest else (q, es') # rest)"
  by (subst evict_oldest.simps) (simp add: evict_oldest_stop)

lemma key_split_unique:
  "before @ (p, es) # after = before' @ (p, es') # after' \<Longrightarrow> p \<notin> fst ` set before \<Longrightarrow> p \<notin> fst ` set after \<Longrightarrow>
   before' = before \<and> es' = es \<and> after' = after"
proof (induction before arbitrary: before')
  case Nil
  then show ?case by (cases before') auto
next
  case (Cons b before)
  then show ?case by (cases before') auto
qed

text \<open>Where \<open>#set\<close> puts an entry: at the end of the path's bucket, which is the last one if it is new.\<close>

lemma cache_set_shape:
  assumes "map_ok m" "selectorKey sel = Inr k" "e = \<lparr>ce_value = v, ce_expiresAt = now + ttl\<rparr>"
  shows "\<exists>before es after. (m = before @ (p, es) # after \<or> m = before \<and> after = [] \<and> es = []) \<and>
    p \<notin> fst ` set before \<and> p \<notin> fst ` set after \<and>
    cache_set True ttl now m cnt p sel v =
      (if map_has es k then (Inr cnt, before @ (p, map_set k e (map_del k es)) # after)
       else (Inr (cnt + 1), before @ (p, es @ [(k, e)]) # after))"
proof (cases "map_get m p")
  case None
  then have "p \<notin> fst ` set m" by (simp add: map_get_None)
  then show ?thesis using None assms(2,3)
    by (intro exI [of _ m] exI [of _ "[]"] exI [of _ "[]"]) (simp add: cache_set_def map_has_get map_get_Nil map_set_twice Let_def, simp add: map_set_absent)
next
  case (Some es)
  then obtain before after where m: "m = before @ (p, es) # after" using map_get_in split_list by metis
  then have p: "p \<notin> fst ` set before" "p \<notin> fst ` set after" using assms(1) by (auto simp: map_ok_def)
  have set: "map_set p es' m = before @ (p, es') # after" for es'
    unfolding m using p(1) by (induction before) auto
  have "map_set k e es = es @ [(k, e)]" if "\<not> map_has es k" using that by (simp add: map_has_get map_get_None map_set_absent)
  then show ?thesis using Some assms(2,3) m p set
    by (intro exI [of _ before] exI [of _ es] exI [of _ after]) (simp add: cache_set_def map_has_get)
qed

lemma evict_overfull:
  assumes "m' = before @ (p, es @ [(k, e)]) # after" "p \<notin> fst ` set before" "p \<notin> fst ` set after" "k \<notin> fst ` set es"
    and "entries_ok m'" "cnt = mx + 1" "now < ce_expiresAt e"
  shows "entry_of (fst (cache_evict mx now m' cnt)) p k =
    (if expired_count now m' = 0 \<and> es = [] \<and> occupied before = [] then None else Some e)"
proof (cases "expired_count now m' = 0")
  case False
  have "map_get (es @ [(k, e)]) k = Some e" using assms(4) by (induction es) (auto simp: map_get_Cons map_get_Nil)
  then have "entry_of m' p k = Some e" unfolding assms(1) by (simp add: entry_of_split [OF assms(2)])
  moreover have "fst (cache_evict mx now m' cnt) = drop_expired now m'"
    using False assms(6) expired_count_nonneg [of now m'] by (simp add: cache_evict_def evict_oldest_stop)
  ultimately show ?thesis using drop_expired_keeps [OF assms(5)] assms(7) False by simp
next
  case True
  have get: "map_get (xs @ [(k, e)]) k = Some e" if "k \<notin> fst ` set xs" for xs
    using that by (induction xs) (auto simp: map_get_Cons map_get_Nil)
  have ev: "fst (cache_evict mx now m' cnt) = fst (evict_oldest mx (occupied before @ (p, es @ [(k, e)]) # occupied after) cnt)"
    using True assms(1,6) by (simp add: cache_evict_def drop_expired_occupied)
  have off: "p \<notin> fst ` set (occupied before)" "p \<notin> fst ` set (occupied after)" using assms(2,3) by auto
  show ?thesis
  proof (cases "occupied before")
    case (Cons b bs)
    then obtain q x xs where b: "b = (q, x # xs)" using filter_set [of "\<lambda>b. snd b \<noteq> []" before] by (cases b; cases "snd b") (auto simp: filter_eq_Cons_iff)
    then have "fst (cache_evict mx now m' cnt) = (if xs = [] then [] else [(q, xs)]) @ bs @ (p, es @ [(k, e)]) # occupied after"
      using ev evict_one [OF assms(6), of _ q x xs "bs @ (p, es @ [(k, e)]) # occupied after"] Cons by simp
    moreover have "p \<notin> fst ` set ((if xs = [] then [] else [(q, xs)]) @ bs)" using off(1) Cons b by auto
    ultimately show ?thesis using entry_of_split [of p "(if xs = [] then [] else [(q, xs)]) @ bs"] get [OF assms(4)] Cons by simp
  next
    case Nil
    show ?thesis
    proof (cases es)
      case Nil
      then show ?thesis using ev evict_one [OF assms(6), of _ p "(k, e)" "[]" "occupied after"] \<open>occupied before = []\<close> True
        entry_of_absent [OF off(2)] by simp
    next
      case (Cons x xs)
      then show ?thesis using ev evict_one [OF assms(6), of _ p x "xs @ [(k, e)]" "occupied after"] \<open>occupied before = []\<close>
        get [of xs] assms(4) by (simp add: entry_of_Cons)
    qed
  qed
qed

lemma entry_total_occupied: "occupied m = [] \<Longrightarrow> entry_total m = 0"
  by (induction m) (auto split: if_splits)

lemma lost_write_split:
  assumes "cache_inv c" "rc_parameters c = before @ (p, es) # after \<or> rc_parameters c = before \<and> after = [] \<and> es = []"
    and "p \<notin> fst ` set before" "p \<notin> fst ` set after"
  shows "lost_write c p now \<longleftrightarrow> rc_parameterCount c = rc_maxEntries c \<and> expired_count now (rc_parameters c) = 0 \<and> es = [] \<and> occupied before = []"
  using assms(2)
proof
  assume "rc_parameters c = before @ (p, es) # after"
  then show ?thesis using key_split_unique [of before p es after] assms(3,4) by (fastforce simp: lost_write_def filter_empty_conv)
next
  assume m: "rc_parameters c = before \<and> after = [] \<and> es = []"
  have "\<not> lost_write c p now" using m assms(3) by (auto simp: lost_write_def)
  moreover have "occupied before \<noteq> []" if "rc_parameterCount c = rc_maxEntries c"
    using that m assms(1) entry_total_occupied [of before] by (auto simp: cache_inv_def entry_inv_def)
  ultimately show ?thesis by blast
qed

lemma setParameter_stored:
  assumes "cache_inv c" "cache_enabled c" "selectorKey sel = Inr k" "t2 < t1 + rc_ttlMs c"
  shows "entry_of (rc_parameters (snd (setParameter p v sel t1 t2 c))) p k =
    (if lost_write c p t2 then None else Some \<lparr>ce_value = v, ce_expiresAt = t1 + rc_ttlMs c\<rparr>)"
proof -
  let ?e = "\<lparr>ce_value = v, ce_expiresAt = t1 + rc_ttlMs c\<rparr>" and ?m = "rc_parameters c" and ?n = "rc_parameterCount c"
  have inv: "entries_ok ?m" "map_ok ?m" "?n = entry_total ?m" "?n \<le> rc_maxEntries c"
    using assms(1) by (simp_all add: cache_inv_def entry_inv_def entries_ok_def)
  obtain before es after where m: "?m = before @ (p, es) # after \<or> ?m = before \<and> after = [] \<and> es = []"
    and p: "p \<notin> fst ` set before" "p \<notin> fst ` set after"
    and set: "cache_set True (rc_ttlMs c) t1 ?m ?n p sel v =
      (if map_has es k then (Inr ?n, before @ (p, map_set k ?e (map_del k es)) # after)
       else (Inr (?n + 1), before @ (p, es @ [(k, ?e)]) # after))"
    using cache_set_shape [OF inv(2) assms(3) refl, where v = v and now = t1 and ttl = "rc_ttlMs c" and p = p and cnt = ?n] by blast
  note lost = lost_write_split [OF assms(1) m p, of t2]
  have param: "rc_parameters (snd (setParameter p v sel t1 t2 c)) = fst (cache_evict (rc_maxEntries c) t2 m' cnt)"
    if "cache_set True (rc_ttlMs c) t1 ?m ?n p sel v = (Inr cnt, m')" for m' cnt
    using that assms(2) by (simp add: setParameter_def split: prod.split)
  show ?thesis
  proof (cases "map_has es k")
    case True
    then have "\<not> lost_write c p t2" using lost by (auto simp: map_has_get map_get_Nil)
    then show ?thesis using True set param inv(4) by (simp add: cache_evict_def entry_of_split [OF p(1)])
  next
    case False
    let ?m' = "before @ (p, es @ [(k, ?e)]) # after"
    have k: "k \<notin> fst ` set es" using False by (simp add: map_has_get map_get_None)
    have set': "cache_set True (rc_ttlMs c) t1 ?m ?n p sel v = (Inr (?n + 1), ?m')" using set False by simp
    have x: "expired_count t2 ?m' = expired_count t2 ?m" using m assms(4) by (auto simp: expired_count_simps)
    show ?thesis
    proof (cases "?n = rc_maxEntries c")
      case True
      have "entries_ok ?m'" using cache_set_ok(1) [OF set' inv(1,3)] .
      from evict_overfull [OF refl p k this, of "?n + 1" "rc_maxEntries c" t2] True assms(4) x lost show ?thesis
        by (simp add: param [OF set'])
    next
      case False
      have "map_get (es @ [(k, ?e)]) k = Some ?e" using k by (induction es) (auto simp: map_get_Cons map_get_Nil)
      then show ?thesis using False inv(4) lost by (simp add: param [OF set'] cache_evict_def entry_of_split [OF p(1)])
    qed
  qed
qed

lemma getParameter_found:
  assumes "cache_enabled c" "selectorKey sel = Inr k" "entry_of (rc_parameters c) p k = Some e"
    and "now < ce_expiresAt e"
  shows "fst (getParameter p sel now c) = Inr (Some (ce_value e))"
  using assms by (auto simp: getParameter_def cache_get_def entry_of_def bind_eq_Some_conv split: option.splits)

section \<open>Properties\<close>

text \<open>A cache of two entries and one second of lifetime, for the concrete instances below.\<close>

definition small_cache :: read_cache where
  "small_cache = \<lparr>rc_ttlMs = 1000, rc_maxEntries = 2, rc_parameters = [], rc_generations = [],
     rc_parameterCount = 0, rc_states = (\<lambda>_. None), rc_reads = (\<lambda>_. None), rc_next = 0\<rparr>"

lemma new_small_cache: "newReadCache (Finite 1000) (Some (Finite 2)) = Inr small_cache"
  by (simp add: small_cache_def isSafeInteger_def)

lemma selectorKey_latest: "selectorKey (positionalSelector 0 []) = Inr (''0'' @ [nul])"
  by (simp add: selectorKey_def positionalSelector_def normalizeVersionRef_def dec_int_def dec_nat_0 UINT64_MAX_def)

lemmas small_simps = small_cache_def beginParameterRead_def beginRead_def cacheParameterIfUnchanged_def
  putParam_def setParameter_def cache_set_def cache_evict_def isCurrent_def getParameter_def cache_get_def
  selectorKey_latest Let_def cache_enabled_def map_get_Cons map_get_Nil map_has_get

text \<open>C4: however cache operations interleave, a read generation is current exactly as long as
  nobody ended it and nothing invalidated its path: neither a single invalidation, nor a namespace
  invalidation whose scope covers the path, nor a clear. Ending or invalidating other reads has no effect.\<close>

theorem read_current_exact:
  assumes "newReadCache ttl mx = Inr c0"
    and "beginParameterRead p (run cache_step pre c0) = (Some g, c)"
  shows "isCurrent (run cache_step ops c) g ParameterKind \<longleftrightarrow>
    (\<forall>op \<in> set ops. \<not> op_ends op g \<and> \<not> op_invalidates op p)"
proof -
  have "cache_inv (run cache_step pre c0)" using cache_sys.inv_run cache_inv_new [OF assms(1)] by blast
  note beg = beginRead_current [OF this assms(2)]
  then obtain rg where "rc_reads c g = Some rg" "rg_path rg = p" by blast
  then show ?thesis using current_run [OF beg(1)] beg(2) by auto
qed

theorem read_current_exact_witness:
  "isCurrent (run cache_step [BeginRead ''a/b/k'', EndRead (Some 3), InvalidateParameter ''a/b/j'']
     (snd (beginParameterRead ''a/b/k'' small_cache))) 2 ParameterKind"
  using read_current_exact [OF new_small_cache, of "''a/b/k''" "[]" 2 "snd (beginParameterRead ''a/b/k'' small_cache)"
      "[BeginRead ''a/b/k'', EndRead (Some 3), InvalidateParameter ''a/b/j'']"]
  by (simp add: small_simps op_ends_def)

text \<open>C1: every hit is fresh. A value returned for a path and selector was written under the same
  selector key less than the lifetime ago, by an explicit store or by a guarded store of a read
  generation; nothing invalidated the path since it was written and, for the guarded store, nothing
  invalidated the path since before the backend read began.\<close>

theorem hit_provenance:
  assumes "newReadCache ttl mx = Inr c0"
    and "fst (getParameter p sel now (run cache_step ops c0)) = Inr (Some v)"
  shows "\<exists>pre op post sel' t1 t2. ops = pre @ op # post \<and> (\<forall>o' \<in> set post. \<not> op_invalidates o' p) \<and>
    selectorKey sel' = selectorKey sel \<and> now < t1 + rc_ttlMs c0 \<and>
    (op = SetParameter p v sel' t1 t2 \<or>
     (\<exists>start mid g ver lab. op = CacheIfUnchanged g ver lab v t1 t2 \<and> sel' = positionalSelector ver lab \<and>
        pre = start @ BeginRead p # mid \<and> fst (beginParameterRead p (run cache_step start c0)) = Some g \<and>
        (\<forall>o' \<in> set mid. \<not> op_invalidates o' p)))"
proof -
  have inv: "cache_inv c0" and emp: "rc_parameters c0 = []" "rc_reads c0 = (\<lambda>_. None)"
    using cache_inv_new new_cache_empty assms(1) by blast+
  obtain k e where k: "selectorKey sel = Inr k" and e: "now < ce_expiresAt e" "ce_value e = v"
    and ent: "entry_of (rc_parameters (run cache_step ops c0)) p k = Some e"
    using assms(2) by (rule getParameter_hit)
  obtain pre op post where ops: "ops = pre @ op # post" "\<forall>o' \<in> set post. \<not> op_invalidates o' p"
    and wr: "op_writes (run cache_step pre c0) op = Some (p, k, e)"
    using entry_run [OF inv _ ent] emp by (auto simp: entry_of_def map_get_Nil)
  let ?c = "run cache_step pre c0"
  consider (store) sel' t1 t2 where "op = SetParameter p v sel' t1 t2" "selectorKey sel' = Inr k" "now < t1 + rc_ttlMs c0"
    | (guarded) g ver lab t1 t2 rg where "op = CacheIfUnchanged g ver lab v t1 t2" "isCurrent ?c g ParameterKind"
        "rc_reads ?c g = Some rg" "rg_path rg = p" "selectorKey (positionalSelector ver lab) = Inr k"
        "now < t1 + rc_ttlMs c0"
    using wr e by (cases op) (auto simp: limits_run split: sum.splits if_splits option.splits)
  then show ?thesis
  proof cases
    case store
    then show ?thesis using ops k by (intro exI [of _ pre] exI [of _ op] exI [of _ post]) auto
  next
    case guarded
    obtain start mid where "pre = start @ BeginRead p # mid"
      "fst (beginParameterRead p (run cache_step start c0)) = Some g" "\<forall>o' \<in> set mid. \<not> op_invalidates o' p"
      using current_origin [OF inv emp(2) guarded(2,3)] guarded(4) by auto
    then show ?thesis using ops guarded k
      by - (rule exI [of _ pre], rule exI [of _ op], rule exI [of _ post],
          rule exI [of _ "positionalSelector ver lab"], rule exI [of _ t1], rule exI [of _ t2], simp, blast)
  qed
qed

theorem hit_provenance_witness:
  "\<exists>pre op post sel' t1 t2. [BeginRead ''a/b/k'', CacheIfUnchanged 2 0 [] ''v'' 10 11] = pre @ op # post \<and>
    (\<forall>o' \<in> set post. \<not> op_invalidates o' ''a/b/k'') \<and>
    selectorKey sel' = selectorKey (positionalSelector 0 []) \<and> 20 < t1 + rc_ttlMs small_cache \<and>
    (op = SetParameter ''a/b/k'' ''v'' sel' t1 t2 \<or>
     (\<exists>start mid g ver lab. op = CacheIfUnchanged g ver lab ''v'' t1 t2 \<and> sel' = positionalSelector ver lab \<and>
        pre = start @ BeginRead ''a/b/k'' # mid \<and>
        fst (beginParameterRead ''a/b/k'' (run cache_step start small_cache)) = Some g \<and>
        (\<forall>o' \<in> set mid. \<not> op_invalidates o' ''a/b/k'')))"
proof (rule hit_provenance [OF new_small_cache])
  show "fst (getParameter ''a/b/k'' (positionalSelector 0 []) 20
    (run cache_step [BeginRead ''a/b/k'', CacheIfUnchanged 2 0 [] ''v'' 10 11] small_cache)) = Inr (Some ''v'')"
    by (simp add: small_simps)
qed

text \<open>C11: the size the cache reports is the number of entries it retains, and it never exceeds the
  configured bound, after any sequence of operations.\<close>

theorem cache_size_exact:
  assumes "newReadCache ttl mx = Inr c0"
  shows "parameterSize (run cache_step ops c0) = entry_total (rc_parameters (run cache_step ops c0)) \<and>
    parameterSize (run cache_step ops c0) \<le> rc_maxEntries c0"
proof -
  have "cache_inv (run cache_step ops c0)" using cache_sys.inv_run cache_inv_new [OF assms] by blast
  then show ?thesis by (simp add: cache_inv_def entry_inv_def parameterSize_def limits_run)
qed

theorem cache_size_exact_witness:
  "let c = run cache_step [SetParameter ''a/b/p'' ''x'' (positionalSelector 0 []) 0 0, SetParameter ''a/b/q'' ''y'' (positionalSelector 0 []) 1 1,
       SetParameter ''a/b/r'' ''z'' (positionalSelector 0 []) 2 2, InvalidateParameter ''a/b/q''] small_cache
   in parameterSize c = entry_total (rc_parameters c) \<and> parameterSize c \<le> 2 \<and> parameterSize c = 1"
proof -
  let ?ops = "[SetParameter ''a/b/p'' ''x'' (positionalSelector 0 []) 0 0, SetParameter ''a/b/q'' ''y'' (positionalSelector 0 []) 1 1,
       SetParameter ''a/b/r'' ''z'' (positionalSelector 0 []) 2 2, InvalidateParameter ''a/b/q'']"
  have "parameterSize (run cache_step ?ops small_cache) = 1"
    by (simp add: small_simps parameterSize_def evict_oldest.simps drop_expired_def expired_count_def invalidateParameter_def
        invalidateGeneration_def)
  then show ?thesis using cache_size_exact [OF new_small_cache, of ?ops] unfolding Let_def by (simp only: small_cache_def) simp
qed

lemma getParameter_misses:
  "cache_enabled c \<Longrightarrow> selectorKey sel = Inr k \<Longrightarrow> entry_of (rc_parameters c) p k = None \<Longrightarrow> fst (getParameter p sel now c) = Inr None"
  by (auto simp: getParameter_def cache_get_def entry_of_def bind_eq_None_conv split: option.splits)

text \<open>C12: whether a store is found again, exactly. In every reachable cache that is enabled, a store with a valid
  selector is followed by lookups that return its value until its lifetime ends, except when the cache is full,
  nothing in it has expired, the bucket of the path is there but empty, and no older bucket holds an entry: then the
  store evicts the entry it has just written, and the lookup misses. A store with an invalid selector fails, keeps every
  entry, and leaves such an empty bucket behind when the path had none.\<close>

theorem empty_bucket_loses_write:
  assumes "newReadCache ttl mx = Inr c0" "c = run cache_step ops c0" "cache_enabled c"
    and "selectorKey sel = Inr k" "t2 < t1 + rc_ttlMs c" "now < t1 + rc_ttlMs c" "selectorKey bad = Inl e"
  shows "fst (getParameter p sel now (snd (setParameter p v sel t1 t2 c))) =
      Inr (if rc_parameterCount c = rc_maxEntries c \<and> expired_count t2 (rc_parameters c) = 0 \<and>
          (\<exists>before after. rc_parameters c = before @ (p, []) # after \<and> (\<forall>b \<in> set before. snd b = []))
        then None else Some v) \<and>
    setParameter p v bad t1 t2 c = (Inl e, c\<lparr>rc_parameters := rc_parameters c @ (if map_has (rc_parameters c) p then [] else [(p, [])])\<rparr>)"
proof -
  have inv: "cache_inv c" using cache_sys.inv_run cache_inv_new [OF assms(1)] assms(2) by blast
  let ?c = "snd (setParameter p v sel t1 t2 c)"
  have on: "cache_enabled ?c" using assms(3) frame_current(2) [of p v sel t1 t2 c] by (simp add: cache_enabled_def)
  have "fst (getParameter p sel now ?c) = Inr (if lost_write c p t2 then None else Some v)"
    using setParameter_stored [OF inv assms(3,4,5), of p v] getParameter_found [OF on assms(4)] getParameter_misses [OF on assms(4)] assms(6)
    by (auto split: if_splits)
  moreover have "setParameter p v bad t1 t2 c =
      (Inl e, c\<lparr>rc_parameters := rc_parameters c @ (if map_has (rc_parameters c) p then [] else [(p, [])])\<rparr>)"
    using assms(3,7) by (simp add: setParameter_def cache_set_def Let_def map_has_get map_get_None map_set_absent)
  ultimately show ?thesis unfolding lost_write_def by blast
qed

text \<open>With room for two entries: a failed store for P, stores for Q and R, and a store for P that is lost.\<close>

definition lossy_ops :: "cache_op list" where
  "lossy_ops = [SetParameter ''a/b/p'' ''x'' (positionalSelector (- 1) []) 0 0, SetParameter ''a/b/q'' ''y'' (positionalSelector 0 []) 0 0,
     SetParameter ''a/b/r'' ''y'' (positionalSelector 0 []) 0 0]"

lemma negative_selector: "\<exists>e. selectorKey (positionalSelector (- 1) []) = Inl e"
  by (simp add: selectorKey_def positionalSelector_def normalizeVersionRef_def)

lemma lossy_state:
  defines "c \<equiv> run cache_step lossy_ops small_cache"
  shows "cache_enabled c" "rc_ttlMs c = 1000" "rc_parameterCount c = rc_maxEntries c" "expired_count 0 (rc_parameters c) = 0"
    "\<exists>after. rc_parameters c = (''a/b/p'', []) # after"
proof -
  obtain e where e: "selectorKey (positionalSelector (- 1) []) = Inl e" using negative_selector ..
  have c: "c = small_cache\<lparr>rc_parameters := [(''a/b/p'', []), (''a/b/q'', [(''0'' @ [nul], \<lparr>ce_value = ''y'', ce_expiresAt = 1000\<rparr>)]),
      (''a/b/r'', [(''0'' @ [nul], \<lparr>ce_value = ''y'', ce_expiresAt = 1000\<rparr>)])], rc_parameterCount := 2\<rparr>"
    by (simp add: c_def lossy_ops_def small_simps e)
  show "cache_enabled c" "rc_ttlMs c = 1000" "rc_parameterCount c = rc_maxEntries c" "expired_count 0 (rc_parameters c) = 0"
    "\<exists>after. rc_parameters c = (''a/b/p'', []) # after"
    unfolding c by (simp_all add: small_cache_def cache_enabled_def expired_count_def)
qed

theorem empty_bucket_loses_write_witness:
  "fst (getParameter ''a/b/p'' (positionalSelector 0 []) 0
     (snd (setParameter ''a/b/p'' ''z'' (positionalSelector 0 []) 0 0 (run cache_step lossy_ops small_cache)))) = Inr None"
proof -
  let ?c = "run cache_step lossy_ops small_cache"
  obtain e where e: "selectorKey (positionalSelector (- 1) []) = Inl e" using negative_selector ..
  obtain after where a: "rc_parameters ?c = [] @ (''a/b/p'', []) # after" using lossy_state(5) by auto
  have t: "0 < 0 + rc_ttlMs ?c" by (simp add: lossy_state(2))
  have "\<exists>before after. rc_parameters ?c = before @ (''a/b/p'', []) # after \<and> (\<forall>b \<in> set before. snd b = [])"
    by (rule exI [of _ "[]"], rule exI [of _ after]) (use a in simp)
  then show ?thesis
    using empty_bucket_loses_write [OF new_small_cache refl lossy_state(1) selectorKey_latest t t e, of "''a/b/p''" "''z''"] lossy_state(3,4)
    by (simp only: simp_thms if_True)
qed

end
