(* ===== verification/Watch_Correct.thy ===== *)
theory Watch_Correct
  imports Watch Cache_Correct
begin

text \<open>
  Correctness of the watch manager: reference counts are exact, update handlers never miss a
  change, reconciliation never overtakes the live stream, and a full snapshot precedes every
  resumed stream.
\<close>

section \<open>What a value update may touch\<close>

definition vframe :: "watch_mgr \<Rightarrow> watch_mgr \<Rightarrow> bool" where
  "vframe w w' \<longleftrightarrow> w'\<lparr>wm_known := wm_known w, wm_cache := wm_cache w, wm_out := wm_out w\<rparr> = w"

lemma vframe_refl [simp]: "vframe w w"
  by (simp add: vframe_def)

lemma vframe_trans: "vframe w w' \<Longrightarrow> vframe w' w'' \<Longrightarrow> vframe w w''"
  by (cases w; cases w'; cases w'') (simp add: vframe_def)

lemma vframe_fields:
  assumes "vframe w w'"
  shows "wm_namespaces w' = wm_namespaces w" "wm_namespaceRefCounts w' = wm_namespaceRefCounts w"
    "wm_parameterHandlers w' = wm_parameterHandlers w" "wm_handlerSets w' = wm_handlerSets w"
    "wm_nextHandlerSet w' = wm_nextHandlerSet w" "wm_watchers w' = wm_watchers w"
    "wm_watcherStops w' = wm_watcherStops w" "wm_streamNamespaces w' = wm_streamNamespaces w"
    "wm_nextWatcherId w' = wm_nextWatcherId w" "wm_lastRevision w' = wm_lastRevision w"
    "wm_state w' = wm_state w" "wm_started w' = wm_started w" "wm_stopped w' = wm_stopped w"
    "wm_stopping w' = wm_stopping w" "wm_aborted w' = wm_aborted w"
    "wm_namespaceGeneration w' = wm_namespaceGeneration w"
    "wm_snapshotGeneration w' = wm_snapshotGeneration w" "wm_run w' = wm_run w" "wm_recon w' = wm_recon w"
    "wm_registrations w' = wm_registrations w" "wm_nextRegistration w' = wm_nextRegistration w"
  using assms by (cases w; cases w'; simp add: vframe_def)+

lemma vframe_updates [simp]:
  "vframe w (w'\<lparr>wm_known := k\<rparr>) = vframe w w'" "vframe w (w'\<lparr>wm_cache := c\<rparr>) = vframe w w'"
  "vframe w (emit os w') = vframe w w'" "vframe w (fireWatchers ns ev w') = vframe w w'"
  by (cases w; cases w'; simp add: vframe_def fireWatchers_def emit_def)+

lemma vframe_setValue [simp]: "vframe w (setValue path value present version revision rec w') = vframe w w'"
  by (simp add: setValue_def Let_def split: option.split)

lemma vframe_drop_absent [simp]: "vframe w (drop_absent ps r path w') = vframe w w'"
  by (simp add: drop_absent_def split: option.split)

lemma vframe_fold_iff: "(\<And>x w'. vframe w (f x w') = vframe w w') \<Longrightarrow> vframe w (fold f xs w') = vframe w w'"
  by (induction xs arbitrary: w') auto

lemma vframe_applySnapshot [simp]: "vframe w (applySnapshot snap r w') = vframe w w'"
  by (simp add: applySnapshot_def Let_def vframe_fold_iff split_beta)

lemma vframe_applyChange [simp]: "vframe w (applyChange ch r w') = vframe w w'"
  by (simp add: applyChange_def Let_def split: option.split)

lemma vframe_applySecretChange [simp]: "vframe w (applySecretChange ch r w') = vframe w w'"
  by (simp add: applySecretChange_def Let_def split: option.split)

lemma vframe_reconcile_absent [simp]: "vframe w (reconcile_absent rn path w') = vframe w w'"
  by (simp add: reconcile_absent_def Let_def split: option.split)

lemma vframe_reconcile [simp]: "vframe w (snd (reconcile rn w')) = vframe w w'"
  by (simp add: reconcile_def Let_def vframe_fold_iff)

section \<open>The effect of setting a value\<close>

definition set_allowed :: "watch_mgr \<Rightarrow> string \<Rightarrow> int \<Rightarrow> bool \<Rightarrow> bool" where
  "set_allowed w path revision rec \<longleftrightarrow>
     \<not> (rec \<and> revision < wm_lastRevision w) \<and>
     (case map_get (wm_known w) path of None \<Rightarrow> True
      | Some k \<Rightarrow> revisionAllowsWrite (kv_revision k) revision rec)"

lemma setValue_rejected: "\<not> set_allowed w path revision rec \<Longrightarrow>
    setValue path value present version revision rec w = w"
  by (auto simp: setValue_def set_allowed_def Let_def split: option.splits)

lemma setValue_known_other:
  "q \<noteq> path \<Longrightarrow> map_get (wm_known (setValue path value present version revision rec w)) q = map_get (wm_known w) q"
  by (auto simp: setValue_def Let_def emit_def fireWatchers_def split: option.splits)

text \<open>The entry after an accepted update: the new value, or nothing for a tombstone nobody follows.\<close>

lemma setValue_known_same:
  assumes "set_allowed w path revision rec"
  shows "map_option (\<lambda>k. (kv_value k, kv_present k)) (map_get (wm_known (setValue path value present version revision rec w)) path) =
    (if \<not> present \<and> \<not> map_has (wm_parameterHandlers w) path \<and>
        (refOf path \<noteq> None \<or> \<not> value_changed (map_get (wm_known w) path) present value)
     then None else Some (if present then value else [], present))"
  using assms
  by (auto simp: setValue_def set_allowed_def Let_def emit_def fireWatchers_def split: option.splits)

lemma setValue_revision:
  assumes "map_get (wm_known w) q = Some k"
    and "map_get (wm_known (setValue path value present version revision rec w)) q = Some k'"
  shows "kv_revision k \<le> kv_revision k'"
  using assms
  by (cases "q = path")
    (auto simp: setValue_known_other, auto simp: setValue_def Let_def emit_def fireWatchers_def split: option.splits if_splits)

lemma setValue_cache:
  "wm_cache (setValue path value present version revision rec w) =
    (if set_allowed w path revision rec \<and> value_changed (map_get (wm_known w) path) present value
     then invalidateParameter path (wm_cache w) else wm_cache w)"
  by (auto simp: setValue_def set_allowed_def Let_def emit_def fireWatchers_def split: option.splits)

section \<open>Reference counts\<close>

definition users :: "watch_mgr \<Rightarrow> string \<Rightarrow> nat" where
  "users w key =
     length (filter (\<lambda>e. namespaceKey (rr_namespace (reg_ref (snd e))) = key) (wm_registrations w)) +
     length (filter (\<lambda>e. namespaceKey (snd e) = key) (wm_watcherStops w))"

definition counts_ok :: "(string \<Rightarrow> nat) \<Rightarrow> watch_mgr \<Rightarrow> bool" where
  "counts_ok U w \<longleftrightarrow> map_ok (wm_namespaceRefCounts w) \<and> map_ok (wm_namespaces w) \<and>
     (\<forall>key. map_get (wm_namespaceRefCounts w) key = (if U key = 0 then None else Some (int (U key)))) \<and>
     (\<forall>key. map_get (wm_namespaces w) key = None \<longleftrightarrow> U key = 0) \<and>
     (\<forall>key ns. map_get (wm_namespaces w) key = Some ns \<longrightarrow> namespaceKey ns = key)"

definition ids_ok :: "watch_mgr \<Rightarrow> bool" where
  "ids_ok w \<longleftrightarrow> map_ok (wm_registrations w) \<and> map_ok (wm_watcherStops w) \<and>
     (\<forall>h \<in> fst ` set (wm_registrations w). h < wm_nextRegistration w) \<and>
     (\<forall>i \<in> fst ` set (wm_watcherStops w). i < wm_nextWatcherId w)"

definition ns_inv :: "watch_mgr \<Rightarrow> bool" where
  "ns_inv w \<longleftrightarrow> counts_ok (users w) w \<and> ids_ok w"

lemma length_filter_set:
  "h \<notin> fst ` set m \<Longrightarrow> length (filter P (map_set h v m)) = length (filter P m) + (if P (h, v) then 1 else 0)"
  by (simp add: map_set_absent)

lemma length_filter_del:
  "map_ok m \<Longrightarrow> map_get m h = Some v \<Longrightarrow>
   length (filter P m) = length (filter P (map_del h m)) + (if P (h, v) then 1 else 0)"
  by (induction m) (auto simp: map_del_Cons map_get_Cons map_del_absent split: if_splits dest: map_get_in)

lemma namespaceKey_fields [simp]:
  "namespaceKey \<lparr>ns_env = ns_env ns, ns_app = ns_app ns\<rparr> = namespaceKey ns"
  by (simp add: namespaceKey_def)

lemma retain_counts:
  assumes "counts_ok U w"
  shows "counts_ok (U(namespaceKey ns := Suc (U (namespaceKey ns)))) (snd (retainNamespace ns w))"
  using assms
  by (auto simp: retainNamespace_def counts_ok_def Let_def scopeChanged_def jsmap_ok split: if_splits)

lemma release_counts:
  assumes "counts_ok U w" "U (namespaceKey ns) = Suc n"
  shows "counts_ok (U(namespaceKey ns := n)) (snd (releaseNamespace ns w))"
  using assms
  by (auto simp: releaseNamespace_def counts_ok_def Let_def scopeChanged_def jsmap_ok split: if_splits)

lemma counts_ok_upd [simp]:
  "counts_ok U (wm_known_update f1 w) = counts_ok U w" "counts_ok U (wm_cache_update f2 w) = counts_ok U w"
  "counts_ok U (wm_out_update f3 w) = counts_ok U w" "counts_ok U (wm_registrations_update f4 w) = counts_ok U w"
  "counts_ok U (wm_watcherStops_update f5 w) = counts_ok U w" "counts_ok U (wm_watchers_update f6 w) = counts_ok U w"
  "counts_ok U (wm_parameterHandlers_update f7 w) = counts_ok U w" "counts_ok U (wm_handlerSets_update f8 w) = counts_ok U w"
  "counts_ok U (wm_nextHandlerSet_update f9 w) = counts_ok U w" "counts_ok U (wm_nextRegistration_update g1 w) = counts_ok U w"
  "counts_ok U (wm_nextWatcherId_update g2 w) = counts_ok U w" "counts_ok U (ensureStarted w) = counts_ok U w"
  "counts_ok U (restart w) = counts_ok U w" "counts_ok U (emit os w) = counts_ok U w"
  by (simp_all add: counts_ok_def ensureStarted_def restart_def emit_def)

text \<open>What the namespace operations leave alone.\<close>

lemma retain_and_start_fields [simp]:
  "wm_registrations (retain_and_start ns w) = wm_registrations w"
  "wm_watcherStops (retain_and_start ns w) = wm_watcherStops w"
  "wm_watchers (retain_and_start ns w) = wm_watchers w"
  "wm_nextRegistration (retain_and_start ns w) = wm_nextRegistration w"
  "wm_nextWatcherId (retain_and_start ns w) = wm_nextWatcherId w"
  "wm_parameterHandlers (retain_and_start ns w) = wm_parameterHandlers w"
  "wm_handlerSets (retain_and_start ns w) = wm_handlerSets w"
  "wm_nextHandlerSet (retain_and_start ns w) = wm_nextHandlerSet w"
  "wm_known (retain_and_start ns w) = wm_known w"
  "wm_out (retain_and_start ns w) = wm_out w"
  "wm_stopped (retain_and_start ns w) = wm_stopped w"
  "wm_stopping (retain_and_start ns w) = wm_stopping w"
  "wm_lastRevision (retain_and_start ns w) = wm_lastRevision w"
  "wm_state (retain_and_start ns w) = wm_state w"
  "wm_aborted (retain_and_start ns w) = wm_aborted w"
  "wm_cache (retain_and_start ns w) = wm_cache w"
  "wm_snapshotGeneration (retain_and_start ns w) = wm_snapshotGeneration w"
  "wm_streamNamespaces (retain_and_start ns w) = wm_streamNamespaces w"
  by (simp_all add: retain_and_start_def retainNamespace_def ensureStarted_def restart_def scopeChanged_def
      invalidateSecretsInNamespaces_def Let_def split: prod.split)

lemma release_and_restart_fields [simp]:
  "wm_registrations (release_and_restart ns w) = wm_registrations w"
  "wm_watcherStops (release_and_restart ns w) = wm_watcherStops w"
  "wm_watchers (release_and_restart ns w) = wm_watchers w"
  "wm_nextRegistration (release_and_restart ns w) = wm_nextRegistration w"
  "wm_nextWatcherId (release_and_restart ns w) = wm_nextWatcherId w"
  "wm_parameterHandlers (release_and_restart ns w) = wm_parameterHandlers w"
  "wm_handlerSets (release_and_restart ns w) = wm_handlerSets w"
  "wm_nextHandlerSet (release_and_restart ns w) = wm_nextHandlerSet w"
  "wm_out (release_and_restart ns w) = wm_out w"
  "wm_stopped (release_and_restart ns w) = wm_stopped w"
  "wm_stopping (release_and_restart ns w) = wm_stopping w"
  "wm_lastRevision (release_and_restart ns w) = wm_lastRevision w"
  "wm_state (release_and_restart ns w) = wm_state w"
  "wm_aborted (release_and_restart ns w) = wm_aborted w"
  "wm_cache (release_and_restart ns w) = wm_cache w"
  "wm_run (release_and_restart ns w) = wm_run w"
  "wm_recon (release_and_restart ns w) = wm_recon w"
  "wm_snapshotGeneration (release_and_restart ns w) = wm_snapshotGeneration w"
  "wm_streamNamespaces (release_and_restart ns w) = wm_streamNamespaces w"
  by (auto simp: release_and_restart_def releaseNamespace_def restart_def scopeChanged_def
      Let_def split: prod.split option.splits)

section \<open>Update handlers\<close>

fun see :: "nat \<Rightarrow> watch_out \<Rightarrow> (string \<times> bool) option \<Rightarrow> (string \<times> bool) option" where
  "see h (Registered h' v) acc = (if h' = h then Some (v, True) else acc)"
| "see h (HandlerCall h' v b) acc = (if h' = h then Some (v, b) else acc)"
| "see h _ acc = acc"

text \<open>The value the owner of a registration last saw: its initial one, or the last handler call.\<close>

definition seen :: "watch_mgr \<Rightarrow> nat \<Rightarrow> (string \<times> bool) option" where
  "seen w h = fold (see h) (wm_out w) None"

definition reg_inv :: "watch_mgr \<Rightarrow> bool" where
  "reg_inv w \<longleftrightarrow>
     (\<forall>p s. map_get (wm_parameterHandlers w) p = Some s \<longrightarrow> s < wm_nextHandlerSet w) \<and>
     (\<forall>p q s. map_get (wm_parameterHandlers w) p = Some s \<longrightarrow> map_get (wm_parameterHandlers w) q = Some s \<longrightarrow> p = q) \<and>
     (\<forall>h r. map_get (wm_registrations w) h = Some r \<longrightarrow> ref_ok (reg_ref r) \<and>
        map_get (wm_parameterHandlers w) (displayPath (reg_ref r)) = Some (reg_handlers r) \<and>
        h \<in> set (wm_handlerSets w (reg_handlers r))) \<and>
     (\<forall>p s h. map_get (wm_parameterHandlers w) p = Some s \<longrightarrow> h \<in> set (wm_handlerSets w s) \<longrightarrow>
        (\<exists>r. map_get (wm_registrations w) h = Some r \<and> reg_handlers r = s))"

definition seen_inv :: "watch_mgr \<Rightarrow> bool" where
  "seen_inv w \<longleftrightarrow>
     (\<forall>p kv. map_get (wm_known w) p = Some kv \<longrightarrow> \<not> kv_present kv \<longrightarrow> kv_value kv = []) \<and>
     (\<forall>h r. map_get (wm_registrations w) h = Some r \<longrightarrow>
        (\<exists>kv. map_get (wm_known w) (displayPath (reg_ref r)) = Some kv \<and>
              seen w h = Some (kv_value kv, kv_present kv)))"

lemma see_calls: "fold (see h) (map (\<lambda>h'. HandlerCall h' v b) hs) acc = (if h \<in> set hs then Some (v, b) else acc)"
  by (induction hs arbitrary: acc) auto

lemma see_dispatches: "fold (see h) (map (\<lambda>e. Dispatch p (f e) ev) es) acc = acc"
  by (induction es) auto

lemma seen_emit: "seen (emit os w) h = fold (see h) os (seen w h)"
  by (simp add: seen_def emit_def)

lemma seen_fire [simp]: "seen (fireWatchers ns ev w) h = seen w h"
  by (simp add: fireWatchers_def seen_emit see_dispatches)

lemma seen_upd [simp]:
  "seen (wm_known_update f1 w) = seen w" "seen (wm_cache_update f2 w) = seen w"
  "seen (wm_registrations_update f3 w) = seen w" "seen (wm_parameterHandlers_update f4 w) = seen w"
  "seen (wm_handlerSets_update f5 w) = seen w" "seen (wm_nextHandlerSet_update f6 w) = seen w"
  "seen (wm_nextRegistration_update f7 w) = seen w" "seen (wm_watcherStops_update f8 w) = seen w"
  "seen (wm_watchers_update f9 w) = seen w" "seen (wm_nextWatcherId_update g1 w) = seen w"
  "seen (retain_and_start ns w) = seen w" "seen (release_and_restart ns w) = seen w"
  by (simp_all add: seen_def fun_eq_iff)

lemma handlers_of_upd [simp]:
  "handlers_of (wm_known_update f1 w) = handlers_of w" "handlers_of (wm_cache_update f2 w) = handlers_of w"
  by (auto simp: handlers_of_def fun_eq_iff split: option.split)

lemma seen_setValue:
  "seen (setValue path value present version revision rec w) h =
    (if set_allowed w path revision rec \<and> value_changed (map_get (wm_known w) path) present value \<and>
        h \<in> set (handlers_of w path) then Some (value, present) else seen w h)"
  by (auto simp: setValue_def set_allowed_def Let_def seen_emit see_calls split: option.splits)

lemma reg_inv_vframe: "vframe w w' \<Longrightarrow> reg_inv w' = reg_inv w"
  by (simp add: reg_inv_def vframe_fields)

lemma ns_inv_vframe: "vframe w w' \<Longrightarrow> ns_inv w' = ns_inv w"
  by (simp add: ns_inv_def counts_ok_def ids_ok_def users_def vframe_fields)

lemma reg_invD:
  assumes "reg_inv w"
  shows "map_get (wm_parameterHandlers w) p = Some s \<Longrightarrow> s < wm_nextHandlerSet w"
    "map_get (wm_parameterHandlers w) p = Some s \<Longrightarrow> map_get (wm_parameterHandlers w) q = Some s \<Longrightarrow> p = q"
    "map_get (wm_registrations w) h = Some r \<Longrightarrow> ref_ok (reg_ref r)"
    "map_get (wm_registrations w) h = Some r \<Longrightarrow>
       map_get (wm_parameterHandlers w) (displayPath (reg_ref r)) = Some (reg_handlers r)"
    "map_get (wm_registrations w) h = Some r \<Longrightarrow> h \<in> set (wm_handlerSets w (reg_handlers r))"
    "map_get (wm_parameterHandlers w) p = Some s \<Longrightarrow> h \<in> set (wm_handlerSets w s) \<Longrightarrow>
       \<exists>r. map_get (wm_registrations w) h = Some r \<and> reg_handlers r = s"
  using assms unfolding reg_inv_def by blast+

lemma handlers_of_iff:
  assumes "reg_inv w" "map_get (wm_registrations w) h = Some r"
  shows "h \<in> set (handlers_of w path) \<longleftrightarrow> displayPath (reg_ref r) = path"
proof
  assume "h \<in> set (handlers_of w path)"
  then obtain s where s: "map_get (wm_parameterHandlers w) path = Some s" "h \<in> set (wm_handlerSets w s)"
    by (cases "map_get (wm_parameterHandlers w) path") (auto simp: handlers_of_def)
  then have "reg_handlers r = s" using assms by (fastforce simp: reg_inv_def)
  then show "displayPath (reg_ref r) = path" using assms s(1) unfolding reg_inv_def by blast
next
  assume "displayPath (reg_ref r) = path"
  then show "h \<in> set (handlers_of w path)" using assms by (auto simp: reg_inv_def handlers_of_def)
qed

lemma seen_inv_setValue:
  assumes "reg_inv w" "seen_inv w" "present \<or> value = []"
  shows "seen_inv (setValue path value present version revision rec w)" (is "seen_inv ?w")
proof (cases "set_allowed w path revision rec")
  case False
  then show ?thesis using assms by (simp add: setValue_rejected)
next
  case True
  have vf: "vframe w ?w" by simp
  note now = setValue_known_same [OF True, of "value" present version]
  have "kv_value kv = []" if "map_get (wm_known ?w) p = Some kv" "\<not> kv_present kv" for p kv
    using that assms(2) now by (cases "p = path") (auto simp: setValue_known_other seen_inv_def split: if_splits)
  moreover have "\<exists>kv. map_get (wm_known ?w) (displayPath (reg_ref r)) = Some kv \<and>
      seen ?w h = Some (kv_value kv, kv_present kv)" if r: "map_get (wm_registrations w) h = Some r" for h r
  proof -
    let ?p = "displayPath (reg_ref r)"
    obtain kv where kv: "map_get (wm_known w) ?p = Some kv" "seen w h = Some (kv_value kv, kv_present kv)"
      using assms(2) r unfolding seen_inv_def by blast
    have has: "map_has (wm_parameterHandlers w) ?p" using assms(1) r by (auto simp: reg_inv_def map_has_get)
    have empty: "\<not> kv_present kv \<Longrightarrow> kv_value kv = []" using assms(2) kv by (auto simp: seen_inv_def)
    show ?thesis
    proof (cases "?p = path")
      case False
      then show ?thesis using kv handlers_of_iff [OF assms(1) r] by (simp add: setValue_known_other seen_setValue)
    next
      case same: True
      obtain kv' where "map_get (wm_known ?w) ?p = Some kv'" "kv_value kv' = (if present then value else [])"
        "kv_present kv' = present"
        using now same has by auto
      then show ?thesis
        using True kv same handlers_of_iff [OF assms(1) r] empty assms(3)
        by (auto simp: seen_setValue value_changed_def)
    qed
  qed
  ultimately show ?thesis by (auto simp: seen_inv_def vframe_fields [OF vf])
qed

section \<open>Registering and releasing\<close>

lemma retain_and_start_counts:
  "counts_ok U w \<Longrightarrow> counts_ok (U(namespaceKey ns := Suc (U (namespaceKey ns)))) (retain_and_start ns w)"
  using retain_counts [of U w ns] by (auto simp: retain_and_start_def Let_def split: prod.split)

lemma release_and_restart_counts:
  "counts_ok U w \<Longrightarrow> U (namespaceKey ns) = Suc n \<Longrightarrow> counts_ok (U(namespaceKey ns := n)) (release_and_restart ns w)"
  using release_counts [of U w ns n] by (auto simp: release_and_restart_def split: prod.split)

lemma release_known:
  assumes "counts_ok U w" "U (namespaceKey ns) = Suc n"
  shows "map_get (wm_known (release_and_restart ns w)) p =
    (if n = 0 \<and> known_in (namespaceKey ns) p then None else map_get (wm_known w) p) \<or>
    map_get (wm_known (release_and_restart ns w)) p = map_get (wm_known w) p"
  using assms
  by (auto simp: release_and_restart_def releaseNamespace_def counts_ok_def Let_def restart_def scopeChanged_def
      map_get_filter_key [of "\<lambda>q. \<not> known_in (namespaceKey ns) q"] split: if_splits)

lemma known_in_displayPath: "ref_ok r \<Longrightarrow> known_in key (displayPath r) \<longleftrightarrow> namespaceKey (rr_namespace r) = key"
  using refOf_Some [of "displayPath r" r] by (simp add: known_in_def)

lemma users_add_registration:
  "h \<notin> fst ` set (wm_registrations w) \<Longrightarrow>
   users (w\<lparr>wm_registrations := map_set h r (wm_registrations w)\<rparr>) =
     (users w)(namespaceKey (rr_namespace (reg_ref r)) := Suc (users w (namespaceKey (rr_namespace (reg_ref r)))))"
  by (auto simp: users_def length_filter_set fun_eq_iff)

lemma users_add_watcher:
  "i \<notin> fst ` set (wm_watcherStops w) \<Longrightarrow>
   users (w\<lparr>wm_watcherStops := map_set i ns (wm_watcherStops w)\<rparr>) =
     (users w)(namespaceKey ns := Suc (users w (namespaceKey ns)))"
  by (auto simp: users_def length_filter_set fun_eq_iff)

lemma users_drop_registration:
  assumes "map_ok (wm_registrations w)" "map_get (wm_registrations w) h = Some r"
    and "key = namespaceKey (rr_namespace (reg_ref r))"
    and "w' = w\<lparr>wm_registrations := map_del h (wm_registrations w)\<rparr>"
  shows "users w key = Suc (users w' key)" "users w' = (users w)(key := users w' key)"
  using assms length_filter_del [OF assms(1,2)] by (auto simp: users_def fun_eq_iff)

lemma users_drop_watcher:
  assumes "map_ok (wm_watcherStops w)" "map_get (wm_watcherStops w) i = Some ns"
    and "w' = w\<lparr>wm_watcherStops := map_del i (wm_watcherStops w)\<rparr>"
  shows "users w (namespaceKey ns) = Suc (users w' (namespaceKey ns))"
    "users w' = (users w)(namespaceKey ns := users w' (namespaceKey ns))"
  using assms length_filter_del [OF assms(1,2)] by (auto simp: users_def fun_eq_iff)

lemma users_upd [simp]:
  "users (wm_known_update f1 w) = users w" "users (wm_cache_update f2 w) = users w"
  "users (wm_out_update f3 w) = users w" "users (wm_parameterHandlers_update f4 w) = users w"
  "users (wm_handlerSets_update f5 w) = users w" "users (wm_nextHandlerSet_update f6 w) = users w"
  "users (wm_nextRegistration_update f7 w) = users w" "users (wm_watchers_update f8 w) = users w"
  "users (wm_nextWatcherId_update f9 w) = users w" "users (emit os w) = users w"
  "users (retain_and_start ns w) = users w" "users (release_and_restart ns w) = users w"
  by (simp_all add: users_def fun_eq_iff emit_def)

lemma users_registered:
  "map_get (wm_registrations w) h = Some r \<Longrightarrow> users w (namespaceKey (rr_namespace (reg_ref r))) \<noteq> 0"
  by (force simp: users_def filter_empty_conv dest!: map_get_in)

definition handler_set :: "watch_mgr \<Rightarrow> string \<Rightarrow> nat" where
  "handler_set w path =
     (case map_get (wm_parameterHandlers w) path of None \<Rightarrow> wm_nextHandlerSet w | Some s \<Rightarrow> s)"

lemma registerParameter_fields:
  defines "w' \<equiv> \<lambda>ref initial w. snd (registerParameter ref initial w)"
  shows "wm_registrations (w' ref initial w) = map_set (wm_nextRegistration w)
       \<lparr>reg_ref = ref, reg_handlers = handler_set w (displayPath ref)\<rparr> (wm_registrations w)"
    "wm_nextRegistration (w' ref initial w) = Suc (wm_nextRegistration w)"
    "wm_watcherStops (w' ref initial w) = wm_watcherStops w"
    "wm_nextWatcherId (w' ref initial w) = wm_nextWatcherId w"
    "wm_parameterHandlers (w' ref initial w) =
       map_set (displayPath ref) (handler_set w (displayPath ref)) (wm_parameterHandlers w)"
    "wm_handlerSets (w' ref initial w) = (wm_handlerSets w)
       (handler_set w (displayPath ref) := handlers_of w (displayPath ref) @ [wm_nextRegistration w])"
    "wm_nextHandlerSet w \<le> wm_nextHandlerSet (w' ref initial w)"
    "map_get (wm_parameterHandlers w) (displayPath ref) = None \<Longrightarrow>
       wm_nextHandlerSet w < wm_nextHandlerSet (w' ref initial w)"
    "wm_known (w' ref initial w) = (case map_get (wm_known w) (displayPath ref) of
        None \<Rightarrow> map_set (displayPath ref) \<lparr>kv_value = initial, kv_present = True, kv_revision = 0\<rparr> (wm_known w)
      | Some kv \<Rightarrow> wm_known w)"
    "seen (w' ref initial w) h = (if h = wm_nextRegistration w then
        (case map_get (wm_known w) (displayPath ref) of None \<Rightarrow> Some (initial, True)
         | Some kv \<Rightarrow> Some (kv_value kv, kv_present kv)) else seen w h)"
    "wm_stopped (w' ref initial w) = wm_stopped w" "wm_stopping (w' ref initial w) = wm_stopping w"
    "wm_lastRevision (w' ref initial w) = wm_lastRevision w" "wm_state (w' ref initial w) = wm_state w"
    "wm_aborted (w' ref initial w) = wm_aborted w"
    "wm_snapshotGeneration (w' ref initial w) = wm_snapshotGeneration w"
    "wm_streamNamespaces (w' ref initial w) = wm_streamNamespaces w" "wm_cache (w' ref initial w) = wm_cache w"
  by (auto simp: w'_def registerParameter_def Let_def emit_def handler_set_def handlers_of_def map_set_same
      seen_def split: option.split)

lemma registerParameter_counts:
  "counts_ok U w \<Longrightarrow> counts_ok (U(namespaceKey (rr_namespace ref) := Suc (U (namespaceKey (rr_namespace ref)))))
     (snd (registerParameter ref initial w))"
  by (auto simp: registerParameter_def Let_def intro!: retain_and_start_counts split: option.split)

lemma ns_inv_register: "ns_inv w \<Longrightarrow> ns_inv (snd (registerParameter ref initial w))"
proof -
  assume inv: "ns_inv w"
  then have fresh: "wm_nextRegistration w \<notin> fst ` set (wm_registrations w)"
    by (force simp: ns_inv_def ids_ok_def)
  let ?w = "snd (registerParameter ref initial w)"
  have "users ?w = users (w\<lparr>wm_registrations := map_set (wm_nextRegistration w)
      \<lparr>reg_ref = ref, reg_handlers = handler_set w (displayPath ref)\<rparr> (wm_registrations w)\<rparr>)"
    by (simp add: users_def registerParameter_fields fun_eq_iff)
  then have "counts_ok (users ?w) ?w"
    using registerParameter_counts [of "users w" w ref initial] inv fresh
    by (simp add: users_add_registration ns_inv_def)
  moreover have "ids_ok ?w"
    using inv by (auto simp: ns_inv_def ids_ok_def registerParameter_fields jsmap_ok less_SucI)
  ultimately show ?thesis by (simp add: ns_inv_def)
qed

lemma reg_inv_register:
  assumes "reg_inv w" "ns_inv w" "ref_ok ref"
  shows "reg_inv (snd (registerParameter ref initial w))"
proof -
  let ?w = "snd (registerParameter ref initial w)" and ?P = "displayPath ref"
  let ?s = "handler_set w ?P" and ?h = "wm_nextRegistration w"
  note fields = registerParameter_fields [where ref = ref and initial = initial and w = w]
  have fresh: "map_get (wm_registrations w) ?h = None"
    using assms(2) by (auto simp: ns_inv_def ids_ok_def map_get_None)
  have lt: "s < wm_nextHandlerSet w" if "map_get (wm_parameterHandlers w) p = Some s" for p s
    using assms(1) that by (auto simp: reg_inv_def)
  have s_new: "?s < wm_nextHandlerSet ?w"
    using lt fields(7,8) by (fastforce simp: handler_set_def split: option.split)
  have other: "map_get (wm_parameterHandlers w) p = Some ?s \<Longrightarrow> p = ?P" for p
    using assms(1) lt by (auto simp: handler_set_def reg_inv_def split: option.splits)
  have regs: "map_get (wm_registrations ?w) h = (if h = ?h then Some \<lparr>reg_ref = ref, reg_handlers = ?s\<rparr>
      else map_get (wm_registrations w) h)" for h
    by (simp add: fields)
  have hs: "handlers_of w ?P = (if map_get (wm_parameterHandlers w) ?P = None then [] else wm_handlerSets w ?s)"
    by (auto simp: handlers_of_def handler_set_def split: option.split)
  have r3: "ref_ok (reg_ref r) \<and> map_get (wm_parameterHandlers w) (displayPath (reg_ref r)) = Some (reg_handlers r) \<and>
      h \<in> set (wm_handlerSets w (reg_handlers r))" if "map_get (wm_registrations w) h = Some r" for h r
    using assms(1) that by (auto simp: reg_inv_def)
  have r4: "\<exists>r. map_get (wm_registrations w) h = Some r \<and> reg_handlers r = s"
    if "map_get (wm_parameterHandlers w) p = Some s" "h \<in> set (wm_handlerSets w s)" for p s h
    using assms(1) that by (auto simp: reg_inv_def)
  have a: "\<forall>p s. map_get (wm_parameterHandlers ?w) p = Some s \<longrightarrow> s < wm_nextHandlerSet ?w"
    using lt s_new fields(7) by (auto simp: fields(5) intro: less_le_trans)
  have b: "\<forall>p q s. map_get (wm_parameterHandlers ?w) p = Some s \<longrightarrow> map_get (wm_parameterHandlers ?w) q = Some s \<longrightarrow> p = q"
    using other assms(1) by (auto simp: fields(5) reg_inv_def)
  have c: "ref_ok (reg_ref r) \<and> map_get (wm_parameterHandlers ?w) (displayPath (reg_ref r)) = Some (reg_handlers r) \<and>
      h \<in> set (wm_handlerSets ?w (reg_handlers r))" if "map_get (wm_registrations ?w) h = Some r" for h r
  proof (cases "h = ?h")
    case True
    then show ?thesis using that assms(3) by (auto simp: regs fields(5,6))
  next
    case False
    then have old: "map_get (wm_registrations w) h = Some r" using that by (simp add: regs)
    note r = r3 [OF old]
    show ?thesis
    proof (cases "displayPath (reg_ref r) = ?P")
      case True
      then have "?s = reg_handlers r" "handlers_of w ?P = wm_handlerSets w (reg_handlers r)"
        using r by (simp_all add: handler_set_def handlers_of_def)
      then show ?thesis using r True by (simp add: fields(5,6))
    next
      case False
      then have "reg_handlers r \<noteq> ?s" using r other [of "displayPath (reg_ref r)"] by auto
      then show ?thesis using r False by (simp add: fields(5,6))
    qed
  qed
  have d: "\<exists>r. map_get (wm_registrations ?w) h = Some r \<and> reg_handlers r = s"
    if s: "map_get (wm_parameterHandlers ?w) p = Some s" and h: "h \<in> set (wm_handlerSets ?w s)" for p s h
  proof (cases "h = ?h")
    case True
    have "\<not> (map_get (wm_parameterHandlers w) p = Some s \<and> ?h \<in> set (wm_handlerSets w s))"
      using r4 fresh by fastforce
    then have "s = ?s" using True s h by (auto simp: fields(5,6) split: if_splits)
    then show ?thesis using True by (simp add: regs)
  next
    case False
    show ?thesis
    proof (cases "s = ?s")
      case True
      then have "map_get (wm_parameterHandlers w) ?P \<noteq> None" "h \<in> set (wm_handlerSets w ?s)"
        using h hs False by (auto simp: fields(6) split: if_splits)
      then have "map_get (wm_parameterHandlers w) ?P = Some ?s" "h \<in> set (wm_handlerSets w ?s)"
        by (auto simp: handler_set_def)
      from r4 [OF this] show ?thesis using True False by (simp add: regs)
    next
      case neq: False
      then have "map_get (wm_parameterHandlers w) p = Some s" "h \<in> set (wm_handlerSets w s)"
        using s h by (auto simp: fields(5,6) split: if_splits)
      from r4 [OF this] show ?thesis using False by (simp add: regs)
    qed
  qed
  show ?thesis using a b c d unfolding reg_inv_def by blast
qed

lemma seen_inv_register:
  assumes "seen_inv w" "ns_inv w"
  shows "seen_inv (snd (registerParameter ref initial w))"
proof -
  have fresh: "map_get (wm_registrations w) (wm_nextRegistration w) = None"
    using assms(2) by (auto simp: ns_inv_def ids_ok_def map_get_None)
  show ?thesis
    using assms(1) fresh unfolding seen_inv_def
    by (auto simp: registerParameter_fields split: option.splits if_splits) (metis option.distinct(1))+
qed

text \<open>Unregistering up to the release of the namespace.\<close>

definition drop_registration :: "nat \<Rightarrow> registration \<Rightarrow> watch_mgr \<Rightarrow> watch_mgr" where
  "drop_registration h r w =
     (let path = displayPath (reg_ref r);
          handlers = filter (\<lambda>x. x \<noteq> h) (wm_handlerSets w (reg_handlers r));
          w1 = w\<lparr>wm_registrations := map_del h (wm_registrations w),
                 wm_handlerSets := (wm_handlerSets w)(reg_handlers r := handlers)\<rparr>
      in if handlers = [] then
           let w' = w1\<lparr>wm_parameterHandlers := map_del path (wm_parameterHandlers w1)\<rparr>
           in if map_option kv_present (map_get (wm_known w') path) = Some False
              then w'\<lparr>wm_known := map_del path (wm_known w')\<rparr> else w'
         else w1)"

lemma unregisterParameter_drop:
  "unregisterParameter h w = (case map_get (wm_registrations w) h of None \<Rightarrow> w
     | Some r \<Rightarrow> release_and_restart (rr_namespace (reg_ref r)) (drop_registration h r w))"
  by (simp add: unregisterParameter_def drop_registration_def Let_def split: option.split)

lemma drop_registration_fields:
  "wm_registrations (drop_registration h r w) = map_del h (wm_registrations w)"
  "wm_watcherStops (drop_registration h r w) = wm_watcherStops w"
  "wm_nextRegistration (drop_registration h r w) = wm_nextRegistration w"
  "wm_nextWatcherId (drop_registration h r w) = wm_nextWatcherId w"
  "wm_nextHandlerSet (drop_registration h r w) = wm_nextHandlerSet w"
  "wm_handlerSets (drop_registration h r w) = (wm_handlerSets w)
     (reg_handlers r := filter (\<lambda>x. x \<noteq> h) (wm_handlerSets w (reg_handlers r)))"
  "wm_parameterHandlers (drop_registration h r w) =
     (if filter (\<lambda>x. x \<noteq> h) (wm_handlerSets w (reg_handlers r)) = []
      then map_del (displayPath (reg_ref r)) (wm_parameterHandlers w) else wm_parameterHandlers w)"
  "seen (drop_registration h r w) = seen w"
  "counts_ok U (drop_registration h r w) = counts_ok U w"
  "wm_stopped (drop_registration h r w) = wm_stopped w" "wm_stopping (drop_registration h r w) = wm_stopping w"
  "wm_lastRevision (drop_registration h r w) = wm_lastRevision w"
  "wm_state (drop_registration h r w) = wm_state w"
  "wm_aborted (drop_registration h r w) = wm_aborted w"
  "wm_run (drop_registration h r w) = wm_run w" "wm_recon (drop_registration h r w) = wm_recon w"
  "wm_namespaces (drop_registration h r w) = wm_namespaces w"
  "wm_namespaceGeneration (drop_registration h r w) = wm_namespaceGeneration w"
  "wm_snapshotGeneration (drop_registration h r w) = wm_snapshotGeneration w"
  "wm_streamNamespaces (drop_registration h r w) = wm_streamNamespaces w"
  "wm_cache (drop_registration h r w) = wm_cache w"
  by (simp_all add: drop_registration_def Let_def)

lemma drop_registration_known:
  "map_get (wm_known (drop_registration h r w)) p = map_get (wm_known w) p \<or>
   p = displayPath (reg_ref r) \<and> filter (\<lambda>x. x \<noteq> h) (wm_handlerSets w (reg_handlers r)) = [] \<and>
     map_get (wm_known (drop_registration h r w)) p = None"
  by (simp add: drop_registration_def Let_def)

lemma drop_registration_users:
  assumes "ns_inv w" "map_get (wm_registrations w) h = Some r" "key = namespaceKey (rr_namespace (reg_ref r))"
  shows "users w key = Suc (users (drop_registration h r w) key)"
    "users (drop_registration h r w) = (users w)(key := users (drop_registration h r w) key)"
proof -
  have ok: "map_ok (wm_registrations w)" using assms(1) by (simp add: ns_inv_def ids_ok_def)
  have eq: "users (drop_registration h r w) = users (w\<lparr>wm_registrations := map_del h (wm_registrations w)\<rparr>)"
    by (simp add: users_def drop_registration_fields fun_eq_iff)
  show "users w key = Suc (users (drop_registration h r w) key)"
    "users (drop_registration h r w) = (users w)(key := users (drop_registration h r w) key)"
    unfolding eq using users_drop_registration [OF ok assms(2,3) refl] by auto
qed

lemma release_and_restart_inv:
  assumes "counts_ok U w" "U = (users w)(namespaceKey ns := Suc (users w (namespaceKey ns)))" "ids_ok w"
  shows "ns_inv (release_and_restart ns w)"
proof -
  have "counts_ok (users w) (release_and_restart ns w)"
    using release_and_restart_counts [OF assms(1), of ns "users w (namespaceKey ns)"] assms(2) by simp
  then show ?thesis using assms(3) by (simp add: ns_inv_def ids_ok_def)
qed

lemma ns_inv_unregister: "ns_inv w \<Longrightarrow> ns_inv (unregisterParameter h w)"
proof (cases "map_get (wm_registrations w) h")
  case (Some r)
  assume inv: "ns_inv w"
  note us = drop_registration_users [OF inv Some refl]
  have "counts_ok (users w) (drop_registration h r w)" using inv by (simp add: ns_inv_def drop_registration_fields)
  moreover have "users w = (users (drop_registration h r w))(namespaceKey (rr_namespace (reg_ref r)) :=
      Suc (users (drop_registration h r w) (namespaceKey (rr_namespace (reg_ref r)))))"
    using us by (metis fun_upd_triv fun_upd_upd)
  moreover have "ids_ok (drop_registration h r w)"
    using inv by (auto simp: ns_inv_def ids_ok_def drop_registration_fields jsmap_ok set_map_del)
  ultimately have "ns_inv (release_and_restart (rr_namespace (reg_ref r)) (drop_registration h r w))"
    by (rule release_and_restart_inv)
  then show ?thesis using Some by (simp add: unregisterParameter_drop)
qed (simp add: unregisterParameter_drop)

lemma reg_inv_release [simp]: "reg_inv (release_and_restart ns w) = reg_inv w"
  by (simp add: reg_inv_def)

lemma reg_inv_unregister: "reg_inv w \<Longrightarrow> reg_inv (unregisterParameter h w)"
proof (cases "map_get (wm_registrations w) h")
  case (Some r)
  assume inv: "reg_inv w"
  note D = reg_invD [OF inv]
  let ?hs = "filter (\<lambda>x. x \<noteq> h) (wm_handlerSets w (reg_handlers r))" and ?P = "displayPath (reg_ref r)"
  have ph: "map_get (wm_parameterHandlers (drop_registration h r w)) p =
      (if ?hs = [] \<and> p = ?P then None else map_get (wm_parameterHandlers w) p)" for p
    by (simp add: drop_registration_fields)
  have "map_get (wm_parameterHandlers (drop_registration h r w)) (displayPath (reg_ref r')) = Some (reg_handlers r') \<and>
      h' \<in> set (wm_handlerSets (drop_registration h r w) (reg_handlers r'))"
    if r': "map_get (wm_registrations w) h' = Some r'" "h' \<noteq> h" for h' r'
  proof -
    have "displayPath (reg_ref r') = ?P \<Longrightarrow> reg_handlers r' = reg_handlers r"
      using D(4) [OF r'(1)] D(4) [OF Some] by simp
    moreover have "reg_handlers r' = reg_handlers r \<Longrightarrow> h' \<in> set ?hs" using D(5) [OF r'(1)] r'(2) by simp
    ultimately show ?thesis
      using D(4,5) [OF r'(1)] by (auto simp: ph drop_registration_fields(6) filter_empty_conv)
  qed
  moreover have "\<exists>r'. map_get (wm_registrations (drop_registration h r w)) h' = Some r' \<and> reg_handlers r' = s"
    if "map_get (wm_parameterHandlers (drop_registration h r w)) p = Some s"
      "h' \<in> set (wm_handlerSets (drop_registration h r w) s)" for p s h'
  proof -
    have "map_get (wm_parameterHandlers w) p = Some s" "h' \<in> set (wm_handlerSets w s)"
      using that by (auto simp: ph drop_registration_fields(6) split: if_splits)
    then obtain r' where r': "map_get (wm_registrations w) h' = Some r'" "reg_handlers r' = s" using D(6) by blast
    have "h' \<noteq> h" using that(2) r' Some by (auto simp: drop_registration_fields(6))
    then show ?thesis using r' by (simp add: drop_registration_fields)
  qed
  ultimately have "reg_inv (drop_registration h r w)"
    using D(1,2,3) unfolding reg_inv_def
    by (auto simp: ph drop_registration_fields(1,5) split: if_splits)
  then show ?thesis using Some by (simp add: unregisterParameter_drop)
qed (simp add: unregisterParameter_drop)

lemma seen_inv_transfer:
  assumes inv: "seen_inv w" and seen: "seen w' = seen w"
    and regs: "\<And>h r. map_get (wm_registrations w') h = Some r \<Longrightarrow> map_get (wm_registrations w) h = Some r \<and>
      map_get (wm_known w') (displayPath (reg_ref r)) = map_get (wm_known w) (displayPath (reg_ref r))"
    and known: "\<And>p kv. map_get (wm_known w') p = Some kv \<Longrightarrow> map_get (wm_known w) p = Some kv"
  shows "seen_inv w'"
proof -
  have "kv_value kv = []" if "map_get (wm_known w') p = Some kv" "\<not> kv_present kv" for p kv
    using inv known [OF that(1)] that(2) unfolding seen_inv_def by blast
  moreover have "\<exists>kv. map_get (wm_known w') (displayPath (reg_ref r)) = Some kv \<and>
      seen w' h = Some (kv_value kv, kv_present kv)" if "map_get (wm_registrations w') h = Some r" for h r
    using inv regs [OF that] seen unfolding seen_inv_def by simp
  ultimately show ?thesis unfolding seen_inv_def by blast
qed

text \<open>Releasing a namespace forgets only values no remaining registration follows.\<close>

lemma seen_inv_release:
  assumes "reg_inv w" "seen_inv w" "counts_ok U w"
    "U = (users w)(namespaceKey ns := Suc (users w (namespaceKey ns)))"
  shows "seen_inv (release_and_restart ns w)"
proof -
  have known: "map_get (wm_known (release_and_restart ns w)) p =
      (if users w (namespaceKey ns) = 0 \<and> known_in (namespaceKey ns) p then None else map_get (wm_known w) p) \<or>
      map_get (wm_known (release_and_restart ns w)) p = map_get (wm_known w) p" for p
    using release_known [OF assms(3)] assms(4) by simp
  have k1: "map_get (wm_known (release_and_restart ns w)) (displayPath (reg_ref r)) = map_get (wm_known w) (displayPath (reg_ref r))"
    if r: "map_get (wm_registrations w) h = Some r" for h r
  proof -
    have "\<not> (users w (namespaceKey ns) = 0 \<and> known_in (namespaceKey ns) (displayPath (reg_ref r)))"
      using users_registered [OF r] by (metis known_in_displayPath [OF reg_invD(3) [OF assms(1) r]])
    then show ?thesis using known [of "displayPath (reg_ref r)"] by argo
  qed
  have k2: "map_get (wm_known w) p = Some kv" if "map_get (wm_known (release_and_restart ns w)) p = Some kv" for p kv
    using known [of p] that by (auto split: if_splits)
  show ?thesis
    by (rule seen_inv_transfer [OF assms(2) _ _ k2]) (simp, metis k1 release_and_restart_fields(1))
qed

lemma seen_inv_drop:
  assumes "reg_inv w" "seen_inv w" "map_get (wm_registrations w) h = Some r"
  shows "seen_inv (drop_registration h r w)"
proof -
  note D = reg_invD [OF assms(1)]
  have k1: "map_get (wm_known (drop_registration h r w)) (displayPath (reg_ref r')) = map_get (wm_known w) (displayPath (reg_ref r'))"
    if r': "map_get (wm_registrations w) h' = Some r'" "h' \<noteq> h" for h' r'
  proof -
    have "displayPath (reg_ref r') = displayPath (reg_ref r) \<Longrightarrow> h' \<in> set (wm_handlerSets w (reg_handlers r))"
      using D(4) [OF r'(1)] D(4) [OF assms(3)] D(5) [OF r'(1)] by simp
    then show ?thesis
      using drop_registration_known [of h r w "displayPath (reg_ref r')"] r'(2) by (auto simp: filter_empty_conv)
  qed
  have k2: "map_get (wm_known w) p = Some kv" if "map_get (wm_known (drop_registration h r w)) p = Some kv" for p kv
    using drop_registration_known [of h r w p] that by auto
  show ?thesis
  proof (rule seen_inv_transfer [OF assms(2) _ _ k2])
    fix h' r' assume "map_get (wm_registrations (drop_registration h r w)) h' = Some r'"
    then have "map_get (wm_registrations w) h' = Some r'" "h' \<noteq> h"
      by (auto simp: drop_registration_fields split: if_splits)
    then show "map_get (wm_registrations w) h' = Some r' \<and>
        map_get (wm_known (drop_registration h r w)) (displayPath (reg_ref r')) = map_get (wm_known w) (displayPath (reg_ref r'))"
      using k1 by simp
  qed (simp_all add: drop_registration_fields)
qed

lemma reg_inv_drop:
  assumes "reg_inv w" "map_get (wm_registrations w) h = Some r"
  shows "reg_inv (drop_registration h r w)"
  using reg_inv_unregister [OF assms(1), of h] assms(2) by (simp add: unregisterParameter_drop)

lemma seen_inv_unregister:
  assumes "ns_inv w" "reg_inv w" "seen_inv w"
  shows "seen_inv (unregisterParameter h w)"
proof (cases "map_get (wm_registrations w) h")
  case (Some r)
  note us = drop_registration_users [OF assms(1) Some refl]
  have "counts_ok (users w) (drop_registration h r w)" using assms(1) by (simp add: ns_inv_def drop_registration_fields)
  moreover have "users w = (users (drop_registration h r w))(namespaceKey (rr_namespace (reg_ref r)) :=
      Suc (users (drop_registration h r w) (namespaceKey (rr_namespace (reg_ref r)))))"
    using us by (metis fun_upd_triv fun_upd_upd)
  ultimately have "seen_inv (release_and_restart (rr_namespace (reg_ref r)) (drop_registration h r w))"
    by (rule seen_inv_release [OF reg_inv_drop [OF assms(2) Some] seen_inv_drop [OF assms(2,3) Some]])
  then show ?thesis using Some by (simp add: unregisterParameter_drop)
qed (use assms in \<open>simp add: unregisterParameter_drop\<close>)

section \<open>Watchers\<close>

definition mgr_inv :: "watch_mgr \<Rightarrow> bool" where
  "mgr_inv w \<longleftrightarrow> ns_inv w \<and> reg_inv w \<and> seen_inv w"

lemma mgr_inv_register: "mgr_inv w \<Longrightarrow> ref_ok ref \<Longrightarrow> mgr_inv (snd (registerParameter ref initial w))"
  by (simp add: mgr_inv_def ns_inv_register reg_inv_register seen_inv_register)

lemma mgr_inv_unregister: "mgr_inv w \<Longrightarrow> mgr_inv (unregisterParameter h w)"
  by (simp add: mgr_inv_def ns_inv_unregister reg_inv_unregister seen_inv_unregister)

lemma mgr_inv_watch: "mgr_inv w \<Longrightarrow> mgr_inv (snd (watch ns aborted w))"
proof (cases "wm_stopped w \<or> aborted")
  case False
  assume inv: "mgr_inv w"
  define i where "i = wm_nextWatcherId w"
  define w1 where "w1 = w\<lparr>wm_nextWatcherId := Suc i, wm_watchers := map_set i \<lparr>w_id = i, w_namespace = ns\<rparr> (wm_watchers w)\<rparr>"
  define w2 where "w2 = (retain_and_start ns w1)\<lparr>wm_watcherStops := map_set i ns (wm_watcherStops w1)\<rparr>"
  have eq: "snd (watch ns aborted w) = w2"
    using False by (simp add: watch_def Let_def w1_def w2_def i_def)
  have fresh: "i \<notin> fst ` set (wm_watcherStops w)"
    using inv by (force simp: mgr_inv_def ns_inv_def ids_ok_def i_def)
  have "users w2 = (users w)(namespaceKey ns := Suc (users w (namespaceKey ns)))"
    using users_add_watcher [OF fresh, of ns] by (simp add: users_def w2_def w1_def fun_eq_iff)
  moreover have "counts_ok (users w) w1" using inv by (simp add: w1_def mgr_inv_def ns_inv_def)
  ultimately have "counts_ok (users w2) w2"
    using retain_and_start_counts [of "users w" w1 ns] by (simp add: w2_def)
  moreover have "ids_ok w2"
    using inv by (auto simp: w2_def w1_def i_def mgr_inv_def ns_inv_def ids_ok_def jsmap_ok less_SucI)
  moreover have "reg_inv w2" "seen_inv w2"
    using inv by (simp_all add: mgr_inv_def reg_inv_def seen_inv_def w2_def w1_def)
  ultimately show ?thesis using eq by (simp add: mgr_inv_def ns_inv_def)
qed (auto simp: watch_def)

lemma mgr_inv_stop_watcher: "mgr_inv w \<Longrightarrow> mgr_inv (stop_watcher i w)"
proof (cases "map_get (wm_watcherStops w) i")
  case (Some ns)
  assume inv: "mgr_inv w"
  define w1 where "w1 = w\<lparr>wm_watchers := map_del i (wm_watchers w), wm_watcherStops := map_del i (wm_watcherStops w)\<rparr>"
  have ok: "map_ok (wm_watcherStops w)" using inv by (simp add: mgr_inv_def ns_inv_def ids_ok_def)
  have "users w1 = users (w\<lparr>wm_watcherStops := map_del i (wm_watcherStops w)\<rparr>)"
    by (simp add: users_def w1_def fun_eq_iff)
  then have us: "users w = (users w1)(namespaceKey ns := Suc (users w1 (namespaceKey ns)))"
    using users_drop_watcher [OF ok Some refl] by (metis fun_upd_triv fun_upd_upd)
  have cnt: "counts_ok (users w) w1" using inv by (simp add: w1_def mgr_inv_def ns_inv_def)
  have inv1: "reg_inv w1" "seen_inv w1" "ids_ok w1"
    using inv by (auto simp: mgr_inv_def reg_inv_def seen_inv_def w1_def ns_inv_def ids_ok_def jsmap_ok set_map_del)
  have "ns_inv (release_and_restart ns w1)" by (rule release_and_restart_inv [OF cnt us inv1(3)])
  moreover have "seen_inv (release_and_restart ns w1)" by (rule seen_inv_release [OF inv1(1,2) cnt us])
  ultimately show ?thesis using Some inv1(1) by (simp add: stop_watcher_def w1_def mgr_inv_def)
qed (simp add: stop_watcher_def)

section \<open>Every action keeps the invariant\<close>

lemma mgr_inv_upd [simp]:
  "mgr_inv (wm_cache_update a1 w) = mgr_inv w" "mgr_inv (wm_streamNamespaces_update a2 w) = mgr_inv w"
  "mgr_inv (wm_lastRevision_update a3 w) = mgr_inv w" "mgr_inv (wm_state_update a4 w) = mgr_inv w"
  "mgr_inv (wm_reconciliation_update a5 w) = mgr_inv w" "mgr_inv (wm_reconnectCount_update a6 w) = mgr_inv w"
  "mgr_inv (wm_connectedAt_update a7 w) = mgr_inv w" "mgr_inv (wm_lastEventAt_update a8 w) = mgr_inv w"
  "mgr_inv (wm_disconnectedAt_update a9 w) = mgr_inv w"
  "mgr_inv (wm_lastReconcileAttemptAt_update b1 w) = mgr_inv w"
  "mgr_inv (wm_lastReconcileSuccessAt_update b2 w) = mgr_inv w"
  "mgr_inv (wm_lastReconcileFailureAt_update b3 w) = mgr_inv w"
  "mgr_inv (wm_started_update b4 w) = mgr_inv w" "mgr_inv (wm_restartRequested_update b5 w) = mgr_inv w"
  "mgr_inv (wm_namespaceGeneration_update b6 w) = mgr_inv w"
  "mgr_inv (wm_snapshotGeneration_update b7 w) = mgr_inv w"
  "mgr_inv (wm_aborted_update b8 w) = mgr_inv w" "mgr_inv (wm_stopped_update b9 w) = mgr_inv w"
  "mgr_inv (wm_stopping_update c1 w) = mgr_inv w" "mgr_inv (wm_attempt_update c2 w) = mgr_inv w"
  "mgr_inv (wm_run_update c3 w) = mgr_inv w" "mgr_inv (wm_recon_update c4 w) = mgr_inv w"
  by (simp_all add: mgr_inv_def ns_inv_def ids_ok_def counts_ok_def users_def reg_inv_def seen_inv_def seen_def)

lemma mgr_inv_emit: "mgr_inv w \<Longrightarrow> (\<And>h acc. fold (see h) os acc = acc) \<Longrightarrow> mgr_inv (emit os w)"
  by (simp add: mgr_inv_def ns_inv_def ids_ok_def reg_inv_def seen_inv_def seen_emit)
    (simp add: emit_def)

lemma mgr_inv_fire: "mgr_inv w \<Longrightarrow> mgr_inv (fireWatchers ns ev w)"
  unfolding fireWatchers_def by (rule mgr_inv_emit) (simp_all add: see_dispatches)

lemma mgr_inv_setValue:
  "mgr_inv w \<Longrightarrow> present \<or> value = [] \<Longrightarrow> mgr_inv (setValue path value present version revision rec w)"
  by (simp add: mgr_inv_def seen_inv_setValue
      reg_inv_vframe [of w "setValue path value present version revision rec w"]
      ns_inv_vframe [of w "setValue path value present version revision rec w"])

lemma fold_inv: "P w \<Longrightarrow> (\<And>x w. P w \<Longrightarrow> P (f x w)) \<Longrightarrow> P (fold f xs w)"
  by (induction xs arbitrary: w) auto

lemma mgr_inv_applySnapshot: "mgr_inv w \<Longrightarrow> mgr_inv (applySnapshot snap r w)"
  unfolding applySnapshot_def Let_def
  by (auto intro!: fold_inv [of mgr_inv] mgr_inv_setValue simp: drop_absent_def split: prod.split option.split)

lemma mgr_inv_applyChange: "mgr_inv w \<Longrightarrow> mgr_inv (applyChange ch r w)"
  by (auto simp: applyChange_def Let_def intro!: mgr_inv_setValue split: option.split)

lemma mgr_inv_applySecretChange: "mgr_inv w \<Longrightarrow> mgr_inv (applySecretChange ch r w)"
  by (auto simp: applySecretChange_def Let_def intro!: mgr_inv_fire split: option.split)

lemma mgr_inv_advance [simp]: "mgr_inv (advanceRevision r w) = mgr_inv w"
  by (simp add: advanceRevision_def)

lemma mgr_inv_handleEvent: "mgr_inv w \<Longrightarrow> mgr_inv (handleEvent ev r g now w)"
  by (auto simp: handleEvent_def Let_def intro!: mgr_inv_applySnapshot mgr_inv_applyChange
      mgr_inv_applySecretChange mgr_inv_emit split: subscribe_event.split option.split)

lemma mgr_inv_session_failed [simp]: "mgr_inv (session_failed now w) = mgr_inv w"
  by (simp add: session_failed_def)

lemma mgr_inv_run_head: "mgr_inv w \<Longrightarrow> mgr_inv (run_head collate w)"
  by (auto simp: run_head_def open_session_def Let_def intro!: mgr_inv_emit)

lemma mgr_inv_reconcile_page: "mgr_inv w \<Longrightarrow> mgr_inv (reconcile_page resp w)"
  by (auto simp: reconcile_page_def Let_def intro!: fold_inv [of mgr_inv] mgr_inv_setValue
      split: recon_pc.split list.split option.split)

lemma mgr_inv_reconcile: "mgr_inv w \<Longrightarrow> mgr_inv (snd (reconcile rn w))"
  by (auto simp: reconcile_def reconcile_absent_def Let_def intro!: fold_inv [of mgr_inv] mgr_inv_setValue
      split: option.split)

lemma mgr_inv_reconcile_finish: "mgr_inv w \<Longrightarrow> mgr_inv (reconcile_finish now w)"
  using mgr_inv_reconcile [of w]
  by (auto simp: reconcile_finish_def split: recon_pc.split prod.split bool.split) (metis snd_conv)+

lemma mgr_inv_stop_begin: "mgr_inv w \<Longrightarrow> mgr_inv (stop_begin w)"
  by (auto simp: stop_begin_def Let_def intro!: fold_inv [of mgr_inv] mgr_inv_stop_watcher)

text \<open>Reference counts and handlers are maintained until a stop has completed.\<close>

definition mgr_live :: "watch_mgr \<Rightarrow> bool" where
  "mgr_live w \<longleftrightarrow> \<not> wm_stopped w \<or> wm_stopping w"

definition watch_inv :: "watch_mgr \<Rightarrow> bool" where
  "watch_inv w \<longleftrightarrow> (wm_stopping w \<longrightarrow> wm_stopped w) \<and> (mgr_live w \<longrightarrow> mgr_inv w)"

fun action_ok :: "watch_action \<Rightarrow> bool" where
  "action_ok (Register ref _) = ref_ok ref"
| "action_ok _ = True"

text \<open>An action seen through the paths that only update values.\<close>

lemma handleEvent_fields:
  "wm_stopped (handleEvent ev r g now w) = wm_stopped w" "wm_stopping (handleEvent ev r g now w) = wm_stopping w"
  "wm_run (handleEvent ev r g now w) = wm_run w" "wm_recon (handleEvent ev r g now w) = wm_recon w"
  "wm_state (handleEvent ev r g now w) = wm_state w" "wm_aborted (handleEvent ev r g now w) = wm_aborted w"
  "wm_namespaces (handleEvent ev r g now w) = wm_namespaces w"
  "wm_streamNamespaces (handleEvent ev r g now w) = wm_streamNamespaces w"
  "wm_namespaceGeneration (handleEvent ev r g now w) = wm_namespaceGeneration w"
  using vframe_fields [of "w\<lparr>wm_lastEventAt := Some now\<rparr>"]
  by (auto simp: handleEvent_def Let_def advanceRevision_def emit_def split: subscribe_event.split option.split)

lemma mgr_step_inv:
  assumes "mgr_inv w" "action_ok act" "act \<noteq> StopFinish"
  shows "mgr_inv (watch_step collate act w)"
  using assms
  by (cases act) (auto simp: mgr_inv_register mgr_inv_unregister mgr_inv_watch mgr_inv_stop_watcher
      mgr_inv_stop_begin mgr_inv_run_head session_connected_def stream_event_def mgr_inv_handleEvent
      backoff_done_def reconcile_head_def reconcile_wake_def reconcile_begin_def Let_def
      mgr_inv_reconcile_page mgr_inv_reconcile_finish split: run_pc.split recon_pc.split)

lemma stop_watcher_fields [simp]:
  "wm_stopped (stop_watcher i w) = wm_stopped w" "wm_stopping (stop_watcher i w) = wm_stopping w"
  "wm_run (stop_watcher i w) = wm_run w" "wm_recon (stop_watcher i w) = wm_recon w"
  "wm_state (stop_watcher i w) = wm_state w" "wm_lastRevision (stop_watcher i w) = wm_lastRevision w"
  "wm_snapshotGeneration (stop_watcher i w) = wm_snapshotGeneration w"
  "wm_streamNamespaces (stop_watcher i w) = wm_streamNamespaces w" "wm_cache (stop_watcher i w) = wm_cache w"
  by (simp_all add: stop_watcher_def split: option.split)

lemma fold_stop_watcher_fields [simp]:
  "wm_stopped (fold stop_watcher xs w) = wm_stopped w" "wm_stopping (fold stop_watcher xs w) = wm_stopping w"
  "wm_run (fold stop_watcher xs w) = wm_run w" "wm_recon (fold stop_watcher xs w) = wm_recon w"
  "wm_state (fold stop_watcher xs w) = wm_state w" "wm_lastRevision (fold stop_watcher xs w) = wm_lastRevision w"
  "wm_snapshotGeneration (fold stop_watcher xs w) = wm_snapshotGeneration w"
  "wm_streamNamespaces (fold stop_watcher xs w) = wm_streamNamespaces w"
  "wm_cache (fold stop_watcher xs w) = wm_cache w"
  by (induction xs arbitrary: w) simp_all

lemma unregister_fields [simp]:
  "wm_stopped (unregisterParameter h w) = wm_stopped w" "wm_stopping (unregisterParameter h w) = wm_stopping w"
  "wm_run (unregisterParameter h w) = wm_run w" "wm_recon (unregisterParameter h w) = wm_recon w"
  "wm_state (unregisterParameter h w) = wm_state w" "wm_lastRevision (unregisterParameter h w) = wm_lastRevision w"
  "wm_snapshotGeneration (unregisterParameter h w) = wm_snapshotGeneration w"
  "wm_streamNamespaces (unregisterParameter h w) = wm_streamNamespaces w"
  "wm_cache (unregisterParameter h w) = wm_cache w"
  by (simp_all add: unregisterParameter_drop drop_registration_fields split: option.split)

lemma watch_fields [simp]:
  "wm_stopped (snd (watch ns ab w)) = wm_stopped w" "wm_stopping (snd (watch ns ab w)) = wm_stopping w"
  "wm_state (snd (watch ns ab w)) = wm_state w" "wm_lastRevision (snd (watch ns ab w)) = wm_lastRevision w"
  "wm_snapshotGeneration (snd (watch ns ab w)) = wm_snapshotGeneration w"
  "wm_streamNamespaces (snd (watch ns ab w)) = wm_streamNamespaces w" "wm_cache (snd (watch ns ab w)) = wm_cache w"
  by (simp_all add: watch_def Let_def)

lemma fold_setValue_vframe:
  "vframe w (fold (\<lambda>p. setValue (lp_path p) (lp_value p) True (lp_version p) r rec) items w)"
  by (simp add: vframe_fold_iff)

text \<open>Reconciliation also moves its own control state and health.\<close>

definition rframe :: "watch_mgr \<Rightarrow> watch_mgr \<Rightarrow> bool" where
  "rframe w w' \<longleftrightarrow> w'\<lparr>wm_known := wm_known w, wm_cache := wm_cache w, wm_out := wm_out w,
     wm_recon := wm_recon w, wm_reconciliation := wm_reconciliation w,
     wm_lastReconcileAttemptAt := wm_lastReconcileAttemptAt w,
     wm_lastReconcileSuccessAt := wm_lastReconcileSuccessAt w,
     wm_lastReconcileFailureAt := wm_lastReconcileFailureAt w\<rparr> = w"

lemma rframe_updates [simp]:
  "rframe w w" "rframe w (w'\<lparr>wm_recon := a\<rparr>) = rframe w w'" "rframe w (w'\<lparr>wm_reconciliation := b\<rparr>) = rframe w w'"
  "rframe w (w'\<lparr>wm_lastReconcileAttemptAt := c\<rparr>) = rframe w w'"
  "rframe w (w'\<lparr>wm_lastReconcileSuccessAt := d\<rparr>) = rframe w w'"
  "rframe w (w'\<lparr>wm_lastReconcileFailureAt := e\<rparr>) = rframe w w'"
  by (cases w; cases w'; simp add: rframe_def)+

lemma rframe_vframe: "vframe w' w'' \<Longrightarrow> rframe w w'' = rframe w w'"
  by (cases w; cases w'; cases w''; simp add: rframe_def vframe_def)

lemma rframe_fields:
  assumes "rframe w w'"
  shows "wm_namespaces w' = wm_namespaces w" "wm_registrations w' = wm_registrations w"
    "wm_streamNamespaces w' = wm_streamNamespaces w" "wm_lastRevision w' = wm_lastRevision w"
    "wm_state w' = wm_state w" "wm_stopped w' = wm_stopped w" "wm_stopping w' = wm_stopping w"
    "wm_aborted w' = wm_aborted w" "wm_namespaceGeneration w' = wm_namespaceGeneration w"
    "wm_snapshotGeneration w' = wm_snapshotGeneration w" "wm_run w' = wm_run w"
  using assms by (cases w; cases w'; simp add: rframe_def)+

lemma rframe_reconcile_page [simp]: "rframe w (reconcile_page resp w)"
  by (auto simp: reconcile_page_def Let_def rframe_vframe [OF fold_setValue_vframe]
      split: recon_pc.split list.split option.split)

lemma rframe_reconcile: "reconcile rn w = (b, w') \<Longrightarrow> rframe w w'"
  using vframe_reconcile [of w rn w] rframe_vframe [of w "snd (reconcile rn w)" w] by simp

lemma rframe_reconcile_finish [simp]: "rframe w (reconcile_finish now w)"
  by (auto simp: reconcile_finish_def rframe_reconcile split: recon_pc.split prod.split bool.split)

lemma rframe_reconcile_wake [simp]: "rframe w (reconcile_wake now w)" "rframe w (reconcile_head w)"
  by (simp_all add: reconcile_wake_def reconcile_begin_def reconcile_head_def Let_def split: recon_pc.split)

lemmas recon_fields [simp] = rframe_fields [OF rframe_reconcile_page] rframe_fields [OF rframe_reconcile_finish]
  rframe_fields [OF rframe_reconcile_wake(1)] rframe_fields [OF rframe_reconcile_wake(2)]

text \<open>Opening, losing and resuming a session.\<close>

lemma session_fields [simp]:
  "wm_stopped (run_head collate w) = wm_stopped w" "wm_stopping (run_head collate w) = wm_stopping w"
  "wm_lastRevision (run_head collate w) = wm_lastRevision w" "wm_recon (run_head collate w) = wm_recon w"
  "wm_stopped (session_failed now w) = wm_stopped w" "wm_stopping (session_failed now w) = wm_stopping w"
  "wm_lastRevision (session_failed now w) = wm_lastRevision w" "wm_recon (session_failed now w) = wm_recon w"
  "wm_stopped (session_connected now w) = wm_stopped w" "wm_stopping (session_connected now w) = wm_stopping w"
  "wm_lastRevision (session_connected now w) = wm_lastRevision w" "wm_recon (session_connected now w) = wm_recon w"
  "wm_stopped (backoff_done w) = wm_stopped w" "wm_stopping (backoff_done w) = wm_stopping w"
  "wm_lastRevision (backoff_done w) = wm_lastRevision w" "wm_recon (backoff_done w) = wm_recon w"
  "wm_stopped (stream_event ev r now w) = wm_stopped w" "wm_stopping (stream_event ev r now w) = wm_stopping w"
  "wm_recon (stream_event ev r now w) = wm_recon w"
  by (simp_all add: run_head_def open_session_def Let_def emit_def session_failed_def session_connected_def
      backoff_done_def stream_event_def handleEvent_fields split: run_pc.split)

lemma stop_flags_step:
  "wm_stopped (watch_step collate act w) = (wm_stopped w \<or> act = StopBegin)"
  "act \<noteq> StopBegin \<Longrightarrow> act \<noteq> StopFinish \<Longrightarrow> wm_stopping (watch_step collate act w) = wm_stopping w"
  by (cases act; simp add: registerParameter_fields stop_begin_def stop_finish_def Let_def split: run_pc.split)+

lemma watch_inv_step:
  assumes "watch_inv w" "action_ok act"
  shows "watch_inv (watch_step collate act w)"
proof (cases "act = StopFinish")
  case True
  then show ?thesis using assms by (auto simp: stop_finish_def watch_inv_def mgr_live_def)
next
  case notfin: False
  show ?thesis
  proof (cases "act = StopBegin")
    case True
    have "wm_stopping (stop_begin w) \<longrightarrow> wm_stopped (stop_begin w)"
      using assms(1) by (simp add: stop_begin_def Let_def watch_inv_def)
    moreover have "mgr_live (stop_begin w) \<Longrightarrow> mgr_live w"
      by (simp add: mgr_live_def stop_begin_def Let_def split: if_splits)
    ultimately show ?thesis
      using True assms(1) mgr_inv_stop_begin [of w] by (auto simp: watch_inv_def)
  next
    case False
    then show ?thesis
      using assms notfin mgr_step_inv [of w act collate] stop_flags_step(1) [of collate act w]
        stop_flags_step(2) [of act collate w]
      by (auto simp: watch_inv_def mgr_live_def)
  qed
qed

interpretation watch_sys: guarded_system "watch_step collate" action_ok watch_inv for collate
  by unfold_locales (rule watch_inv_step)

lemma watch_inv_new: "newSubscriptionManager iv ab cache = Inr w \<Longrightarrow> watch_inv w"
  by (auto simp: newSubscriptionManager_def watch_inv_def mgr_inv_def ns_inv_def counts_ok_def ids_ok_def users_def
      reg_inv_def seen_inv_def map_get_Nil jsmap_ok split: option.splits js_number.splits if_splits)

end
