(* ===== verification/Watch_Stream.thy ===== *)
theory Watch_Stream
  imports Watch_Correct
begin

text \<open>
  The stream side of the watch manager: which namespaces a stream covers, when it may resume,
  how revisions order live events, snapshots and reconciliation, and the properties of the
  manager as a whole.
\<close>

section \<open>Sessions\<close>

definition covers :: "namespace_ref list \<Rightarrow> (string, namespace_ref) jsmap \<Rightarrow> bool" where
  "covers nss m \<longleftrightarrow> set nss = snd ` set m"

fun session_of :: "run_pc \<Rightarrow> (nat \<times> bool) option" where
  "session_of (RunSending g full) = Some (g, full)"
| "session_of (RunStreaming g full) = Some (g, full)"
| "session_of _ = None"

definition session_ok :: "run_pc \<Rightarrow> nat \<Rightarrow> nat \<Rightarrow> bool \<Rightarrow> bool" where
  "session_ok pc gen snap cov \<longleftrightarrow> snap \<le> gen \<and>
     (case session_of pc of None \<Rightarrow> True
      | Some (g, full) \<Rightarrow> g \<le> gen \<and> (g = gen \<longrightarrow> cov) \<and> (\<not> full \<longrightarrow> g \<le> snap))"

definition stop_ok :: "watch_mgr \<Rightarrow> bool" where
  "stop_ok w \<longleftrightarrow> (wm_stopping w \<longrightarrow> wm_stopped w) \<and>
     (wm_stopped w \<and> \<not> wm_stopping w \<longrightarrow>
        wm_state w = Stopped \<and> wm_run w \<in> {RunOff, RunDone} \<and> wm_recon w \<in> {RecOff, RecDone})"

definition session_inv :: "watch_mgr \<Rightarrow> bool" where
  "session_inv w \<longleftrightarrow> session_ok (wm_run w) (wm_namespaceGeneration w) (wm_snapshotGeneration w)
       (covers (wm_streamNamespaces w) (wm_namespaces w)) \<and> stop_ok w"

lemma session_ok_later: "session_ok pc gen snap cov \<Longrightarrow> gen < gen' \<Longrightarrow> session_ok pc gen' snap cov'"
  by (auto simp: session_ok_def split: option.splits)

lemma session_ok_snap: "session_ok pc gen snap cov \<Longrightarrow> snap \<le> gen"
  by (simp add: session_ok_def)

lemma session_ok_none: "session_of pc = None \<Longrightarrow> session_ok pc gen snap cov \<longleftrightarrow> snap \<le> gen"
  by (simp add: session_ok_def)

text \<open>The namespace set changes only together with its generation.\<close>

definition scope_moves :: "watch_mgr \<Rightarrow> watch_mgr \<Rightarrow> bool" where
  "scope_moves w w' \<longleftrightarrow>
     (wm_namespaceGeneration w' = wm_namespaceGeneration w \<and> wm_namespaces w' = wm_namespaces w \<or>
      wm_namespaceGeneration w < wm_namespaceGeneration w') \<and>
     wm_snapshotGeneration w' = wm_snapshotGeneration w \<and> wm_streamNamespaces w' = wm_streamNamespaces w \<and>
     wm_stopped w' = wm_stopped w \<and> wm_stopping w' = wm_stopping w \<and> wm_state w' = wm_state w \<and>
     (wm_run w' = wm_run w \<and> wm_recon w' = wm_recon w \<or>
      \<not> wm_stopped w \<and> wm_run w' = RunHead \<and> wm_recon w' = RecHead)"

lemma scope_moves_refl [simp]: "scope_moves w w"
  by (simp add: scope_moves_def)

lemma scope_moves_trans: "scope_moves w w' \<Longrightarrow> scope_moves w' w'' \<Longrightarrow> scope_moves w w''"
  unfolding scope_moves_def by auto

lemma scope_moves_inv: "scope_moves w w' \<Longrightarrow> session_inv w \<Longrightarrow> session_inv w'"
proof -
  assume move: "scope_moves w w'" and inv: "session_inv w"
  have "stop_ok w'" using move inv by (auto simp: scope_moves_def session_inv_def stop_ok_def)
  moreover have ok: "session_ok (wm_run w) (wm_namespaceGeneration w') (wm_snapshotGeneration w')
      (covers (wm_streamNamespaces w') (wm_namespaces w'))"
    using move inv session_ok_later by (auto simp: scope_moves_def session_inv_def)
  moreover have "wm_run w' = wm_run w \<or> wm_run w' = RunHead" using move by (auto simp: scope_moves_def)
  ultimately show ?thesis
    using session_ok_snap [OF ok] by (elim disjE) (simp_all add: session_inv_def session_ok_none)
qed

lemma scope_moves_retain: "scope_moves w (retain_and_start ns w)"
  by (auto simp: scope_moves_def retain_and_start_def retainNamespace_def ensureStarted_def restart_def
      scopeChanged_def Let_def)

lemma scope_moves_release: "scope_moves w (release_and_restart ns w)"
  by (auto simp: scope_moves_def release_and_restart_def releaseNamespace_def restart_def scopeChanged_def
      Let_def split: option.split)

lemma scope_moves_upd [simp]:
  "scope_moves w (w'\<lparr>wm_registrations := a\<rparr>) = scope_moves w w'" "scope_moves w (w'\<lparr>wm_watcherStops := b\<rparr>) = scope_moves w w'"
  "scope_moves w (w'\<lparr>wm_watchers := c\<rparr>) = scope_moves w w'" "scope_moves w (w'\<lparr>wm_known := d\<rparr>) = scope_moves w w'"
  "scope_moves w (w'\<lparr>wm_out := e\<rparr>) = scope_moves w w'" "scope_moves w (w'\<lparr>wm_nextRegistration := f\<rparr>) = scope_moves w w'"
  "scope_moves w (w'\<lparr>wm_nextWatcherId := g\<rparr>) = scope_moves w w'" "scope_moves w (w'\<lparr>wm_handlerSets := h\<rparr>) = scope_moves w w'"
  "scope_moves w (w'\<lparr>wm_nextHandlerSet := i\<rparr>) = scope_moves w w'"
  "scope_moves w (w'\<lparr>wm_parameterHandlers := j\<rparr>) = scope_moves w w'" "scope_moves w (emit os w') = scope_moves w w'"
  by (simp_all add: scope_moves_def emit_def)

lemma scope_moves_register: "scope_moves w (snd (registerParameter ref initial w))"
  by (auto simp: registerParameter_def Let_def intro!: scope_moves_trans [OF _ scope_moves_retain]
      split: option.split)

lemma scope_moves_drop: "scope_moves w (drop_registration h r w)"
  by (simp add: scope_moves_def drop_registration_fields)

lemma scope_moves_unregister: "scope_moves w (unregisterParameter h w)"
  by (auto simp: unregisterParameter_drop intro: scope_moves_trans [OF scope_moves_drop scope_moves_release]
      split: option.split)

lemma scope_moves_watch: "scope_moves w (snd (watch ns ab w))"
  by (auto simp: watch_def Let_def intro!: scope_moves_trans [OF _ scope_moves_retain])

lemma scope_moves_stop_watcher: "scope_moves w (stop_watcher i w)"
  by (auto simp: stop_watcher_def intro!: scope_moves_trans [OF _ scope_moves_release] split: option.split)

lemma scope_moves_fold_stop: "scope_moves w (fold stop_watcher xs w)"
  by (induction xs arbitrary: w) (auto intro: scope_moves_trans [OF scope_moves_stop_watcher])

lemma set_insert_ns: "set (insert_ns collate x xs) = insert x (set xs)"
  by (induction xs) auto

lemma set_sort_ns [simp]: "set (sort_ns collate xs) = set xs"
  by (induction xs) (simp_all add: sort_ns_def set_insert_ns)

lemma covers_sort: "covers (sort_ns collate (map snd m)) m"
  by (simp add: covers_def)

lemma session_inv_run_head: "session_inv w \<Longrightarrow> wm_run w = RunHead \<Longrightarrow> session_inv (run_head collate w)"
  by (auto simp: session_inv_def session_ok_def stop_ok_def run_head_def open_session_def Let_def emit_def covers_sort)

lemma session_inv_rframe:
  "rframe w w' \<Longrightarrow> session_inv w \<Longrightarrow> (wm_recon w \<in> {RecOff, RecDone} \<longrightarrow> wm_recon w' \<in> {RecOff, RecDone}) \<Longrightarrow> session_inv w'"
  by (auto simp: session_inv_def stop_ok_def rframe_fields)

lemma snapshotGeneration_handleEvent:
  "wm_snapshotGeneration (handleEvent ev r g now w) =
    (case (ev, g) of (SnapshotEvent _, Some g') \<Rightarrow> max (wm_snapshotGeneration w) g' | _ \<Rightarrow> wm_snapshotGeneration w)"
proof -
  let ?w = "w\<lparr>wm_lastEventAt := Some now\<rparr>"
  have "wm_snapshotGeneration (applySnapshot s r ?w) = wm_snapshotGeneration w"
    "wm_snapshotGeneration (applyChange c r ?w) = wm_snapshotGeneration w"
    "wm_snapshotGeneration (applySecretChange sc r ?w) = wm_snapshotGeneration w" for s c sc
    using vframe_fields(17) [of ?w "applySnapshot s r ?w"] vframe_fields(17) [of ?w "applyChange c r ?w"]
      vframe_fields(17) [of ?w "applySecretChange sc r ?w"] by simp_all
  then show ?thesis
    by (auto simp: handleEvent_def Let_def advanceRevision_def emit_def split: subscribe_event.split option.split)
qed

lemma session_inv_failed:
  assumes "session_inv w" "session_of (wm_run w) \<noteq> None"
  shows "session_inv (session_failed now w)"
proof -
  have "wm_run w \<notin> {RunOff, RunDone}" using assms(2) by auto
  then have "wm_stopped w \<longrightarrow> wm_stopping w" "wm_stopping w \<longrightarrow> wm_stopped w" and
    snap: "wm_snapshotGeneration w \<le> wm_namespaceGeneration w"
    using assms(1) session_ok_snap by (auto simp: session_inv_def stop_ok_def)
  then show ?thesis by (auto simp: session_inv_def stop_ok_def session_failed_def session_ok_none)
qed

lemma session_ok_snapshot:
  "session_ok pc gen snap cov \<Longrightarrow> g \<le> gen \<Longrightarrow> session_ok pc gen (max snap g) cov"
  by (auto simp: session_ok_def split: option.splits)

lemma session_inv_stream_event: "session_inv w \<Longrightarrow> session_inv (stream_event ev r now w)"
proof (cases "wm_run w")
  case (RunStreaming g full)
  assume inv: "session_inv w"
  show ?thesis
  proof (cases "g = wm_namespaceGeneration w")
    case True
    let ?w = "handleEvent ev r (if full then Some g else None) now w"
    have "stop_ok ?w" using inv by (simp add: session_inv_def stop_ok_def handleEvent_fields)
    moreover have "wm_snapshotGeneration ?w \<in> {wm_snapshotGeneration w, max (wm_snapshotGeneration w) g}"
      by (auto simp: snapshotGeneration_handleEvent split: subscribe_event.split)
    moreover have ok: "session_ok (wm_run w) (wm_namespaceGeneration w) (wm_snapshotGeneration w)
        (covers (wm_streamNamespaces w) (wm_namespaces w))" using inv by (simp add: session_inv_def)
    ultimately have "session_inv ?w"
      using session_ok_snapshot [OF ok, of g] True by (auto simp: session_inv_def handleEvent_fields)
    then show ?thesis using RunStreaming True by (cases full) (simp_all add: stream_event_def)
  next
    case False
    then show ?thesis using session_inv_failed [OF inv] RunStreaming by (simp add: stream_event_def)
  qed
qed (simp_all add: stream_event_def)

lemma recon_off_stays:
  "wm_recon w \<in> {RecOff, RecDone} \<Longrightarrow> wm_recon (reconcile_page resp w) = wm_recon w"
  "wm_recon w \<in> {RecOff, RecDone} \<Longrightarrow> wm_recon (reconcile_finish now w) = wm_recon w"
  "wm_recon w \<in> {RecOff, RecDone} \<Longrightarrow> wm_recon (reconcile_wake now w) = wm_recon w"
  by (auto simp: reconcile_page_def reconcile_finish_def reconcile_wake_def)

lemma session_inv_stop_begin: "session_inv w \<Longrightarrow> session_inv (stop_begin w)"
proof (cases "wm_stopped w")
  case False
  assume "session_inv w"
  let ?w1 = "w\<lparr>wm_stopped := True, wm_state := Stopped\<rparr>"
  have "scope_moves ?w1 (fold stop_watcher (map_keys (wm_watcherStops ?w1)) ?w1)" by (rule scope_moves_fold_stop)
  then show ?thesis using \<open>session_inv w\<close> False
    by (auto simp: stop_begin_def Let_def session_inv_def stop_ok_def scope_moves_def intro: session_ok_later)
qed (simp add: stop_begin_def)

lemma session_inv_step: "session_inv w \<Longrightarrow> session_inv (watch_step collate act w)"
proof (cases act)
  case (SessionFailed now)
  assume "session_inv w"
  then show ?thesis using SessionFailed session_inv_failed [of w now] by (simp split: run_pc.split)
next
  case (SendOk now)
  assume "session_inv w"
  then show ?thesis using SendOk by (auto simp: session_inv_def session_ok_def stop_ok_def session_connected_def split: run_pc.splits)
next
  case ReconHeadStep
  assume "session_inv w"
  then show ?thesis using ReconHeadStep session_inv_rframe [OF rframe_reconcile_wake(2)] by auto
next
  case (ReconPage resp)
  assume "session_inv w"
  then show ?thesis using ReconPage session_inv_rframe [OF rframe_reconcile_page] recon_off_stays by auto
next
  case (ReconFinish now)
  assume "session_inv w"
  then show ?thesis using ReconFinish session_inv_rframe [OF rframe_reconcile_finish] recon_off_stays by auto
next
  case (ReconWake now)
  assume "session_inv w"
  then show ?thesis using ReconWake session_inv_rframe [OF rframe_reconcile_wake(1)] recon_off_stays by auto
next
  case BackoffDone
  assume "session_inv w"
  then show ?thesis using BackoffDone
    by (auto simp: session_inv_def stop_ok_def session_ok_none backoff_done_def dest: session_ok_snap)
next
  case StopFinish
  assume "session_inv w"
  then show ?thesis using StopFinish by (auto simp: session_inv_def stop_ok_def session_ok_none stop_finish_def dest: session_ok_snap)
next
  case RootAbort
  assume "session_inv w"
  then show ?thesis using RootAbort by (auto simp: session_inv_def stop_ok_def)
next
  case NamespaceWake
  assume "session_inv w"
  then show ?thesis using NamespaceWake by (auto simp: session_inv_def stop_ok_def session_ok_none dest: session_ok_snap)
next
  case ReconWaitWake
  assume "session_inv w"
  then show ?thesis using ReconWaitWake by (auto simp: session_inv_def stop_ok_def)
next
  case (CacheOp op)
  assume "session_inv w"
  then show ?thesis using CacheOp by (auto simp: session_inv_def stop_ok_def)
qed (simp_all add: scope_moves_inv [OF scope_moves_register] scope_moves_inv [OF scope_moves_unregister]
    scope_moves_inv [OF scope_moves_watch] scope_moves_inv [OF scope_moves_stop_watcher] session_inv_stop_begin
    session_inv_run_head session_inv_stream_event)

interpretation session_sys: invariant_system "watch_step collate" session_inv for collate
  by unfold_locales (rule session_inv_step)

lemma session_inv_new: "newSubscriptionManager iv ab cache = Inr w \<Longrightarrow> session_inv w"
  by (auto simp: newSubscriptionManager_def session_inv_def session_ok_def stop_ok_def split: option.splits js_number.splits if_splits)

section \<open>Revisions\<close>

definition rev_bound :: "int \<Rightarrow> watch_mgr \<Rightarrow> bool" where
  "rev_bound b w \<longleftrightarrow> (\<forall>p k. map_get (wm_known w) p = Some k \<longrightarrow> kv_revision k \<le> b)"

lemma rev_bound_mono: "rev_bound b w \<Longrightarrow> b \<le> b' \<Longrightarrow> rev_bound b' w"
  unfolding rev_bound_def by (meson order_trans)

lemma rev_bound_upd [simp]:
  "rev_bound b (wm_cache_update f w) = rev_bound b w" "rev_bound b (emit os w) = rev_bound b w"
  "rev_bound b (wm_recon_update g w) = rev_bound b w" "rev_bound b (fireWatchers ns ev w) = rev_bound b w"
  "rev_bound b (wm_lastEventAt_update i w) = rev_bound b w"
  "rev_bound b (wm_snapshotGeneration_update j w) = rev_bound b w" "rev_bound b (advanceRevision r w) = rev_bound b w"
  by (simp_all add: rev_bound_def emit_def fireWatchers_def advanceRevision_def)

lemma rev_bound_setValue:
  assumes "rev_bound b w" "r \<le> b"
  shows "rev_bound b (setValue path v present ver r rec w)"
  using assms unfolding rev_bound_def
  by (auto simp: setValue_def Let_def emit_def fireWatchers_def split: option.splits if_splits)

lemma rev_bound_sub:
  "rev_bound b w \<Longrightarrow> (\<And>p k. map_get (wm_known w') p = Some k \<Longrightarrow> map_get (wm_known w) p = Some k) \<Longrightarrow> rev_bound b w'"
  by (auto simp: rev_bound_def)

lemma rev_bound_applySnapshot: "rev_bound b w \<Longrightarrow> r \<le> b \<Longrightarrow> rev_bound b (applySnapshot s r w)"
  unfolding applySnapshot_def Let_def
  by (auto intro!: fold_inv [of "rev_bound b"] rev_bound_setValue simp: drop_absent_def split: prod.split option.split)

lemma rev_bound_applyChange: "rev_bound b w \<Longrightarrow> r \<le> b \<Longrightarrow> rev_bound b (applyChange ch r w)"
  by (auto simp: applyChange_def Let_def intro!: rev_bound_setValue split: option.split)

lemma rev_bound_applySecretChange: "rev_bound b w \<Longrightarrow> rev_bound b (applySecretChange ch r w)"
  by (auto simp: applySecretChange_def Let_def split: option.split)

lemma rev_bound_handleEvent: "rev_bound b w \<Longrightarrow> r \<le> b \<Longrightarrow> rev_bound b (handleEvent ev r g now w)"
  by (auto simp: handleEvent_def Let_def rev_bound_applySnapshot rev_bound_applyChange rev_bound_applySecretChange
      split: subscribe_event.split option.split)

lemma lastRevision_apply [simp]:
  "wm_lastRevision (applySnapshot s r w) = wm_lastRevision w" "wm_lastRevision (applyChange ch r w) = wm_lastRevision w"
  "wm_lastRevision (applySecretChange sc r w) = wm_lastRevision w"
  using vframe_fields(10) [of w "applySnapshot s r w"] vframe_fields(10) [of w "applyChange ch r w"]
    vframe_fields(10) [of w "applySecretChange sc r w"] by simp_all

lemma lastRevision_handleEvent:
  "wm_lastRevision (handleEvent ev r g now w) = (if ev = NoEvent then wm_lastRevision w else max (wm_lastRevision w) r)"
  by (auto simp: handleEvent_def Let_def advanceRevision_def emit_def split: subscribe_event.split option.split)

lemma lastRevision_step:
  "wm_lastRevision (watch_step collate act w) =
    (case act of
       StreamEvent ev r now \<Rightarrow>
         (case wm_run w of
            RunStreaming g full \<Rightarrow> if g = wm_namespaceGeneration w \<and> ev \<noteq> NoEvent then max (wm_lastRevision w) r
                                  else wm_lastRevision w
          | _ \<Rightarrow> wm_lastRevision w)
     | _ \<Rightarrow> wm_lastRevision w)"
  by (cases act) (simp_all add: registerParameter_fields stop_begin_def stop_finish_def Let_def stream_event_def
      lastRevision_handleEvent split: run_pc.split)

interpretation revision_sys: monotone_system "watch_step collate" "\<lambda>_. True" wm_lastRevision for collate
  by unfold_locales (auto simp: lastRevision_step split: watch_action.split run_pc.split)

fun recon_bound :: "int \<Rightarrow> recon_pc \<Rightarrow> bool" where
  "recon_bound b (RecListing rn) \<longleftrightarrow> rn_snapshotRevision rn \<le> b"
| "recon_bound b (RecFinishing rn) \<longleftrightarrow> rn_snapshotRevision rn \<le> b"
| "recon_bound b _ \<longleftrightarrow> True"

definition rev_inv :: "watch_mgr \<Rightarrow> bool" where
  "rev_inv w \<longleftrightarrow> 0 \<le> wm_lastRevision w \<and> rev_bound (wm_lastRevision w) w \<and> recon_bound (wm_lastRevision w) (wm_recon w)"

lemma recon_bound_mono: "recon_bound b pc \<Longrightarrow> b \<le> b' \<Longrightarrow> recon_bound b' pc"
  by (cases pc) auto

lemma release_known_sub: "map_get (wm_known (release_and_restart ns w)) p = Some k \<Longrightarrow> map_get (wm_known w) p = Some k"
  by (auto simp: release_and_restart_def releaseNamespace_def Let_def restart_def scopeChanged_def
      map_get_filter_key [of "\<lambda>q. \<not> known_in (namespaceKey ns) q"] split: option.splits if_splits)

lemma unregister_known_sub: "map_get (wm_known (unregisterParameter h w)) p = Some k \<Longrightarrow> map_get (wm_known w) p = Some k"
proof (cases "map_get (wm_registrations w) h")
  case (Some r)
  assume "map_get (wm_known (unregisterParameter h w)) p = Some k"
  then have "map_get (wm_known (drop_registration h r w)) p = Some k"
    using Some by (auto simp: unregisterParameter_drop dest: release_known_sub)
  then show ?thesis using drop_registration_known [of h r w p] by auto
qed (simp add: unregisterParameter_drop)

lemma stop_watcher_known_sub: "map_get (wm_known (stop_watcher i w)) p = Some k \<Longrightarrow> map_get (wm_known w) p = Some k"
  by (auto simp: stop_watcher_def dest!: release_known_sub split: option.splits)

lemma fold_stop_known_sub: "map_get (wm_known (fold stop_watcher xs w)) p = Some k \<Longrightarrow> map_get (wm_known w) p = Some k"
  by (induction xs arbitrary: w) (auto dest!: stop_watcher_known_sub)

lemma rev_bound_page:
  assumes "rev_bound b w" "wm_recon w = RecListing rn" "rn_snapshotRevision rn \<le> b"
  shows "rev_bound b (reconcile_page resp w)"
  using assms
  by (auto simp: reconcile_page_def Let_def intro!: fold_inv [of "rev_bound b"] rev_bound_setValue
      split: list.split option.split)

lemma rev_bound_reconcile:
  assumes "rev_bound b w" "rn_snapshotRevision rn \<le> b"
  shows "rev_bound b (snd (reconcile rn w))"
  using assms
  by (auto simp: reconcile_def reconcile_absent_def Let_def intro!: fold_inv [of "rev_bound b"] rev_bound_setValue
      split: option.split)

lemma rev_bound_finish:
  assumes "rev_bound b w" "wm_recon w = RecFinishing rn" "rn_snapshotRevision rn \<le> b"
  shows "rev_bound b (reconcile_finish now w)"
  using rev_bound_reconcile [OF assms(1,3)] assms(2)
  by (auto simp: reconcile_finish_def rev_bound_def split: prod.split bool.split)

lemma recon_page_next:
  assumes "wm_recon w = RecListing rn"
  shows "case wm_recon (reconcile_page resp w) of
      RecListing rn' \<Rightarrow> rn_snapshotRevision rn' = rn_snapshotRevision rn
    | RecFinishing rn' \<Rightarrow> rn_snapshotRevision rn' = rn_snapshotRevision rn | _ \<Rightarrow> False"
  using assms
  by (auto simp: reconcile_page_def Let_def advance_run_def next_namespace_def split: list.split option.split)

lemma rev_inv_same:
  "rev_inv w \<Longrightarrow> wm_lastRevision w' = wm_lastRevision w \<Longrightarrow> wm_recon w' = wm_recon w \<or> wm_recon w' = RecHead \<Longrightarrow>
   (\<And>p k. map_get (wm_known w') p = Some k \<Longrightarrow> map_get (wm_known w) p = Some k) \<Longrightarrow> rev_inv w'"
  unfolding rev_inv_def by (auto intro: rev_bound_sub)

lemma rev_inv_register: "rev_inv w \<Longrightarrow> rev_inv (snd (registerParameter ref initial w))"
proof -
  assume inv: "rev_inv w"
  have "rev_bound (wm_lastRevision w) (snd (registerParameter ref initial w))"
    using inv by (auto simp: rev_inv_def rev_bound_def registerParameter_fields split: option.splits if_splits)
  moreover have "wm_recon (snd (registerParameter ref initial w)) \<in> {wm_recon w, RecHead}"
    using scope_moves_register [of w ref initial] by (auto simp: scope_moves_def)
  ultimately show ?thesis using inv by (auto simp: rev_inv_def registerParameter_fields)
qed

lemma rev_inv_event: "rev_inv w \<Longrightarrow> rev_inv (stream_event ev r now w)"
proof -
  assume inv: "rev_inv w"
  have "rev_bound (max (wm_lastRevision w) r) (handleEvent ev r g now w)" for g
    using inv by (intro rev_bound_handleEvent) (auto simp: rev_inv_def intro: rev_bound_mono)
  moreover have "rev_bound (wm_lastRevision w) (handleEvent NoEvent r g now w)" for g
    using inv by (simp add: handleEvent_def rev_inv_def)
  ultimately have "rev_inv (handleEvent ev r g now w)" for g
    using inv by (auto simp: rev_inv_def lastRevision_handleEvent handleEvent_fields max_def intro: recon_bound_mono)
  moreover have "rev_inv (session_failed now w)"
    using inv by (simp add: rev_inv_def) (simp add: session_failed_def rev_bound_def)
  ultimately show ?thesis using inv by (simp add: stream_event_def split: run_pc.split)
qed

lemma rev_inv_recon:
  assumes "rev_inv w"
  shows "rev_inv (reconcile_page resp w)" "rev_inv (reconcile_finish now w)" "rev_inv (reconcile_wake now w)"
    "rev_inv (reconcile_head w)"
proof -
  show "rev_inv (reconcile_page resp w)"
  proof (cases "wm_recon w")
    case (RecListing rn)
    then show ?thesis
      using assms rev_bound_page [of "wm_lastRevision w" w rn resp] recon_page_next [OF RecListing, of resp]
      by (auto simp: rev_inv_def split: recon_pc.splits)
  qed (use assms in \<open>auto simp: reconcile_page_def\<close>)
  show "rev_inv (reconcile_finish now w)"
  proof (cases "wm_recon w")
    case (RecFinishing rn)
    have "wm_recon (reconcile_finish now w) = RecHead"
      using RecFinishing by (simp add: reconcile_finish_def split: prod.split bool.split)
    then show ?thesis
      using assms rev_bound_finish [of "wm_lastRevision w" w rn now] RecFinishing by (auto simp: rev_inv_def)
  qed (use assms in \<open>auto simp: reconcile_finish_def\<close>)
  show "rev_inv (reconcile_wake now w)" "rev_inv (reconcile_head w)"
    using assms by (auto simp: rev_inv_def rev_bound_def reconcile_wake_def reconcile_begin_def reconcile_head_def
        advance_run_def Let_def split: recon_pc.splits)
qed

lemma rev_inv_step: "rev_inv w \<Longrightarrow> rev_inv (watch_step collate act w)"
proof (cases act)
  case (WatchNamespace ns ab)
  assume inv: "rev_inv w"
  have "wm_known (snd (watch ns ab w)) = wm_known w" by (simp add: watch_def Let_def)
  moreover have "wm_recon (snd (watch ns ab w)) \<in> {wm_recon w, RecHead}"
    using scope_moves_watch [of w ns ab] by (auto simp: scope_moves_def)
  ultimately show ?thesis using WatchNamespace inv rev_inv_same [OF inv, of "snd (watch ns ab w)"] by auto
next
  case StopBegin
  assume inv: "rev_inv w"
  show ?thesis using StopBegin
    by (auto intro!: rev_inv_same [OF inv] dest!: fold_stop_known_sub simp: stop_begin_def Let_def)
next
  case RunHeadStep
  assume inv: "rev_inv w"
  show ?thesis using RunHeadStep inv
    by (auto intro!: rev_inv_same [OF inv] simp: run_head_def open_session_def Let_def emit_def)
qed (auto simp: rev_inv_register rev_inv_event rev_inv_recon session_connected_def session_failed_def
    backoff_done_def stop_finish_def split: run_pc.split
    intro: rev_inv_same [of w] dest: unregister_known_sub stop_watcher_known_sub)

interpretation rev_sys: invariant_system "watch_step collate" rev_inv for collate
  by unfold_locales (rule rev_inv_step)

lemma rev_inv_new: "newSubscriptionManager iv ab cache = Inr w \<Longrightarrow> rev_inv w"
  by (auto simp: newSubscriptionManager_def rev_inv_def rev_bound_def split: option.splits js_number.splits if_splits)

section \<open>Snapshots\<close>

definition known_val :: "watch_mgr \<Rightarrow> string \<Rightarrow> string option" where
  "known_val w p =
     (case map_get (wm_known w) p of None \<Rightarrow> None | Some k \<Rightarrow> if kv_present k then Some (kv_value k) else None)"

definition settled :: "int \<Rightarrow> watch_mgr \<Rightarrow> string \<Rightarrow> bool" where
  "settled r w p \<longleftrightarrow> (\<exists>k. map_get (wm_known w) p = Some k \<and> kv_revision k = r)"

lemma live_allowed: "rev_bound r w \<Longrightarrow> r \<noteq> 0 \<Longrightarrow> set_allowed w p r False \<longleftrightarrow> \<not> settled r w p"
  by (force simp: set_allowed_def settled_def rev_bound_def revisionAllowsWrite_def split: option.split)

lemma known_val_setValue:
  "known_val (setValue path v present ver r rec w) p =
    (if p = path \<and> set_allowed w path r rec then (if present then Some v else None) else known_val w p)"
proof (cases "p = path \<and> set_allowed w path r rec")
  case True
  then show ?thesis
    using setValue_known_same [of w path r rec v present ver]
    by (auto simp: known_val_def split: option.split if_splits)
next
  case False
  then show ?thesis by (auto simp: known_val_def setValue_known_other setValue_rejected)
qed

lemma settled_setValue:
  assumes "rev_bound r w"
  shows "settled r (setValue path v True ver r False w) p \<longleftrightarrow> settled r w p \<or> p = path \<and> set_allowed w path r False"
proof (cases "set_allowed w path r False")
  case True
  have le: "\<not> r < kv_revision k" if "map_get (wm_known w) path = Some k" for k
    using assms that by (auto simp: rev_bound_def not_less)
  have "map_get (wm_known (setValue path v True ver r False w)) path \<noteq> None \<and>
      (\<forall>k. map_get (wm_known (setValue path v True ver r False w)) path = Some k \<longrightarrow> kv_revision k = r)"
    using True le
    by (auto simp: setValue_def set_allowed_def Let_def emit_def fireWatchers_def split: option.splits)
  then show ?thesis using True by (cases "p = path") (auto simp: settled_def setValue_known_other)
next
  case False
  then show ?thesis by (simp add: setValue_rejected)
qed

definition put_all :: "int \<Rightarrow> (string \<times> string \<times> int) list \<Rightarrow> watch_mgr \<Rightarrow> watch_mgr" where
  "put_all r = fold (\<lambda>(path, v, ver). setValue path v True ver r False)"

lemma put_all_simps [simp]:
  "put_all r [] w = w"
  "put_all r ((q, v, ver) # vals) w = put_all r vals (setValue q v True ver r False w)"
  by (simp_all add: put_all_def)

lemma rev_bound_put_all: "rev_bound r w \<Longrightarrow> rev_bound r (put_all r vals w)"
  by (induction vals arbitrary: w) (auto simp: rev_bound_setValue)

lemma settled_put_all:
  "rev_bound r w \<Longrightarrow> r \<noteq> 0 \<Longrightarrow> settled r (put_all r vals w) p \<longleftrightarrow> settled r w p \<or> p \<in> fst ` set vals"
proof (induction vals arbitrary: w)
  case (Cons x vals)
  obtain q v ver where x: "x = (q, v, ver)" by (cases x)
  have "rev_bound r (setValue q v True ver r False w)" using Cons.prems by (simp add: rev_bound_setValue)
  from Cons.IH [OF this Cons.prems(2)] show ?case
    using Cons.prems x by (auto simp: settled_setValue live_allowed)
qed simp

lemma known_val_put_all:
  "rev_bound r w \<Longrightarrow> r \<noteq> 0 \<Longrightarrow> known_val (put_all r vals w) p =
    (if settled r w p then known_val w p
     else case map_of vals p of Some (v, ver) \<Rightarrow> Some v | None \<Rightarrow> known_val w p)"
proof (induction vals arbitrary: w)
  case (Cons x vals)
  obtain q v ver where x: "x = (q, v, ver)" by (cases x)
  have "rev_bound r (setValue q v True ver r False w)" using Cons.prems by (simp add: rev_bound_setValue)
  from Cons.IH [OF this Cons.prems(2)] show ?case
    using Cons.prems x by (auto simp: settled_setValue live_allowed known_val_setValue split: option.split)
qed simp

lemma pathInStreamScope_cong:
  "wm_streamNamespaces w' = wm_streamNamespaces w \<Longrightarrow> pathInStreamScope w' = pathInStreamScope w"
  by (rule ext) (simp add: pathInStreamScope_def cong: option.case_cong)

lemma scope_setValue [simp]: "pathInStreamScope (setValue q v b ver r rec w) = pathInStreamScope w"
  using vframe_fields(8) [of w "setValue q v b ver r rec w"] by (intro pathInStreamScope_cong) simp

lemma scope_put_all [simp]: "pathInStreamScope (put_all r vals w) = pathInStreamScope w"
  by (induction vals arbitrary: w) auto

lemma known_val_drop:
  assumes "rev_bound r w" "r \<noteq> 0"
  shows "known_val (drop_absent ps r q w) p =
    (if p = q \<and> q \<notin> set ps \<and> pathInStreamScope w q \<and> \<not> settled r w q then None else known_val w p)"
proof (cases "map_get (wm_known w) q")
  case None
  then show ?thesis by (auto simp: drop_absent_def known_val_def)
next
  case (Some k)
  show ?thesis
  proof (cases "\<not> kv_present k \<or> q \<in> set ps \<or> \<not> pathInStreamScope w q")
    case True
    then show ?thesis using Some by (auto simp: drop_absent_def known_val_def)
  next
    case False
    then have "drop_absent ps r q w = setValue q [] False 0 r False w" using Some by (simp add: drop_absent_def)
    then show ?thesis using False live_allowed [OF assms, of q] by (simp add: known_val_setValue)
  qed
qed

lemma snapshot_drops:
  assumes "rev_bound r w" "r \<noteq> 0" "\<not> settled r w p"
  shows "known_val (fold (drop_absent ps r) qs w) p =
    (if p \<in> set qs \<and> p \<notin> set ps \<and> pathInStreamScope w p then None else known_val w p)"
  using assms(1,3)
proof (induction qs arbitrary: w)
  case (Cons q qs)
  let ?w = "drop_absent ps r q w"
  have rb: "rev_bound r ?w" using Cons.prems by (auto simp: drop_absent_def rev_bound_setValue split: option.split)
  have sc: "pathInStreamScope ?w = pathInStreamScope w" by (simp add: drop_absent_def split: option.split)
  note here = known_val_drop [OF Cons.prems(1) assms(2), of ps q p]
  have none: "known_val (fold (drop_absent ps r) qs w') p = None" if "known_val w' p = None" "rev_bound r w'" for w'
    using that
  proof (induction qs arbitrary: w')
    case (Cons a qs)
    have "rev_bound r (drop_absent ps r a w')"
      using Cons.prems by (auto simp: drop_absent_def rev_bound_setValue split: option.split)
    then show ?case using Cons known_val_drop [OF Cons.prems(2) assms(2), of ps a p] by simp
  qed simp
  show ?case
  proof (cases "q = p \<and> p \<notin> set ps \<and> pathInStreamScope w p")
    case True
    then show ?thesis using here none [OF _ rb] Cons.prems by simp
  next
    case False
    have "\<not> settled r ?w p"
    proof (cases "q = p")
      case True
      then show ?thesis using False Cons.prems by (auto simp: drop_absent_def split: option.split)
    next
      case neq: False
      then show ?thesis using Cons.prems
        by (auto simp: drop_absent_def settled_def setValue_known_other split: option.split)
    qed
    from Cons.IH [OF rb this] show ?thesis using here sc False by auto
  qed
qed simp

lemma applySnapshot_known:
  assumes "rev_bound b w" "b < r" "0 \<le> b"
  shows "known_val (applySnapshot snap r w) p =
    (case map_of (snapshot_values snap) p of
       Some (v, ver) \<Rightarrow> Some v
     | None \<Rightarrow> if pathInStreamScope w p then None else known_val w p)"
proof -
  define w1 where "w1 = w\<lparr>wm_cache := invalidateSecretsInNamespaces (map NsRef (wm_streamNamespaces w))
      (snd (invalidateParametersInNamespaces (map NsRef (wm_streamNamespaces w)) (wm_cache w)))\<rparr>"
  define vals where "vals = snapshot_values snap"
  define w2 where "w2 = put_all r vals w1"
  have eq: "applySnapshot snap r w = fold (drop_absent (map fst vals) r) (map_keys (wm_known w2)) w2"
    by (simp add: applySnapshot_def Let_def w1_def w2_def vals_def put_all_def)
  have w1: "known_val w1 = known_val w" "pathInStreamScope w1 = pathInStreamScope w"
    by (simp add: w1_def known_val_def fun_eq_iff, rule pathInStreamScope_cong) (simp add: w1_def)
  have rb: "rev_bound r w1" "r \<noteq> 0" using assms by (auto simp: w1_def intro: rev_bound_mono)
  have ns: "\<not> settled r w1 q" for q using assms(1,2) by (force simp: settled_def w1_def rev_bound_def)
  have puts: "rev_bound r w2" "settled r w2 q \<longleftrightarrow> q \<in> fst ` set vals" for q
    using rev_bound_put_all [OF rb(1)] settled_put_all [OF rb] ns by (simp_all add: w2_def)
  have puts1: "known_val w2 q = (case map_of vals q of Some (v, ver) \<Rightarrow> Some v | None \<Rightarrow> known_val w q)" for q
    using known_val_put_all [OF rb, of vals q] ns w1 by (simp add: w2_def cong: option.case_cong)
  have sc: "pathInStreamScope w2 = pathInStreamScope w" using w1 by (simp add: w2_def)
  show ?thesis
  proof (cases "p \<in> fst ` set vals")
    case True
    then have "known_val (fold (drop_absent (map fst vals) r) qs w') p = known_val w' p" if "rev_bound r w'" for qs w'
      using that
    proof (induction qs arbitrary: w')
      case (Cons q qs)
      have "rev_bound r (drop_absent (map fst vals) r q w')"
        using Cons.prems by (auto simp: drop_absent_def rev_bound_setValue split: option.split)
      then show ?case using Cons known_val_drop [OF Cons.prems(2) rb(2), of "map fst vals" q p] by auto
    qed simp
    from this [OF puts(1)] show ?thesis
      using True puts1 [of p] eq by (cases "map_of vals p") (auto simp: vals_def [symmetric] map_of_eq_None_iff)
  next
    case False
    have "known_val w2 p = known_val w p" using False puts1 [of p] by (simp add: map_of_eq_None_iff [THEN iffD2])
    moreover have "p \<in> set (map_keys (wm_known w2)) \<or> known_val w2 p = None"
      by (cases "map_get (wm_known w2) p") (auto simp: known_val_def image_iff dest!: map_get_in intro: bexI [rotated])
    moreover have "\<not> settled r w2 p" using puts(2) [of p] False by simp
    ultimately show ?thesis
      using snapshot_drops [OF puts(1) rb(2), of p "map fst vals" "map_keys (wm_known w2)"] eq sc False
      by (auto simp: vals_def [symmetric] map_of_eq_None_iff [THEN iffD2])
  qed
qed

section \<open>Properties\<close>

definition small_mgr :: watch_mgr where
  "small_mgr = projr (newSubscriptionManager None False small_cache)"

lemma new_small_mgr: "newSubscriptionManager None False small_cache = Inr small_mgr"
  by (simp add: small_mgr_def newSubscriptionManager_def DEFAULT_RECONCILE_INTERVAL_MS_def)

lemmas small_mgr_simps = small_mgr_def newSubscriptionManager_def DEFAULT_RECONCILE_INTERVAL_MS_def

definition demo_ref :: resource_ref where
  "demo_ref = \<lparr>rr_namespace = \<lparr>ns_env = ''a'', ns_app = ''b''\<rparr>, rr_key = ''k''\<rparr>"

lemma demo_ref_ok: "ref_ok demo_ref"
  by (simp add: demo_ref_def ref_ok_def ns_ok_def)

text \<open>C3: update handlers never miss a change. Until a stop has completed, however registrations of well-formed references, stream events, snapshots,
  reconciliation pages and stops interleave, the last value the owner of a registration has seen (its
  initial value or the last call of its handler) is the value and presence the manager knows for the path.\<close>

theorem handlers_never_miss:
  assumes "newSubscriptionManager iv ab cache = Inr w0" "w = run (watch_step collate) acts w0"
    and "\<forall>act \<in> set acts. action_ok act" "mgr_live w"
    and "map_get (wm_registrations w) h = Some r"
  shows "\<exists>kv. map_get (wm_known w) (displayPath (reg_ref r)) = Some kv \<and>
    seen w h = Some (kv_value kv, kv_present kv)"
proof -
  have "watch_inv w" using watch_sys.inv_run_ok [OF watch_inv_new [OF assms(1)] assms(3)] assms(2) by simp
  then show ?thesis using assms(4,5) unfolding watch_inv_def mgr_inv_def seen_inv_def by blast
qed

theorem handlers_never_miss_witness:
  "\<exists>kv. map_get (wm_known (run (watch_step (\<lambda>_ _. True)) [Register demo_ref ''v''] small_mgr)) (displayPath demo_ref) = Some kv \<and>
    seen (run (watch_step (\<lambda>_ _. True)) [Register demo_ref ''v''] small_mgr) 0 = Some (kv_value kv, kv_present kv)"
proof -
  let ?w = "run (watch_step (\<lambda>_ _. True)) [Register demo_ref ''v''] small_mgr"
  have r: "map_get (wm_registrations ?w) 0 =
      Some \<lparr>reg_ref = demo_ref, reg_handlers = handler_set small_mgr (displayPath demo_ref)\<rparr>"
    by (simp add: registerParameter_fields) (simp add: small_mgr_simps map_get_Cons)
  have live: "mgr_live ?w" by (simp add: mgr_live_def registerParameter_fields) (simp add: small_mgr_simps)
  have ok: "\<forall>act \<in> set [Register demo_ref ''v'']. action_ok act" by (simp add: demo_ref_ok)
  from handlers_never_miss [OF new_small_mgr refl ok live r] show ?thesis by simp
qed

text \<open>C6: namespace reference counts are exact. Until a stop has completed, the count kept for a
  namespace is the number of registrations and watchers that use it, and the namespace is part of the
  watched set exactly when that number is not zero.\<close>

theorem refcounts_exact:
  assumes "newSubscriptionManager iv ab cache = Inr w0" "w = run (watch_step collate) acts w0"
    and "\<forall>act \<in> set acts. action_ok act" "mgr_live w"
  shows "map_get (wm_namespaceRefCounts w) key = (if users w key = 0 then None else Some (int (users w key))) \<and>
    (map_has (wm_namespaces w) key \<longleftrightarrow> users w key \<noteq> 0)"
proof -
  have "watch_inv w" using watch_sys.inv_run_ok [OF watch_inv_new [OF assms(1)] assms(3)] assms(2) by simp
  then show ?thesis
    using assms(4) by (auto simp: watch_inv_def mgr_inv_def ns_inv_def counts_ok_def map_has_get)
qed

theorem refcounts_exact_witness:
  "map_get (wm_namespaceRefCounts (run (watch_step (\<lambda>_ _. True)) [Register demo_ref ''v''] small_mgr)) (namespaceKey (rr_namespace demo_ref)) = Some 1"
proof -
  let ?w = "run (watch_step (\<lambda>_ _. True)) [Register demo_ref ''v''] small_mgr"
  have live: "mgr_live ?w" by (simp add: mgr_live_def registerParameter_fields) (simp add: small_mgr_simps)
  have ok: "\<forall>act \<in> set [Register demo_ref ''v'']. action_ok act" by (simp add: demo_ref_ok)
  have "users ?w (namespaceKey (rr_namespace demo_ref)) = 1"
    by (simp add: users_def registerParameter_fields) (simp add: small_mgr_simps)
  then show ?thesis
    using refcounts_exact [OF new_small_mgr refl ok live, of "namespaceKey (rr_namespace demo_ref)"] by simp
qed



text \<open>C10: shutdown is final. Once a stop has completed the manager reports the stopped state, and no
  later action (late registrations, leftover stream or reconciliation steps) brings it back.\<close>

theorem stop_terminal:
  assumes "newSubscriptionManager iv ab cache = Inr w0" "w = run (watch_step collate) acts w0"
    and "wm_stopped w" "\<not> wm_stopping w"
  shows "ws_state (watch_status_of (run (watch_step collate) later w)) = Stopped"
proof -
  have "session_inv (run (watch_step collate) later w)"
    using session_sys.inv_run [OF session_inv_new [OF assms(1)], of collate "acts @ later"] assms(2) by simp
  moreover have "wm_stopped (run (watch_step collate) later w) \<and> \<not> wm_stopping (run (watch_step collate) later w)"
    using assms(3,4)
  proof (induction later arbitrary: w)
    case (Cons act later)
    have "wm_stopped (watch_step collate act w) \<and> \<not> wm_stopping (watch_step collate act w)"
      using Cons.prems stop_flags_step(1) [of collate act w] stop_flags_step(2) [of act collate w]
      by (cases "act = StopBegin \<or> act = StopFinish") (auto simp: stop_begin_def stop_finish_def)
    then show ?case using Cons.IH by simp
  qed simp
  ultimately show ?thesis by (simp add: session_inv_def stop_ok_def watch_status_of_def)
qed

theorem stop_terminal_witness:
  "ws_state (watch_status_of (run (watch_step (\<lambda>_ _. True)) [Register demo_ref ''v'', SendOk 3]
     (run (watch_step (\<lambda>_ _. True)) [StopBegin, StopFinish] small_mgr))) = Stopped"
  by (rule stop_terminal [OF new_small_mgr refl])
    (simp_all add: small_mgr_simps stop_begin_def stop_finish_def)

lemma scope_registered:
  assumes "session_inv w" "wm_run w = RunStreaming (wm_namespaceGeneration w) full"
  shows "pathInStreamScope w p \<longleftrightarrow> (\<exists>ref. refOf p = Some ref \<and> rr_namespace ref \<in> snd ` set (wm_namespaces w))"
proof -
  have "set (wm_streamNamespaces w) = snd ` set (wm_namespaces w)"
    using assms by (auto simp: session_inv_def session_ok_def covers_def)
  then show ?thesis by (auto simp: pathInStreamScope_def list_ex_iff namespaceEquals_def split: option.split)
qed

text \<open>C5: a snapshot newer than everything the manager has seen, received on a stream whose events are
  handled, replaces its view of the registered namespaces: every path the snapshot lists has the value listed
  for it, every other path of a registered namespace is gone, and all other paths are untouched. The snapshot's
  revision becomes the current one.\<close>

theorem snapshot_installs:
  assumes "newSubscriptionManager iv ab cache = Inr w0" "w = run (watch_step collate) acts w0"
    and "wm_run w = RunStreaming g full" "g = wm_namespaceGeneration w" "wm_lastRevision w < revision"
    and "w' = watch_step collate (StreamEvent (SnapshotEvent snap) revision now) w"
  shows "known_val w' p =
    (case map_of (snapshot_values snap) p of
       Some (v, version) \<Rightarrow> Some v
     | None \<Rightarrow> if \<exists>ref. refOf p = Some ref \<and> rr_namespace ref \<in> snd ` set (wm_namespaces w) then None else known_val w p) \<and>
    wm_lastRevision w' = revision"
proof -
  let ?w = "w\<lparr>wm_lastEventAt := Some now\<rparr>"
  have inv: "rev_inv w" "session_inv w"
    using rev_sys.inv_run [OF rev_inv_new [OF assms(1)]] session_sys.inv_run [OF session_inv_new [OF assms(1)]] assms(2) by simp_all
  have "rev_bound (wm_lastRevision w) ?w" "0 \<le> wm_lastRevision w" using inv(1) by (simp_all add: rev_inv_def)
  from applySnapshot_known [OF this(1) assms(5) this(2), of snap p]
  have k: "known_val (applySnapshot snap revision ?w) p = (case map_of (snapshot_values snap) p of Some (v, version) \<Rightarrow> Some v
     | None \<Rightarrow> if pathInStreamScope w p then None else known_val w p)"
    by (simp add: known_val_def pathInStreamScope_def cong: option.case_cong)
  have "known_val w' p = known_val (applySnapshot snap revision ?w) p"
    using assms(3,4) unfolding assms(6) by (simp add: stream_event_def handleEvent_def Let_def advanceRevision_def known_val_def split: option.split)
  moreover have "wm_lastRevision w' = revision" using assms(3-5) unfolding assms(6) by (simp add: stream_event_def lastRevision_handleEvent)
  moreover have "pathInStreamScope w p \<longleftrightarrow> (\<exists>ref. refOf p = Some ref \<and> rr_namespace ref \<in> snd ` set (wm_namespaces w))"
    using scope_registered [OF inv(2)] assms(3,4) by blast
  ultimately show ?thesis using k by (simp only:)
qed

lemma fold_setValue_fenced:
  "r < wm_lastRevision w \<Longrightarrow> fold (\<lambda>p. setValue (lp_path p) (lp_value p) True (lp_version p) r True) items w = w"
  by (induction items) (simp_all add: setValue_rejected set_allowed_def)

text \<open>C8: reconciliation never overtakes the live stream. Once an event has moved the current revision
  past the revision a reconciliation started from, its remaining pages and its final pass change neither
  a known value nor the read cache, and call no handler or watcher.\<close>

theorem reconcile_never_overtakes:
  assumes "wm_recon w = RecListing rn \<or> wm_recon w = RecFinishing rn"
    and "rn_snapshotRevision rn < wm_lastRevision w"
    and "act = ReconPage response \<or> act = ReconFinish now"
  shows "wm_known (watch_step collate act w) = wm_known w \<and> wm_cache (watch_step collate act w) = wm_cache w \<and>
    wm_out (watch_step collate act w) = wm_out w"
  using assms
  by (auto simp: reconcile_page_def reconcile_finish_def reconcile_def Let_def fold_setValue_fenced
      split: list.split option.split)

lemma reconcile_finish_known:
  "wm_recon w = RecFinishing rn \<Longrightarrow> known_val (reconcile_finish now w) p = known_val (snd (reconcile rn w)) p"
  by (cases "reconcile rn w") (simp add: reconcile_finish_def known_val_def split: bool.split)

lemma reconcile_absent_justified:
  assumes "known_val w p = Some v" "known_val (fold (reconcile_absent rn) ps w) p = None"
  shows "p \<in> set ps \<and> p \<notin> set (rn_present rn) \<and>
    (\<exists>ref. refOf p = Some ref \<and> namespaceKey (rr_namespace ref) \<in> set (rn_completelyListed rn))"
  using assms
proof (induction ps arbitrary: w)
  case (Cons q ps)
  show ?case
  proof (cases "known_val (reconcile_absent rn q w) p")
    case None
    then show ?thesis using Cons.prems(1)
      by (auto simp: reconcile_absent_def known_val_setValue Let_def split: if_splits option.splits)
  next
    case (Some v')
    then have "known_val (reconcile_absent rn q w) p = Some v"
      using Cons.prems(1)
      by (auto simp: reconcile_absent_def known_val_setValue Let_def split: if_splits option.splits)
    then show ?thesis using Cons.IH Cons.prems(2) by auto
  qed
qed simp

lemma removal_guards:
  assumes "known_val w p = Some v" "known_val (watch_step collate (ReconFinish now) w) p = None"
  shows "\<exists>rn ref. wm_recon w = RecFinishing rn \<and> rn_generation rn = wm_namespaceGeneration w \<and>
    rn_snapshotRevision rn = wm_lastRevision w \<and> p \<in> set (rn_knownPaths rn) \<and> p \<notin> set (rn_present rn) \<and>
    refOf p = Some ref \<and> namespaceKey (rr_namespace ref) \<in> set (rn_completelyListed rn)"
proof (cases "wm_recon w")
  case (RecFinishing rn)
  then have "known_val (snd (reconcile rn w)) p = None" using assms(2) reconcile_finish_known by simp
  then have here: "rn_generation rn = wm_namespaceGeneration w" "rn_snapshotRevision rn = wm_lastRevision w"
    "known_val (fold (reconcile_absent rn) (rn_knownPaths rn) w) p = None"
    using assms(1) by (auto simp: reconcile_def Let_def split: if_splits)
  from reconcile_absent_justified [OF assms(1) here(3)] here(1,2) RecFinishing show ?thesis by auto
qed (use assms in \<open>simp_all add: reconcile_finish_def\<close>)

lemma demo_path: "refOf ''/a/b/k'' = Some demo_ref"
  using refOf_Some [of "displayPath demo_ref" demo_ref] demo_ref_ok
  by (simp add: demo_ref_def displayPath_def displayNamespace_def)

text \<open>Reconnect delays stay between ten milliseconds and one minute, and the first attempts are
  bounded by the doubling ceiling.\<close>

theorem backoff_bounds:
  assumes "0 \<le> r" "r < 1"
  shows "10 \<le> fullJitterBackoff attempt r \<and> fullJitterBackoff attempt r \<le> 60000 \<and>
    fullJitterBackoff attempt r \<le> 1000 * 2 ^ attempt"
proof -
  let ?c = "min 60000 (1000 * 2 ^ min attempt 6) :: real"
  have pow: "(2::real) ^ min attempt 6 \<le> 2 ^ attempt" by (intro power_increasing) auto
  have c: "1000 \<le> ?c" "?c \<le> 60000" "?c \<le> 1000 * 2 ^ attempt"
    using pow by (auto simp: min_le_iff_disj)
  have "r * ?c \<le> 1 * ?c" using assms c(1) by (intro mult_right_mono) auto
  then have "real_of_int \<lfloor>r * ?c\<rfloor> \<le> ?c" by linarith
  then have "real_of_int \<lfloor>r * ?c\<rfloor> \<le> 60000" "real_of_int \<lfloor>r * ?c\<rfloor> \<le> 1000 * 2 ^ attempt"
    using c(2,3) order_trans by blast+
  then have "real_of_int \<lfloor>r * ?c\<rfloor> \<le> real_of_int 60000"
    "real_of_int \<lfloor>r * ?c\<rfloor> \<le> real_of_int (1000 * 2 ^ attempt)" by simp_all
  then have "\<lfloor>r * ?c\<rfloor> \<le> 60000" "\<lfloor>r * ?c\<rfloor> \<le> 1000 * 2 ^ attempt"
    unfolding of_int_le_iff by simp_all
  moreover have "(10::int) \<le> 1000 * 2 ^ attempt"
    using one_le_power [of "2::int" attempt] by linarith
  ultimately show ?thesis by (simp add: fullJitterBackoff_def Let_def)
qed

theorem backoff_bounds_witness: "fullJitterBackoff 7 (1 / 2) \<le> 60000 \<and> fullJitterBackoff 7 (1 / 2) = 30000"
  using backoff_bounds [of "1 / 2" 7] by (simp add: fullJitterBackoff_def)

end
