(* ===== verification/Watch_Listing.thy ===== *)
theory Watch_Listing
  imports Watch_Stream
begin

text \<open>
  What stands behind the values a reconciliation of the watch manager removes
  (\<^verbatim>\<open>sdk/typescript/src/watch.ts\<close>, \<open>#reconcile\<close> and \<open>#reconcileNamespace\<close>). The pages that
  the list calls returned are read off the actions of a run, independently of the sets the manager
  keeps, and the removals are traced back to them.
\<close>

section \<open>Pages of a run\<close>

type_synonym listed_page = "namespace_ref \<times> string \<times> (listed_parameter list \<times> string) option"

text \<open>The list call an action answers: its namespace, the page token it was made with and the response.\<close>

fun page_of :: "watch_action \<Rightarrow> recon_pc \<Rightarrow> listed_page list" where
  "page_of (ReconPage response) (RecListing rn) =
     (case rn_todo rn of [] \<Rightarrow> [] | ns # _ \<Rightarrow> [(ns, rn_pageToken rn, response)])"
| "page_of _ _ = []"

fun listed_pages :: "(string \<Rightarrow> string \<Rightarrow> bool) \<Rightarrow> watch_action list \<Rightarrow> watch_mgr \<Rightarrow> listed_page list" where
  "listed_pages collate [] w = []"
| "listed_pages collate (act # acts) w = page_of act (wm_recon w) @ listed_pages collate acts (watch_step collate act w)"

fun page_items :: "listed_page \<Rightarrow> string set" where
  "page_items (ns, tok, None) = {}"
| "page_items (ns, tok, Some (items, token)) = lp_path ` set items"

definition page_paths :: "listed_page list \<Rightarrow> string set" where
  "page_paths pages = \<Union> (page_items ` set pages)"

text \<open>
  Successful list calls of one namespace, from the first page on, each made with the token the one before
  returned; the last argument is the token the last one returned. With the empty token the listing is complete.
\<close>

inductive listing :: "namespace_ref \<Rightarrow> listed_page list \<Rightarrow> string \<Rightarrow> bool" where
  listing_start: "listing ns [] []"
| listing_page: "listing ns pages tok \<Longrightarrow> pages = [] \<or> tok \<noteq> [] \<Longrightarrow>
    listing ns (pages @ [(ns, tok, Some (items, token))]) token"

lemma listed_pages_snoc:
  "listed_pages collate (acts @ [act]) w = listed_pages collate acts w @ page_of act (wm_recon (run (watch_step collate) acts w))"
  by (induction acts arbitrary: w) simp_all

lemma page_paths_simps [simp]:
  "page_paths [] = {}" "page_paths (ps @ qs) = page_paths ps \<union> page_paths qs"
  "page_paths [page] = page_items page"
  by (auto simp: page_paths_def)

section \<open>The sets of a reconciliation\<close>

text \<open>What \<open>completelyListed\<close> and \<open>present\<close> hold, in terms of the pages since the reconciliation began.\<close>

definition listed_ok :: "listed_page list \<Rightarrow> reconcile_run \<Rightarrow> string \<Rightarrow> bool" where
  "listed_ok pages rn key \<longleftrightarrow> (\<exists>ns before block after. namespaceKey ns = key \<and> pages = before @ block @ after \<and>
     block \<noteq> [] \<and> listing ns block [] \<and> page_paths block \<subseteq> set (rn_present rn))"

definition current_ok :: "listed_page list \<Rightarrow> reconcile_run \<Rightarrow> bool" where
  "current_ok pages rn \<longleftrightarrow> (\<forall>ns rest. rn_todo rn = ns # rest \<longrightarrow>
     (\<exists>before block. pages = before @ block \<and> listing ns block (rn_pageToken rn) \<and> (block = [] \<or> rn_pageToken rn \<noteq> []) \<and>
        page_paths block \<subseteq> set (rn_present rn)))"

definition run_ok :: "listed_page list \<Rightarrow> reconcile_run \<Rightarrow> bool" where
  "run_ok pages rn \<longleftrightarrow> (\<forall>key \<in> set (rn_completelyListed rn). listed_ok pages rn key) \<and> current_ok pages rn"

lemma listed_ok_more:
  "listed_ok pages rn key \<Longrightarrow> set (rn_present rn) \<subseteq> set (rn_present rn') \<Longrightarrow> listed_ok (pages @ rest) rn' key"
proof -
  assume "listed_ok pages rn key" "set (rn_present rn) \<subseteq> set (rn_present rn')"
  then obtain ns before block after where "namespaceKey ns = key" "pages @ rest = before @ block @ (after @ rest)"
    "block \<noteq> []" "listing ns block []" "page_paths block \<subseteq> set (rn_present rn')" by (auto simp: listed_ok_def)
  then show ?thesis unfolding listed_ok_def by blast
qed

lemma run_ok_next:
  "(\<And>key. key \<in> set (rn_completelyListed rn) \<Longrightarrow> listed_ok pages rn key) \<Longrightarrow> run_ok pages (next_namespace rn)"
  by (auto simp: run_ok_def current_ok_def next_namespace_def listed_ok_def intro!: exI [of _ pages] exI [of _ "[]"] listing_start)

fun run_of :: "recon_pc \<Rightarrow> reconcile_run option" where
  "run_of (RecListing rn) = Some rn"
| "run_of (RecFinishing rn) = Some rn"
| "run_of _ = None"

lemma run_of_advance [simp]: "run_of (advance_run rn) = Some rn"
  by (simp add: advance_run_def)

text \<open>A page keeps what was captured when the reconciliation began.\<close>

definition same_start :: "reconcile_run \<Rightarrow> reconcile_run \<Rightarrow> bool" where
  "same_start rn rn' \<longleftrightarrow> rn_generation rn' = rn_generation rn \<and> rn_snapshotRevision rn' = rn_snapshotRevision rn \<and>
     rn_knownPaths rn' = rn_knownPaths rn"

lemma page_run_ok:
  assumes "wm_recon w = RecListing rn" "run_ok pages rn"
  shows "\<exists>rn'. run_of (wm_recon (reconcile_page response w)) = Some rn' \<and> same_start rn rn' \<and>
    run_ok (pages @ page_of (ReconPage response) (RecListing rn)) rn'"
proof (cases "rn_todo rn")
  case Nil
  then show ?thesis using assms by (simp add: reconcile_page_def same_start_def)
next
  case (Cons ns todo)
  obtain before block where b: "pages = before @ block" "listing ns block (rn_pageToken rn)" "block = [] \<or> rn_pageToken rn \<noteq> []"
      "page_paths block \<subseteq> set (rn_present rn)"
    using assms(2) Cons unfolding run_ok_def current_ok_def by blast
  have old: "listed_ok (pages @ rest) rn' key"
    if "key \<in> set (rn_completelyListed rn)" "set (rn_present rn) \<subseteq> set (rn_present rn')" for rest rn' key
    using assms(2) that listed_ok_more unfolding run_ok_def by blast
  show ?thesis
  proof (cases "\<exists>items tok. response = Some (items, tok) \<and> rn_generation rn = wm_namespaceGeneration w \<and>
      map_has (wm_namespaces w) (namespaceKey ns)")
    case False
    then have "wm_recon (reconcile_page response w) = advance_run (next_namespace rn)"
      using assms(1) Cons by (auto simp: reconcile_page_def Let_def split: option.split)
    then show ?thesis using Cons old run_ok_next [of rn "pages @ [(ns, rn_pageToken rn, response)]"]
      by (simp add: same_start_def next_namespace_def)
  next
    case True
    then obtain items tok where r: "response = Some (items, tok)" "rn_generation rn = wm_namespaceGeneration w"
      "map_has (wm_namespaces w) (namespaceKey ns)" by blast
    let ?page = "(ns, rn_pageToken rn, response)"
    let ?rn1 = "rn\<lparr>rn_present := rn_present rn @ map lp_path items, rn_pageToken := tok, rn_page := Suc (rn_page rn)\<rparr>"
    let ?rn2 = "?rn1\<lparr>rn_completelyListed := rn_completelyListed rn @ [namespaceKey ns]\<rparr>"
    have l: "listing ns (block @ [?page]) tok" unfolding r(1) using b(2,3) by (rule listing_page)
    have paths: "page_paths (block @ [?page]) \<subseteq> set (rn_present ?rn1)" using b(4) r(1) by auto
    have "listed_ok (pages @ [?page]) ?rn2 (namespaceKey ns)" if "tok = []"
      unfolding listed_ok_def using that l paths b(1)
      by (intro exI [of _ ns] exI [of _ before] exI [of _ "block @ [?page]"] exI [of _ "[]"]) simp
    then have fin: "run_ok (pages @ [?page]) (next_namespace ?rn2)" if "tok = []"
      using that old by (intro run_ok_next) auto
    have "run_ok (pages @ [?page]) ?rn1" if "tok \<noteq> []"
      unfolding run_ok_def current_ok_def using old l paths b(1) Cons that by fastforce
    moreover have "run_ok (pages @ [?page]) (next_namespace ?rn1)" using old by (intro run_ok_next) auto
    ultimately show ?thesis using assms(1) Cons r fin
      by (auto simp: reconcile_page_def Let_def same_start_def next_namespace_def)
  qed
qed

section \<open>Histories\<close>

definition known_ok :: "watch_mgr \<Rightarrow> bool" where
  "known_ok w \<longleftrightarrow> map_ok (wm_known w)"

lemma known_ok_upd [simp]:
  "known_ok (wm_cache_update f w) = known_ok w" "known_ok (emit os w) = known_ok w" "known_ok (wm_recon_update g w) = known_ok w"
  "known_ok (fireWatchers ns ev w) = known_ok w" "known_ok (wm_lastEventAt_update i w) = known_ok w"
  "known_ok (wm_snapshotGeneration_update j w) = known_ok w" "known_ok (advanceRevision r w) = known_ok w"
  by (simp_all add: known_ok_def emit_def fireWatchers_def advanceRevision_def)

lemma known_ok_setValue: "known_ok w \<Longrightarrow> known_ok (setValue p v b ver r rec w)"
  by (auto simp: known_ok_def setValue_def Let_def emit_def fireWatchers_def jsmap_ok split: option.split)

lemma known_ok_release: "known_ok w \<Longrightarrow> known_ok (release_and_restart ns w)"
  by (auto simp: known_ok_def release_and_restart_def releaseNamespace_def Let_def restart_def scopeChanged_def jsmap_ok
      split: option.splits if_splits)

lemma known_ok_unregister: "known_ok w \<Longrightarrow> known_ok (unregisterParameter h w)"
  by (auto simp: unregisterParameter_drop intro!: known_ok_release split: option.splits)
    (auto simp: known_ok_def drop_registration_def Let_def jsmap_ok)

lemma known_ok_stop_watcher: "known_ok w \<Longrightarrow> known_ok (stop_watcher i w)"
  by (auto simp: stop_watcher_def intro!: known_ok_release split: option.splits) (simp add: known_ok_def)

lemma known_ok_apply:
  "known_ok w \<Longrightarrow> known_ok (applySnapshot s r w)" "known_ok w \<Longrightarrow> known_ok (applyChange c r w)"
  "known_ok w \<Longrightarrow> known_ok (applySecretChange sc r w)"
  unfolding applySnapshot_def applyChange_def applySecretChange_def Let_def
  by (auto intro!: fold_inv [of known_ok] known_ok_setValue simp: drop_absent_def split: prod.split option.split)

lemma known_ok_event: "known_ok w \<Longrightarrow> known_ok (stream_event ev r now w)"
proof -
  assume ok: "known_ok w"
  then have "known_ok (session_failed now w)" by (simp add: session_failed_def known_ok_def)
  moreover have "known_ok (handleEvent ev r g now w)" for g
    using ok by (auto simp: handleEvent_def Let_def known_ok_apply split: subscribe_event.split option.split)
  ultimately show ?thesis using ok by (simp add: stream_event_def split: run_pc.split)
qed

lemma known_ok_recon:
  assumes "known_ok w"
  shows "known_ok (reconcile_page response w)" "known_ok (reconcile_finish now w)" "known_ok (reconcile_wake now w)" "known_ok (reconcile_head w)"
proof -
  show "known_ok (reconcile_page response w)"
    using assms by (auto simp: reconcile_page_def Let_def intro!: fold_inv [of known_ok] known_ok_setValue
        split: recon_pc.split list.split option.split)
  have "known_ok (snd (reconcile rn w))" for rn
    using assms by (auto simp: reconcile_def reconcile_absent_def Let_def intro!: fold_inv [of known_ok] known_ok_setValue
        split: option.split)
  then have "known_ok w1" if "reconcile rn w = (b, w1)" for rn b w1 using that by (metis snd_conv)
  then show "known_ok (reconcile_finish now w)"
    using assms by (auto simp: reconcile_finish_def known_ok_def split: recon_pc.split prod.split bool.split)
  show "known_ok (reconcile_wake now w)" "known_ok (reconcile_head w)"
    using assms by (auto simp: reconcile_wake_def reconcile_begin_def reconcile_head_def Let_def known_ok_def split: recon_pc.split)
qed

lemma known_ok_step: "known_ok w \<Longrightarrow> known_ok (watch_step collate act w)"
proof (cases act)
  case (Register ref initial)
  assume "known_ok w"
  then show ?thesis using Register by (auto simp: known_ok_def registerParameter_fields jsmap_ok split: option.split)
next
  case (WatchNamespace ns ab)
  assume "known_ok w"
  then show ?thesis using WatchNamespace by (simp add: known_ok_def watch_def Let_def)
next
  case StopBegin
  assume ok: "known_ok w"
  have "known_ok (fold stop_watcher xs (w\<lparr>wm_stopped := True, wm_state := Stopped\<rparr>))" for xs
    using ok by (intro fold_inv [of known_ok] known_ok_stop_watcher) (simp_all add: known_ok_def)
  then show ?thesis using StopBegin ok by (simp add: stop_begin_def Let_def known_ok_def)
qed (auto simp: known_ok_event known_ok_recon known_ok_unregister known_ok_stop_watcher,
    auto simp: known_ok_def session_connected_def session_failed_def backoff_done_def stop_finish_def run_head_def open_session_def Let_def emit_def split: run_pc.split)

interpretation known_sys: invariant_system "watch_step collate" known_ok for collate
  by unfold_locales (rule known_ok_step)

lemma known_present: "known_ok w \<Longrightarrow> p \<in> set (map fst (filter (\<lambda>e. kv_present (snd e)) (wm_known w))) \<Longrightarrow> known_val w p \<noteq> None"
  by (auto simp: known_ok_def known_val_def dest!: map_get_iff [THEN iffD2])

text \<open>Only waking up starts a reconciliation, and only a page moves it on.\<close>

lemma other_steps:
  assumes "run_of (wm_recon (watch_step collate act w)) = Some rn" "\<nexists>now. act = ReconWake now" "\<nexists>response. act = ReconPage response"
  shows "wm_recon (watch_step collate act w) = wm_recon w"
proof (cases act)
  case (Register ref initial)
  then show ?thesis using assms(1) scope_moves_register [of w ref initial] by (auto simp: scope_moves_def)
next
  case (WatchNamespace ns ab)
  then show ?thesis using assms(1) scope_moves_watch [of w ns ab] by (auto simp: scope_moves_def)
next
  case (ReconFinish now)
  then show ?thesis using assms(1) by (auto simp: reconcile_finish_def split: recon_pc.splits prod.splits bool.splits)
qed (use assms in \<open>auto simp: stop_begin_def stop_finish_def Let_def reconcile_head_def split: run_pc.splits if_splits\<close>)

definition started :: "watch_mgr \<Rightarrow> reconcile_run \<Rightarrow> bool" where
  "started w rn \<longleftrightarrow> rn_generation rn = wm_namespaceGeneration w \<and> rn_snapshotRevision rn = wm_lastRevision w \<and>
     rn_knownPaths rn = map fst (filter (\<lambda>e. kv_present (snd e)) (wm_known w))"

lemma wake_starts:
  assumes "run_of (wm_recon (reconcile_wake now w)) = Some rn" "run_of (wm_recon w) = None"
  shows "started w rn \<and> run_ok [] rn"
  using assms
  by (auto simp: reconcile_wake_def reconcile_begin_def Let_def started_def run_ok_def current_ok_def
      intro: listing_start split: recon_pc.splits if_splits)

lemma wake_keeps: "run_of (wm_recon w) = Some rn \<Longrightarrow> reconcile_wake now w = w"
  by (cases "wm_recon w") (simp_all add: reconcile_wake_def)

lemma no_page: "\<nexists>response rn. act = ReconPage response \<and> pc = RecListing rn \<Longrightarrow> page_of act pc = []"
  by (cases "(act, pc)" rule: page_of.cases) auto

lemma recon_stays:
  assumes "run_of (wm_recon (watch_step collate act w)) = Some rn" "\<nexists>response rn. act = ReconPage response \<and> wm_recon w = RecListing rn"
    and "run_of (wm_recon w) = Some rn0 \<or> (\<nexists>now. act = ReconWake now)"
  shows "wm_recon (watch_step collate act w) = wm_recon w"
proof (cases "\<exists>response. act = ReconPage response")
  case True
  then show ?thesis using assms(2) by (cases "wm_recon w") (auto simp: reconcile_page_def)
next
  case False
  then show ?thesis using other_steps [OF assms(1)] assms(3) wake_keeps by (cases "\<exists>now. act = ReconWake now") auto
qed

lemma recon_history:
  assumes "run_of (wm_recon w0) = None" "run_of (wm_recon (run (watch_step collate) acts w0)) = Some rn"
  shows "\<exists>acts1 now acts2. acts = acts1 @ ReconWake now # acts2 \<and> started (run (watch_step collate) acts1 w0) rn \<and>
    run_ok (listed_pages collate acts2 (watch_step collate (ReconWake now) (run (watch_step collate) acts1 w0))) rn"
  using assms(2)
proof (induction acts arbitrary: rn rule: rev_induct)
  case (snoc act acts)
  let ?w = "run (watch_step collate) acts w0"
  show ?case
  proof (cases "\<exists>rn0. run_of (wm_recon ?w) = Some rn0")
    case True
    then obtain rn0 where r0: "run_of (wm_recon ?w) = Some rn0" by blast
    then obtain acts1 now acts2 where h: "acts = acts1 @ ReconWake now # acts2" "started (run (watch_step collate) acts1 w0) rn0"
      "run_ok (listed_pages collate acts2 (watch_step collate (ReconWake now) (run (watch_step collate) acts1 w0))) rn0"
      using snoc.IH by blast
    let ?w2 = "watch_step collate (ReconWake now) (run (watch_step collate) acts1 w0)"
    have w: "run (watch_step collate) acts2 ?w2 = ?w" using h(1) by simp
    have "same_start rn0 rn \<and> run_ok (listed_pages collate acts2 ?w2 @ page_of act (wm_recon ?w)) rn"
    proof (cases "\<exists>response rn1. act = ReconPage response \<and> wm_recon ?w = RecListing rn1")
      case True
      then obtain response where p: "act = ReconPage response" "wm_recon ?w = RecListing rn0" using r0 by auto
      then show ?thesis using page_run_ok [OF p(2) h(3), of response] snoc.prems by auto
    next
      case False
      then have "page_of act (wm_recon ?w) = []" "wm_recon (watch_step collate act ?w) = wm_recon ?w"
        using no_page recon_stays [of collate act ?w rn rn0] snoc.prems r0 by auto
      then show ?thesis using r0 h(3) snoc.prems by (simp add: same_start_def)
    qed
    then show ?thesis using h(1,2) w
      by (intro exI [of _ acts1] exI [of _ now] exI [of _ "acts2 @ [act]"]) (auto simp: listed_pages_snoc started_def same_start_def)
  next
    case False
    then have none: "run_of (wm_recon ?w) = None" by simp
    then obtain now where act: "act = ReconWake now"
      using recon_stays [of collate act ?w rn] snoc.prems by fastforce
    then show ?thesis using wake_starts [of now ?w rn] none snoc.prems
      by (intro exI [of _ acts] exI [of _ now] exI [of _ "[]"]) simp
  qed
qed (use assms(1) in simp)

section \<open>Removals\<close>

lemma new_no_run: "newSubscriptionManager iv ab cache = Inr w \<Longrightarrow> run_of (wm_recon w) = None \<and> known_ok w"
  by (auto simp: newSubscriptionManager_def known_ok_def split: option.splits js_number.splits if_splits)

text \<open>C9: reconciliation removes a value only with cause. When the last pass of a reconciliation drops a
  known value, in any run of the manager, the run contains the beginning of that reconciliation: the value was known
  then, neither the registered namespaces nor the live revision have moved since, and among the list
  calls answered since is a complete listing of the value's namespace: successful calls, from the first page to the
  one without a next page, each made with the token of the one before, none of which contains the value.\<close>

theorem reconcile_removal_justified:
  assumes "newSubscriptionManager iv ab cache = Inr w0" "w = run (watch_step collate) acts w0"
    and "known_val w p = Some v" "known_val (watch_step collate (ReconFinish now) w) p = None"
  shows "\<exists>acts1 now1 acts2 w1 ref ns before block after.
    acts = acts1 @ ReconWake now1 # acts2 \<and> w1 = run (watch_step collate) acts1 w0 \<and> known_val w1 p \<noteq> None \<and>
    wm_namespaceGeneration w = wm_namespaceGeneration w1 \<and> wm_lastRevision w = wm_lastRevision w1 \<and>
    refOf p = Some ref \<and> namespaceKey ns = namespaceKey (rr_namespace ref) \<and>
    listed_pages collate acts2 (watch_step collate (ReconWake now1) w1) = before @ block @ after \<and>
    block \<noteq> [] \<and> listing ns block [] \<and> p \<notin> page_paths block"
proof -
  obtain rn ref where rn: "wm_recon w = RecFinishing rn" "rn_generation rn = wm_namespaceGeneration w"
      "rn_snapshotRevision rn = wm_lastRevision w" "p \<in> set (rn_knownPaths rn)" "p \<notin> set (rn_present rn)"
      "refOf p = Some ref" "namespaceKey (rr_namespace ref) \<in> set (rn_completelyListed rn)"
    using removal_guards [OF assms(3,4)] by blast
  obtain acts1 now1 acts2 where h: "acts = acts1 @ ReconWake now1 # acts2" "started (run (watch_step collate) acts1 w0) rn"
      "run_ok (listed_pages collate acts2 (watch_step collate (ReconWake now1) (run (watch_step collate) acts1 w0))) rn"
    using recon_history [of w0 collate acts rn] new_no_run [OF assms(1)] rn(1) assms(2) by auto
  let ?w1 = "run (watch_step collate) acts1 w0"
  have "known_ok ?w1" using known_sys.inv_run new_no_run [OF assms(1)] by blast
  then have "known_val ?w1 p \<noteq> None" using known_present rn(4) h(2) by (simp add: started_def)
  moreover obtain ns before block after where "namespaceKey ns = namespaceKey (rr_namespace ref)"
      "listed_pages collate acts2 (watch_step collate (ReconWake now1) ?w1) = before @ block @ after"
      "block \<noteq> []" "listing ns block []" "page_paths block \<subseteq> set (rn_present rn)"
    using h(3) rn(7) unfolding run_ok_def listed_ok_def by blast
  ultimately show ?thesis using h(1,2) rn(2,3,5,6) unfolding started_def
    by (intro exI [of _ acts1] exI [of _ now1] exI [of _ acts2] exI [of _ ?w1] exI [of _ ref] exI [of _ ns] exI [of _ before]
        exI [of _ block] exI [of _ after]) auto
qed

section \<open>Concrete runs\<close>

lemma demo_refOf: "refOf (displayPath demo_ref) = Some demo_ref"
  using refOf_Some demo_ref_ok by blast

lemma empty_listing_removes:
  assumes "wm_known w = [(displayPath demo_ref, \<lparr>kv_value = v, kv_present = True, kv_revision = wm_lastRevision w\<rparr>)]"
    and "wm_namespaces w = [(namespaceKey (rr_namespace demo_ref), rr_namespace demo_ref)]" "\<not> wm_aborted w" "wm_recon w = RecHead"
    and "w' = run (watch_step collate) [ReconHeadStep, ReconWake t, ReconPage (Some ([], []))] w"
  shows "known_val w' (displayPath demo_ref) = Some v \<and> known_val (watch_step collate (ReconFinish t') w') (displayPath demo_ref) = None"
proof -
  let ?key = "namespaceKey (rr_namespace demo_ref)"
  have r: "wm_recon w' = RecFinishing \<lparr>rn_generation = wm_namespaceGeneration w, rn_total = 1, rn_todo = [], rn_knownPaths = [displayPath demo_ref],
      rn_snapshotRevision = wm_lastRevision w, rn_present = [], rn_completelyListed = [?key], rn_pageToken = [], rn_page = 0\<rparr>"
    "wm_known w' = wm_known w" "wm_namespaces w' = wm_namespaces w" "wm_namespaceGeneration w' = wm_namespaceGeneration w"
    "wm_lastRevision w' = wm_lastRevision w"
    using assms(1-4) unfolding assms(5)
    by (simp_all add: reconcile_head_def reconcile_wake_def reconcile_begin_def advance_run_def next_namespace_def reconcile_page_def
        Let_def map_has_get map_get_Cons)
  have "known_val (reconcile_finish t' w') (displayPath demo_ref) = None"
    unfolding reconcile_finish_known [OF r(1)]
    by (simp add: r(2-5) assms(1,2) reconcile_def reconcile_absent_def demo_refOf map_has_get map_get_Cons Let_def
        known_val_setValue set_allowed_def revisionAllowsWrite_def)
  then show ?thesis by (simp add: r(2) assms(1) known_val_def map_get_Cons)
qed

lemma wire_ref: "wireChangeRef (Some \<lparr>wr_namespace = Some (rr_namespace ref), wr_key = rr_key ref\<rparr>) = Some ref"
  by (simp add: wireChangeRef_def)

lemma snapshot_of_one:
  assumes "wm_known w = []"
  shows "wm_known (applySnapshot [\<lparr>sp_ref = Some \<lparr>wr_namespace = Some (rr_namespace ref), wr_key = rr_key ref\<rparr>,
      sp_value = v, sp_version = n\<rparr>] r w) = [(displayPath ref, \<lparr>kv_value = v, kv_present = True, kv_revision = r\<rparr>)]"
  using assms wire_ref [of ref]
  by (simp add: applySnapshot_def Let_def setValue_def emit_def fireWatchers_def map_get_Cons map_get_Nil drop_absent_def
      split: option.split)

text \<open>A parameter that a snapshot brought is missing from a complete listing of its namespace.\<close>

definition demo_snapshot :: "snapshot_parameter list" where
  "demo_snapshot = [\<lparr>sp_ref = Some \<lparr>wr_namespace = Some (rr_namespace demo_ref), wr_key = rr_key demo_ref\<rparr>, sp_value = ''v'', sp_version = 1\<rparr>]"

definition stream_acts :: "watch_action list" where
  "stream_acts = [WatchNamespace (rr_namespace demo_ref) False, RunHeadStep, SendOk 7]"

definition removal_acts :: "watch_action list" where
  "removal_acts = stream_acts @ [StreamEvent (SnapshotEvent demo_snapshot) 5 8, ReconHeadStep, ReconWake 9, ReconPage (Some ([], []))]"

lemma stream_state:
  fixes collate :: "string \<Rightarrow> string \<Rightarrow> bool"
  defines "w \<equiv> run (watch_step collate) stream_acts small_mgr"
  shows "wm_run w = RunStreaming 1 True" "wm_namespaceGeneration w = 1" "wm_lastRevision w = 0" "wm_known w = []"
    "wm_namespaces w = [(namespaceKey (rr_namespace demo_ref), rr_namespace demo_ref)]" "\<not> wm_aborted w" "wm_recon w = RecHead"
    "wm_cache w = small_cache"
  unfolding w_def stream_acts_def
  by (simp_all add: small_mgr_simps watch_def retain_and_start_def retainNamespace_def ensureStarted_def
      scopeChanged_def run_head_def open_session_def session_connected_def emit_def Let_def sort_ns_def
      invalidateSecretsInNamespaces_def)

lemma snapshot_state:
  fixes collate :: "string \<Rightarrow> string \<Rightarrow> bool"
  defines "w \<equiv> run (watch_step collate) (stream_acts @ [StreamEvent (SnapshotEvent demo_snapshot) 5 8]) small_mgr"
  shows "wm_known w = [(displayPath demo_ref, \<lparr>kv_value = ''v'', kv_present = True, kv_revision = 5\<rparr>)]" "wm_lastRevision w = 5"
    "wm_namespaces w = [(namespaceKey (rr_namespace demo_ref), rr_namespace demo_ref)]" "\<not> wm_aborted w" "wm_recon w = RecHead"
proof -
  let ?w = "run (watch_step collate) stream_acts small_mgr"
  note st = stream_state [of collate]
  have e: "w = advanceRevision 5 ((applySnapshot demo_snapshot 5 (?w\<lparr>wm_lastEventAt := Some 8\<rparr>))
      \<lparr>wm_snapshotGeneration := max (wm_snapshotGeneration (applySnapshot demo_snapshot 5 (?w\<lparr>wm_lastEventAt := Some 8\<rparr>))) 1\<rparr>)"
    by (simp add: w_def stream_event_def handleEvent_def st Let_def)
  show "wm_known w = [(displayPath demo_ref, \<lparr>kv_value = ''v'', kv_present = True, kv_revision = 5\<rparr>)]"
    using snapshot_of_one [of "?w\<lparr>wm_lastEventAt := Some 8\<rparr>" demo_ref "''v''" 1 5] st by (simp add: e advanceRevision_def demo_snapshot_def)
  note f = vframe_fields [of "?w\<lparr>wm_lastEventAt := Some 8\<rparr>" "applySnapshot demo_snapshot 5 (?w\<lparr>wm_lastEventAt := Some 8\<rparr>)"]
  show "wm_lastRevision w = 5" "wm_namespaces w = [(namespaceKey (rr_namespace demo_ref), rr_namespace demo_ref)]" "\<not> wm_aborted w"
    "wm_recon w = RecHead"
    using f st by (simp_all add: e advanceRevision_def)
qed

theorem reconcile_removal_justified_witness:
  "\<exists>before block after. listed_pages (\<lambda>_ _. True) [ReconPage (Some ([], []))]
      (run (watch_step (\<lambda>_ _. True)) (stream_acts @ [StreamEvent (SnapshotEvent demo_snapshot) 5 8, ReconHeadStep, ReconWake 9]) small_mgr) =
        before @ block @ after \<and> block \<noteq> [] \<and> displayPath demo_ref \<notin> page_paths block"
proof -
  let ?collate = "\<lambda>_ _. True" and ?p = "displayPath demo_ref"
  let ?w = "run (watch_step ?collate) (stream_acts @ [StreamEvent (SnapshotEvent demo_snapshot) 5 8]) small_mgr"
  have "run (watch_step ?collate) removal_acts small_mgr =
      run (watch_step ?collate) [ReconHeadStep, ReconWake 9, ReconPage (Some ([], []))] ?w" by (simp add: removal_acts_def)
  from empty_listing_removes [OF _ _ _ _ this, of "''v''" 10] snapshot_state [of ?collate]
  have gone: "known_val (run (watch_step ?collate) removal_acts small_mgr) ?p = Some ''v''"
    "known_val (watch_step ?collate (ReconFinish 10) (run (watch_step ?collate) removal_acts small_mgr)) ?p = None" by simp_all
  obtain acts1 now1 acts2 before block after where j: "removal_acts = acts1 @ ReconWake now1 # acts2"
      "listed_pages ?collate acts2 (watch_step ?collate (ReconWake now1) (run (watch_step ?collate) acts1 small_mgr)) = before @ block @ after"
      "block \<noteq> []" "?p \<notin> page_paths block"
    using reconcile_removal_justified [OF new_small_mgr refl gone] by blast
  have "acts1 = stream_acts @ [StreamEvent (SnapshotEvent demo_snapshot) 5 8, ReconHeadStep]" "now1 = 9" "acts2 = [ReconPage (Some ([], []))]"
    using j(1) by (auto simp: removal_acts_def stream_acts_def Cons_eq_append_conv)
  with j(2-4) show ?thesis by auto
qed

text \<open>A second snapshot drops the parameter and brings another one of the namespace.\<close>

theorem snapshot_installs_witness:
  "let w = run (watch_step (\<lambda>_ _. True)) (stream_acts @ [StreamEvent (SnapshotEvent demo_snapshot) 5 8]) small_mgr;
       ref = demo_ref\<lparr>rr_key := ''j''\<rparr>;
       snap = [\<lparr>sp_ref = Some \<lparr>wr_namespace = Some (rr_namespace ref), wr_key = rr_key ref\<rparr>, sp_value = ''u'', sp_version = 1\<rparr>];
       w' = watch_step (\<lambda>_ _. True) (StreamEvent (SnapshotEvent snap) 6 9) w
   in known_val w (displayPath demo_ref) = Some ''v'' \<and> known_val w' (displayPath demo_ref) = None \<and> known_val w' (displayPath ref) = Some ''u''"
proof -
  let ?w = "run (watch_step (\<lambda>_ _. True)) (stream_acts @ [StreamEvent (SnapshotEvent demo_snapshot) 5 8]) small_mgr"
  let ?ref = "demo_ref\<lparr>rr_key := ''j''\<rparr>"
  let ?snap = "[\<lparr>sp_ref = Some \<lparr>wr_namespace = Some (rr_namespace ?ref), wr_key = rr_key ?ref\<rparr>, sp_value = ''u'', sp_version = 1\<rparr>]"
  note st = snapshot_state [of "\<lambda>_ _. True"]
  have r: "wm_run ?w = RunStreaming 1 True" "1 = wm_namespaceGeneration ?w" "wm_lastRevision ?w < 6"
    using st by (simp_all add: stream_event_def stream_state handleEvent_fields)
  note inst = snapshot_installs [OF new_small_mgr refl r refl, of ?snap 9]
  have vals: "snapshot_values ?snap = [(displayPath ?ref, ''u'', 1)]" using wire_ref [of ?ref] by simp
  have ne: "displayPath demo_ref \<noteq> displayPath ?ref" by (simp add: demo_ref_def displayPath_def)
  have "known_val ?w (displayPath demo_ref) = Some ''v''" using st by (simp add: known_val_def map_get_Cons)
  moreover have "\<exists>ref. refOf (displayPath demo_ref) = Some ref \<and> rr_namespace ref \<in> snd ` set (wm_namespaces ?w)"
    using demo_refOf st(3) by simp
  ultimately show ?thesis using inst [of "displayPath demo_ref"] inst [of "displayPath ?ref"] ne unfolding Let_def vals by simp
qed

text \<open>A page that answers after the stream has moved on installs nothing.\<close>

theorem reconcile_never_overtakes_witness:
  "let acts = stream_acts @ [StreamEvent (SnapshotEvent demo_snapshot) 5 8, ReconHeadStep, ReconWake 9, StreamEvent Heartbeat 6 10];
       w = run (watch_step (\<lambda>_ _. True)) acts small_mgr;
       page = ReconPage (Some ([\<lparr>lp_path = displayPath demo_ref, lp_value = ''stale'', lp_version = 1\<rparr>], []))
   in known_val w (displayPath demo_ref) = Some ''v'' \<and> wm_known (watch_step (\<lambda>_ _. True) page w) = wm_known w"
proof -
  let ?w4 = "run (watch_step (\<lambda>_ _. True)) (stream_acts @ [StreamEvent (SnapshotEvent demo_snapshot) 5 8]) small_mgr"
  let ?w6 = "watch_step (\<lambda>_ _. True) (ReconWake 9) (watch_step (\<lambda>_ _. True) ReconHeadStep ?w4)"
  let ?w = "watch_step (\<lambda>_ _. True) (StreamEvent Heartbeat 6 10) ?w6"
  let ?page = "ReconPage (Some ([\<lparr>lp_path = displayPath demo_ref, lp_value = ''stale'', lp_version = 1\<rparr>], []))"
  note st = snapshot_state [of "\<lambda>_ _. True"]
  have run4: "wm_run ?w4 = RunStreaming 1 True" "wm_namespaceGeneration ?w4 = 1"
    by (simp_all add: stream_event_def stream_state handleEvent_fields)
  obtain rn where rn: "wm_recon ?w6 = RecListing rn" "rn_snapshotRevision rn = 5"
    using st(2-5) by (simp add: reconcile_head_def reconcile_wake_def reconcile_begin_def advance_run_def Let_def)
  have k6: "wm_known ?w6 = wm_known ?w4" "wm_run ?w6 = RunStreaming 1 True" "wm_namespaceGeneration ?w6 = 1" "wm_lastRevision ?w6 = 5"
    using st(2-5) run4 by (simp_all add: reconcile_head_def reconcile_wake_def reconcile_begin_def Let_def)
  have w: "wm_known ?w = wm_known ?w4" "wm_recon ?w = RecListing rn" "wm_lastRevision ?w = 6"
    using k6 rn(1) by (simp_all add: stream_event_def handleEvent_def advanceRevision_def emit_def Let_def)
  have "known_val ?w (displayPath demo_ref) = Some ''v''" unfolding known_val_def w(1) st(1) by (simp add: map_get_Cons)
  moreover have "wm_known (watch_step (\<lambda>_ _. True) ?page ?w) = wm_known ?w"
    using reconcile_never_overtakes [of ?w rn ?page _ 0 "\<lambda>_ _. True"] w(2,3) rn(2) by simp
  ultimately show ?thesis unfolding Let_def by simp
qed

end
