(* ===== verification/Release.thy ===== *)
theory Release
  imports Refs "HOL-Library.Char_ord" "HOL-Library.List_Lexorder"
begin

text \<open>
  Configuration releases (\<^verbatim>\<open>sdk/typescript/src/releases/types.ts\<close>,
  \<^verbatim>\<open>releases/digest.ts\<close>) and the value-free verification of defaults against a release
  (\<^verbatim>\<open>releases/verify.ts\<close>).

  A JavaScript string is represented by its UTF-8 bytes, so \<open>Buffer.from(text)\<close> is the identity
  and \<open>Buffer.compare\<close> is the lexicographic order of \<open>string\<close>. The protobuf encoder of a release
  and SHA-256 are code outside the sources: they are the parameters \<open>encode\<close> and \<open>sha256\<close>, the
  latter from bytes to the hexadecimal text the digest is printed as.

  The lemmas show that the digest does not depend on the order of the entries nor on the fields
  the server allocates, that it pins everything else, and that an accepted verification response
  answers each requested alias exactly once with counts that agree.
\<close>

section \<open>Hexadecimal text\<close>

definition is_lower_hex :: "char \<Rightarrow> bool" where
  "is_lower_hex c \<longleftrightarrow> is_digit c \<or> (97 \<le> (of_char c :: nat) \<and> (of_char c :: nat) \<le> 102)"

definition is_upper_hex :: "char \<Rightarrow> bool" where
  "is_upper_hex c \<longleftrightarrow> 65 \<le> (of_char c :: nat) \<and> (of_char c :: nat) \<le> 70"

definition is_hex :: "char \<Rightarrow> bool" where
  "is_hex c \<longleftrightarrow> is_lower_hex c \<or> is_upper_hex c"

definition hex_val :: "char \<Rightarrow> nat" where
  "hex_val c = (if is_digit c then of_char c - 48
     else if is_upper_hex c then of_char c - 55 else of_char c - 87)"

text \<open>\<open>toLowerCase\<close> on ASCII text, and the test \<open>/^[0-9a-f]{64}$/i\<close>.\<close>

definition ascii_lower :: "char \<Rightarrow> char" where
  "ascii_lower c = (if 65 \<le> (of_char c :: nat) \<and> (of_char c :: nat) \<le> 90 then char_of (of_char c + 32 :: nat) else c)"

definition hex64 :: "string \<Rightarrow> bool" where
  "hex64 s \<longleftrightarrow> length s = 64 \<and> list_all is_hex s"

text \<open>\<open>Buffer.from(text, "hex")\<close>: decoding stops at the first pair that is not hexadecimal.\<close>

fun hex_decode :: "string \<Rightarrow> nat list" where
  "hex_decode (a # b # s) = (if is_hex a \<and> is_hex b then (16 * hex_val a + hex_val b) # hex_decode s else [])"
| "hex_decode _ = []"

section \<open>Release data\<close>

text \<open>The wire messages of a release.\<close>

record release_entry =
  re_alias :: string
  re_kind :: string
  re_ref :: "wire_ref option"
  re_version :: int
  re_contentType :: string
  re_metadataJson :: string
  re_parameterDigest :: string

record configuration_release =
  cr_namespace :: "namespace_ref option"
  cr_name :: string
  cr_version :: int
  cr_schemaVersion :: int
  cr_entries :: "release_entry list"
  cr_digest :: string
  cr_metadataJson :: string
  cr_createdBy :: string
  cr_createdAtUnixMs :: int

datatype release_state = Received | Prepared | Applied | Rejected

fun release_state_name :: "release_state \<Rightarrow> string" where
  "release_state_name Received = ''received''"
| "release_state_name Prepared = ''prepared''"
| "release_state_name Applied = ''applied''"
| "release_state_name Rejected = ''rejected''"

definition RELEASE_STATES :: "release_state list" where
  "RELEASE_STATES = [Received, Prepared, Applied, Rejected]"

datatype release_category =
    ResolutionFailed | BindingKeyUnavailable | VersionMismatch | DigestMismatch | PrepareFailed
  | ConfigContractMismatch | ConfigDecodeFailed | ConfigValidationFailed | DefaultMismatch
  | RestartRequired | Superseded | ActiveCheckFailed | Internal

fun release_category_name :: "release_category \<Rightarrow> string" where
  "release_category_name ResolutionFailed = ''resolution_failed''"
| "release_category_name BindingKeyUnavailable = ''binding_key_unavailable''"
| "release_category_name VersionMismatch = ''version_mismatch''"
| "release_category_name DigestMismatch = ''digest_mismatch''"
| "release_category_name PrepareFailed = ''prepare_failed''"
| "release_category_name ConfigContractMismatch = ''config_contract_mismatch''"
| "release_category_name ConfigDecodeFailed = ''config_decode_failed''"
| "release_category_name ConfigValidationFailed = ''config_validation_failed''"
| "release_category_name DefaultMismatch = ''default_mismatch''"
| "release_category_name RestartRequired = ''restart_required''"
| "release_category_name Superseded = ''superseded''"
| "release_category_name ActiveCheckFailed = ''active_check_failed''"
| "release_category_name Internal = ''internal''"

definition RELEASE_REJECTION_CATEGORIES :: "release_category list" where
  "RELEASE_REJECTION_CATEGORIES =
     [ResolutionFailed, BindingKeyUnavailable, VersionMismatch, DigestMismatch, PrepareFailed,
      ConfigContractMismatch, ConfigDecodeFailed, ConfigValidationFailed, DefaultMismatch,
      RestartRequired, Superseded, ActiveCheckFailed, Internal]"

text \<open>
  An error an application callback throws matters only through its property
  \<open>releaseRejectionCategory\<close>: the string found there, or \<open>None\<close> when the thrown value is no
  object, has no such string, or its getter throws.
\<close>

type_synonym thrown = "string option"

definition classifiedReleaseCategory :: "thrown \<Rightarrow> release_category option" where
  "classifiedReleaseCategory err =
     (case err of None \<Rightarrow> None
      | Some s \<Rightarrow> find (\<lambda>c. release_category_name c = s) RELEASE_REJECTION_CATEGORIES)"

datatype release_entry_kind = ParameterEntry | SecretEntry

fun entry_kind_name :: "release_entry_kind \<Rightarrow> string" where
  "entry_kind_name ParameterEntry = ''parameter''"
| "entry_kind_name SecretEntry = ''secret''"

record entry_metadata =
  em_alias :: string
  em_kind :: release_entry_kind
  em_path :: string
  em_version :: int
  em_contentType :: string
  em_metadataJson :: string
  em_parameterDigest :: string

definition in_uint64 :: "int \<Rightarrow> bool" where
  "in_uint64 v \<longleftrightarrow> 0 \<le> v \<and> v \<le> UINT64_MAX"

definition newReleaseEntryMetadata ::
  "string \<Rightarrow> release_entry_kind \<Rightarrow> string \<Rightarrow> int \<Rightarrow> string option \<Rightarrow> string option \<Rightarrow> string option \<Rightarrow> entry_metadata option" where
  "newReleaseEntryMetadata alias kind path version contentType metadataJson parameterDigest =
     (if \<not> in_uint64 version then None
      else Some \<lparr>em_alias = alias, em_kind = kind, em_path = path, em_version = version,
        em_contentType = case_option [] id contentType, em_metadataJson = case_option [] id metadataJson,
        em_parameterDigest = case_option [] id parameterDigest\<rparr>)"

text \<open>A JSON object of strings, in property order; \<open>toJSON\<close> of an entry.\<close>

definition entry_toJSON :: "entry_metadata \<Rightarrow> (string \<times> string) list" where
  "entry_toJSON m =
     [(''alias'', em_alias m), (''kind'', entry_kind_name (em_kind m)), (''path'', em_path m),
      (''version'', dec_int (em_version m)), (''contentType'', em_contentType m),
      (''metadataJson'', em_metadataJson m), (''parameterDigest'', em_parameterDigest m)]"

record release_parameter =
  rp_value :: string
  rp_entry :: entry_metadata

record release_secret =
  rs_value :: string
  rs_entry :: entry_metadata

definition secret_clone :: "release_secret \<Rightarrow> release_secret" where
  "secret_clone s = \<lparr>rs_value = rs_value s, rs_entry = rs_entry s\<rparr>"

record release_identity =
  ri_namespace :: string
  ri_name :: string
  ri_version :: int
  ri_activationRevision :: int
  ri_targetRevision :: int
  ri_schemaVersion :: int
  ri_digest :: string
  ri_metadataJson :: string
  ri_entries :: "(string, entry_metadata) jsmap"

text \<open>The constructor refuses a version, fleet revision or schema version outside \<open>uint64\<close>.\<close>

definition newReleaseIdentity ::
  "string \<Rightarrow> string \<Rightarrow> int \<Rightarrow> int \<Rightarrow> int option \<Rightarrow> int option \<Rightarrow> string \<Rightarrow> string option \<Rightarrow>
     (string, entry_metadata) jsmap \<Rightarrow> release_identity option" where
  "newReleaseIdentity namespace name version activationRevision targetRevision schemaVersion digest metadataJson entries =
     (let schema = case_option 0 id schemaVersion
      in if \<not> in_uint64 version \<or> \<not> in_uint64 activationRevision \<or> \<not> in_uint64 schema then None
         else Some \<lparr>ri_namespace = namespace, ri_name = name, ri_version = version,
           ri_activationRevision = activationRevision,
           ri_targetRevision = case_option activationRevision id targetRevision,
           ri_schemaVersion = schema, ri_digest = digest, ri_metadataJson = case_option [] id metadataJson,
           ri_entries = entries\<rparr>)"

definition identity_entry :: "string \<Rightarrow> release_identity \<Rightarrow> entry_metadata option" where
  "identity_entry alias r = map_get (ri_entries r) alias"

record safe_release_json =
  sj_fields :: "(string \<times> string) list"
  sj_entries :: "(string \<times> entry_metadata) list"

definition safeJson :: "release_identity \<Rightarrow> safe_release_json" where
  "safeJson r =
     \<lparr>sj_fields = [(''namespace'', ri_namespace r), (''name'', ri_name r), (''version'', dec_int (ri_version r)),
        (''activationRevision'', dec_int (ri_activationRevision r)),
        (''schemaVersion'', dec_int (ri_schemaVersion r)), (''digest'', ri_digest r)],
      sj_entries = ri_entries r\<rparr>"

definition safeString :: "string \<Rightarrow> release_identity \<Rightarrow> string" where
  "safeString type r =
     type @ ''{'' @ ri_namespace r @ ''/'' @ ri_name r @ '' version='' @ dec_int (ri_version r) @
     '' revision='' @ dec_int (ri_activationRevision r) @ '' schemaVersion='' @ dec_int (ri_schemaVersion r) @
     '' digest='' @ ri_digest r @ '' entries='' @ dec_nat (length (ri_entries r)) @ ''}''"

record release_snapshot =
  sn_identity :: release_identity
  sn_parameters :: "(string, release_parameter) jsmap"
  sn_secrets :: "(string, release_secret) jsmap"

definition newReleaseSnapshot ::
  "release_identity \<Rightarrow> (string, release_parameter) jsmap \<Rightarrow> (string, release_secret) jsmap \<Rightarrow> release_snapshot" where
  "newReleaseSnapshot r ps ss =
     \<lparr>sn_identity = r, sn_parameters = ps, sn_secrets = map (\<lambda>e. (fst e, secret_clone (snd e))) ss\<rparr>"

definition snapshot_parameter_of :: "string \<Rightarrow> release_snapshot \<Rightarrow> release_parameter option" where
  "snapshot_parameter_of alias s = map_get (sn_parameters s) alias"

definition snapshot_secret_of :: "string \<Rightarrow> release_snapshot \<Rightarrow> release_secret option" where
  "snapshot_secret_of alias s = map_option secret_clone (map_get (sn_secrets s) alias)"

section \<open>Digests\<close>

datatype digest_error = ReleaseNamespaceRequired | EntryWithoutNamespace string | DigestLengthMismatch

definition projectEntry :: "release_entry \<Rightarrow> digest_error + release_entry" where
  "projectEntry e =
     (case re_ref e of None \<Rightarrow> Inl (EntryWithoutNamespace (re_alias e))
      | Some ref \<Rightarrow> (case wr_namespace ref of None \<Rightarrow> Inl (EntryWithoutNamespace (re_alias e))
         | Some ns \<Rightarrow> Inr \<lparr>re_alias = re_alias e, re_kind = re_kind e,
             re_ref = Some \<lparr>wr_namespace = Some \<lparr>ns_env = ns_env ns, ns_app = ns_app ns\<rparr>, wr_key = wr_key ref\<rparr>,
             re_version = re_version e, re_contentType = re_contentType e,
             re_metadataJson = re_metadataJson e, re_parameterDigest = re_parameterDigest e\<rparr>))"

text \<open>The projection that is hashed; \<open>Array.prototype.sort\<close> is stable, as is \<open>sort_key\<close>.\<close>

definition release_projection :: "configuration_release \<Rightarrow> digest_error + configuration_release" where
  "release_projection r =
     (case cr_namespace r of None \<Rightarrow> Inl ReleaseNamespaceRequired
      | Some ns \<Rightarrow> (case traverse projectEntry (sort_key re_alias (cr_entries r)) of Inl e \<Rightarrow> Inl e
         | Inr es \<Rightarrow> Inr \<lparr>cr_namespace = Some \<lparr>ns_env = ns_env ns, ns_app = ns_app ns\<rparr>, cr_name = cr_name r,
             cr_version = 0, cr_schemaVersion = cr_schemaVersion r, cr_entries = es, cr_digest = [],
             cr_metadataJson = cr_metadataJson r, cr_createdBy = [], cr_createdAtUnixMs = 0\<rparr>))"

definition deterministicReleaseDigest ::
  "(string \<Rightarrow> string) \<Rightarrow> (configuration_release \<Rightarrow> string) \<Rightarrow> configuration_release \<Rightarrow> digest_error + string" where
  "deterministicReleaseDigest sha256 encode r =
     (case release_projection r of Inl e \<Rightarrow> Inl e | Inr p \<Rightarrow> Inr (sha256 (encode p)))"

definition decodeSha256 :: "string \<Rightarrow> nat list option" where
  "decodeSha256 s = (if hex64 s then Some (hex_decode s) else None)"

text \<open>\<open>timingSafeEqual\<close> throws when its arguments differ in length.\<close>

definition timingSafeEqual :: "nat list \<Rightarrow> nat list \<Rightarrow> digest_error + bool" where
  "timingSafeEqual a b = (if length a \<noteq> length b then Inl DigestLengthMismatch else Inr (a = b))"

definition releaseDigestMatches ::
  "(string \<Rightarrow> string) \<Rightarrow> (configuration_release \<Rightarrow> string) \<Rightarrow> configuration_release \<Rightarrow> digest_error + bool" where
  "releaseDigestMatches sha256 encode r =
     (case decodeSha256 (cr_digest r) of None \<Rightarrow> Inr False
      | Some claimed \<Rightarrow> (case deterministicReleaseDigest sha256 encode r of Inl e \<Rightarrow> Inl e
         | Inr d \<Rightarrow> timingSafeEqual claimed (hex_decode d)))"

section \<open>Verification responses\<close>

datatype verify_verdict = Match | Differs | MissingInRelease | UnknownAlias | SecretAlias | UnsupportedContentType

fun verify_verdict_name :: "verify_verdict \<Rightarrow> string" where
  "verify_verdict_name Match = ''match''"
| "verify_verdict_name Differs = ''differs''"
| "verify_verdict_name MissingInRelease = ''missing_in_release''"
| "verify_verdict_name UnknownAlias = ''unknown_alias''"
| "verify_verdict_name SecretAlias = ''secret_alias''"
| "verify_verdict_name UnsupportedContentType = ''unsupported_content_type''"

definition VERIFY_VERDICTS :: "verify_verdict list" where
  "VERIFY_VERDICTS = [Match, Differs, MissingInRelease, UnknownAlias, SecretAlias, UnsupportedContentType]"

text \<open>\<open>isVerifyVerdict\<close>, returning the verdict it recognises.\<close>

definition isVerifyVerdict :: "string \<Rightarrow> verify_verdict option" where
  "isVerifyVerdict s = find (\<lambda>v. verify_verdict_name v = s) VERIFY_VERDICTS"

definition validLowerHex64 :: "string \<Rightarrow> bool" where
  "validLowerHex64 s \<longleftrightarrow> length s = 64 \<and> list_all is_lower_hex s"

definition validCount :: "js_number \<Rightarrow> bool" where
  "validCount n = (isInteger n \<and> (case n of NonFinite _ \<Rightarrow> False | Finite r \<Rightarrow> 0 \<le> r))"

record verify_response =
  vr_name :: string
  vr_releaseVersion :: int
  vr_schemaVersion :: int
  vr_activationRevision :: int
  vr_schemaMatches :: bool
  vr_entries :: "(string \<times> string) list"
  vr_matchCount :: js_number
  vr_differsCount :: js_number
  vr_missingInReleaseCount :: js_number
  vr_unknownAliasCount :: js_number
  vr_secretAliasCount :: js_number
  vr_unsupportedContentTypeCount :: js_number
  vr_unverifiedCount :: js_number

record verify_result =
  vd_releaseName :: string
  vd_releaseVersion :: int
  vd_schemaVersion :: int
  vd_activationRevision :: int
  vd_schemaMatches :: bool
  vd_entries :: "(string \<times> verify_verdict) list"
  vd_matchCount :: js_number
  vd_differsCount :: js_number
  vd_missingCount :: js_number
  vd_unknownAliasCount :: js_number
  vd_secretAliasCount :: js_number
  vd_unsupportedCount :: js_number
  vd_unverifiedCount :: js_number

datatype verify_error =
    VerdictCountMismatch | UnknownOrDuplicatedAlias | InvalidVerdict | CountDisagrees verify_verdict | UnverifiedCountInvalid

text \<open>One iteration over the entries: the aliases seen, the tally and the verdicts so far.\<close>

definition verify_entry ::
  "string list \<Rightarrow> string list \<times> (verify_verdict, nat) jsmap \<times> (string \<times> verify_verdict) list \<Rightarrow> string \<times> string \<Rightarrow>
     verify_error + string list \<times> (verify_verdict, nat) jsmap \<times> (string \<times> verify_verdict) list" where
  "verify_entry requested acc e =
     (let (seen, tally, entries) = acc; (alias, verdict) = e
      in if alias \<notin> set requested \<or> alias \<in> set seen then Inl UnknownOrDuplicatedAlias
         else case isVerifyVerdict verdict of None \<Rightarrow> Inl InvalidVerdict
           | Some v \<Rightarrow> Inr (seen @ [alias], map_set v (map_get_or 0 tally v + 1) tally, entries @ [(alias, v)]))"

fun verify_entries ::
  "string list \<Rightarrow> string list \<times> (verify_verdict, nat) jsmap \<times> (string \<times> verify_verdict) list \<Rightarrow> (string \<times> string) list \<Rightarrow>
     verify_error + string list \<times> (verify_verdict, nat) jsmap \<times> (string \<times> verify_verdict) list" where
  "verify_entries requested acc [] = Inr acc"
| "verify_entries requested acc (e # es) =
     (case verify_entry requested acc e of Inl err \<Rightarrow> Inl err | Inr acc' \<Rightarrow> verify_entries requested acc' es)"

definition count_agrees :: "(verify_verdict, nat) jsmap \<Rightarrow> verify_verdict \<times> js_number \<Rightarrow> bool" where
  "count_agrees tally c \<longleftrightarrow> validCount (snd c) \<and> snd c = Finite (real (map_get_or 0 tally (fst c)))"

definition verify_counts :: "verify_response \<Rightarrow> (verify_verdict \<times> js_number) list" where
  "verify_counts r =
     [(Match, vr_matchCount r), (Differs, vr_differsCount r), (MissingInRelease, vr_missingInReleaseCount r),
      (UnknownAlias, vr_unknownAliasCount r), (SecretAlias, vr_secretAliasCount r),
      (UnsupportedContentType, vr_unsupportedContentTypeCount r)]"

text \<open>The set of requested aliases is a list without duplicates, its \<open>size\<close> the length.\<close>

definition verifyResultFromWire :: "verify_response \<Rightarrow> string list \<Rightarrow> verify_error + verify_result" where
  "verifyResultFromWire r requested =
     (if length (vr_entries r) \<noteq> length requested then Inl VerdictCountMismatch
      else case verify_entries requested ([], [], []) (vr_entries r) of Inl e \<Rightarrow> Inl e
        | Inr (seen, tally, entries) \<Rightarrow>
            (case find (\<lambda>c. \<not> count_agrees tally c) (verify_counts r) of
               Some c \<Rightarrow> Inl (CountDisagrees (fst c))
             | None \<Rightarrow> if \<not> validCount (vr_unverifiedCount r) then Inl UnverifiedCountInvalid
                 else Inr \<lparr>vd_releaseName = vr_name r, vd_releaseVersion = vr_releaseVersion r,
                   vd_schemaVersion = vr_schemaVersion r, vd_activationRevision = vr_activationRevision r,
                   vd_schemaMatches = vr_schemaMatches r, vd_entries = entries, vd_matchCount = vr_matchCount r,
                   vd_differsCount = vr_differsCount r, vd_missingCount = vr_missingInReleaseCount r,
                   vd_unknownAliasCount = vr_unknownAliasCount r, vd_secretAliasCount = vr_secretAliasCount r,
                   vd_unsupportedCount = vr_unsupportedContentTypeCount r, vd_unverifiedCount = vr_unverifiedCount r\<rparr>))"

definition verify_passed :: "verify_result \<Rightarrow> bool" where
  "verify_passed r \<longleftrightarrow> vd_schemaMatches r \<and> list_all (\<lambda>e. snd e = Match) (vd_entries r)"

section \<open>Hexadecimal lemmas\<close>

lemma hex_val_bound: "is_hex c \<Longrightarrow> hex_val c < 16"
  by (auto simp: is_hex_def is_lower_hex_def is_upper_hex_def is_digit_def hex_val_def)

lemma of_char_ascii_lower:
  "(of_char (ascii_lower c) :: nat) = (if 65 \<le> (of_char c :: nat) \<and> (of_char c :: nat) \<le> 90 then of_char c + 32 else of_char c)"
  by (auto simp: ascii_lower_def of_char_of take_bit_nat_eq_self)

lemma hex_val_lower: "is_hex c \<Longrightarrow> is_hex d \<Longrightarrow> hex_val c = hex_val d \<longleftrightarrow> ascii_lower c = ascii_lower d"
  unfolding of_char_eq_iff [where 'a = nat, symmetric, of "ascii_lower c"] of_char_ascii_lower
  by (auto simp del: of_char_eq_iff simp: is_hex_def is_lower_hex_def is_upper_hex_def is_digit_def hex_val_def)

lemma hex_pair_inj:
  assumes "b < 16" "d < (16::nat)"
  shows "16 * a + b = 16 * c + d \<longleftrightarrow> a = c \<and> b = d"
proof
  assume eq: "16 * a + b = 16 * c + d"
  have "(16 * a + b) div 16 = a" "(16 * c + d) div 16 = c" using assms by simp_all
  with eq show "a = c \<and> b = d" by simp
qed simp

lemma hex_decode_eq:
  "list_all is_hex s \<Longrightarrow> list_all is_hex t \<Longrightarrow> even (length s) \<Longrightarrow> length t = length s \<Longrightarrow>
   hex_decode s = hex_decode t \<longleftrightarrow> map ascii_lower s = map ascii_lower t"
proof (induction s arbitrary: t rule: hex_decode.induct)
  case (1 a b s)
  then obtain c d u where t: "t = c # d # u" by (cases t rule: hex_decode.cases) auto
  with 1 show ?case by (simp add: hex_pair_inj hex_val_bound hex_val_lower conj_assoc)
qed auto

lemma length_hex_decode: "list_all is_hex s \<Longrightarrow> length (hex_decode s) = length s div 2"
  by (induction s rule: hex_decode.induct) auto

section \<open>Digest lemmas\<close>

definition entry_has_namespace :: "release_entry \<Rightarrow> bool" where
  "entry_has_namespace e = (case re_ref e of None \<Rightarrow> False | Some ref \<Rightarrow> wr_namespace ref \<noteq> None)"

lemma projectEntry_eq: "projectEntry e = (if entry_has_namespace e then Inr e else Inl (EntryWithoutNamespace (re_alias e)))"
  by (cases e; auto simp: projectEntry_def entry_has_namespace_def split: option.split)

lemma traverse_projectEntry:
  "traverse projectEntry es = Inr es' \<longleftrightarrow> es' = es \<and> list_all entry_has_namespace es"
  unfolding traverse_Inr
  by (induction es arbitrary: es') (auto simp: list_all2_Cons1 projectEntry_eq split: if_splits)

lemma release_projection_Inr:
  "release_projection r = Inr p \<longleftrightarrow> cr_namespace r \<noteq> None \<and> list_all entry_has_namespace (cr_entries r) \<and>
     p = \<lparr>cr_namespace = cr_namespace r, cr_name = cr_name r, cr_version = 0, cr_schemaVersion = cr_schemaVersion r,
       cr_entries = sort_key re_alias (cr_entries r), cr_digest = [], cr_metadataJson = cr_metadataJson r,
       cr_createdBy = [], cr_createdAtUnixMs = 0\<rparr>" (is "?L \<longleftrightarrow> ?R")
proof -
  have all: "list_all entry_has_namespace (sort_key re_alias (cr_entries r)) = list_all entry_has_namespace (cr_entries r)"
    by (simp add: list_all_iff)
  show ?thesis
  proof (cases "traverse projectEntry (sort_key re_alias (cr_entries r))")
    case (Inl e)
    then have "\<not> list_all entry_has_namespace (cr_entries r)"
      using traverse_projectEntry [of "sort_key re_alias (cr_entries r)"] all by auto
    with Inl show ?thesis by (simp add: release_projection_def split: option.split)
  next
    case (Inr es)
    then have "es = sort_key re_alias (cr_entries r)" "list_all entry_has_namespace (cr_entries r)"
      using all by (simp_all add: traverse_projectEntry)
    with Inr show ?thesis by (auto simp: release_projection_def split: option.split)
  qed
qed

lemma sort_key_mset_eq:
  "distinct (map f xs) \<Longrightarrow> sort_key f xs = sort_key f ys \<longleftrightarrow> mset xs = mset ys"
proof
  assume "distinct (map f xs)" "mset xs = mset ys"
  then show "sort_key f xs = sort_key f ys"
    by (intro sort_key_inj_key_eq) (auto simp: distinct_map)
next
  assume "sort_key f xs = sort_key f ys"
  then show "mset xs = mset ys" by (metis mset_sort)
qed

text \<open>A stable sort forgets exactly the order between elements of different keys.\<close>

lemma sort_key_eq_iff:
  "sort_key f xs = sort_key f ys \<longleftrightarrow> (\<forall>k. filter (\<lambda>x. f x = k) xs = filter (\<lambda>x. f x = k) ys)"
proof
  assume eq: "sort_key f xs = sort_key f ys"
  show "\<forall>k. filter (\<lambda>x. f x = k) xs = filter (\<lambda>x. f x = k) ys"
    using arg_cong [OF eq, of "filter (\<lambda>x. f x = k)" for k] by (simp add: sort_key_stable)
next
  assume eq: "\<forall>k. filter (\<lambda>x. f x = k) xs = filter (\<lambda>x. f x = k) ys"
  have "count (mset xs) x = count (mset ys) x" for x
  proof -
    have "count (mset zs) x = count (mset (filter (\<lambda>y. f y = f x) zs)) x" for zs by simp
    then show ?thesis using eq by metis
  qed
  then have m: "mset (sort_key f ys) = mset xs" by (simp add: multiset_eqI)
  have "filter (\<lambda>x. f k = f x) (sort_key f ys) = filter (\<lambda>x. f k = f x) xs" for k
    using eq sort_key_stable [of f "f k" ys] by (simp add: eq_commute [of "f k"])
  with m show "sort_key f xs = sort_key f ys" by (intro properties_for_sort_key) simp_all
qed

lemma releaseDigestMatches_True:
  assumes "\<And>b. hex64 (sha256 b)"
  shows "releaseDigestMatches sha256 encode r = Inr True \<longleftrightarrow> hex64 (cr_digest r) \<and>
    (\<exists>d. deterministicReleaseDigest sha256 encode r = Inr d \<and> map ascii_lower (cr_digest r) = map ascii_lower d)"
proof -
  have "hex64 d" if "deterministicReleaseDigest sha256 encode r = Inr d" for d
    using that assms by (auto simp: deterministicReleaseDigest_def split: sum.splits)
  then show ?thesis
    by (auto simp: releaseDigestMatches_def decodeSha256_def timingSafeEqual_def hex64_def length_hex_decode
        hex_decode_eq split: sum.split)
qed

text \<open>C33: the digest of a release pins its content and nothing else. For two releases and a hash that
  does not collide on their two projections, the digests are equal exactly when namespace, name, schema
  version and metadata are equal and, for every alias, the entries of that alias are the same in the same
  order; when the aliases of a release are distinct this is equality of the entries in any order. The
  allocated version, the creator, the creation time and the claimed digest do not matter.\<close>

theorem digest_pins_content:
  assumes "deterministicReleaseDigest sha256 encode r = Inr d" "deterministicReleaseDigest sha256 encode r' = Inr d'"
    and "\<And>p p'. release_projection r = Inr p \<Longrightarrow> release_projection r' = Inr p' \<Longrightarrow>
      sha256 (encode p) = sha256 (encode p') \<Longrightarrow> p = p'"
  shows "(d = d' \<longleftrightarrow> cr_namespace r = cr_namespace r' \<and> cr_name r = cr_name r' \<and>
      cr_schemaVersion r = cr_schemaVersion r' \<and> cr_metadataJson r = cr_metadataJson r' \<and>
      (\<forall>alias. filter (\<lambda>e. re_alias e = alias) (cr_entries r) = filter (\<lambda>e. re_alias e = alias) (cr_entries r'))) \<and>
    (distinct (map re_alias (cr_entries r)) \<longrightarrow>
      (d = d' \<longleftrightarrow> cr_namespace r = cr_namespace r' \<and> cr_name r = cr_name r' \<and>
        cr_schemaVersion r = cr_schemaVersion r' \<and> cr_metadataJson r = cr_metadataJson r' \<and>
        mset (cr_entries r) = mset (cr_entries r')))"
proof -
  obtain p p' where p: "release_projection r = Inr p" "d = sha256 (encode p)"
    and p': "release_projection r' = Inr p'" "d' = sha256 (encode p')"
    using assms(1,2) by (auto simp: deterministicReleaseDigest_def split: sum.splits)
  have "d = d' \<longleftrightarrow> p = p'" using assms(3) [OF p(1) p'(1)] p(2) p'(2) by blast
  also have "\<dots> \<longleftrightarrow> cr_namespace r = cr_namespace r' \<and> cr_name r = cr_name r' \<and>
    cr_schemaVersion r = cr_schemaVersion r' \<and> cr_metadataJson r = cr_metadataJson r' \<and>
    sort_key re_alias (cr_entries r) = sort_key re_alias (cr_entries r')"
    using p(1) p'(1) unfolding release_projection_Inr by auto
  finally have iff: "d = d' \<longleftrightarrow> \<dots>" .
  show ?thesis unfolding iff using sort_key_mset_eq [of re_alias "cr_entries r" "cr_entries r'"] by (simp add: sort_key_eq_iff)
qed

definition demo_entry :: "string \<Rightarrow> release_entry" where
  "demo_entry alias = \<lparr>re_alias = alias, re_kind = ''parameter'',
     re_ref = Some \<lparr>wr_namespace = Some \<lparr>ns_env = ''e'', ns_app = ''a''\<rparr>, wr_key = alias\<rparr>, re_version = 1,
     re_contentType = [], re_metadataJson = [], re_parameterDigest = []\<rparr>"

definition demo_release :: "string list \<Rightarrow> int \<Rightarrow> configuration_release" where
  "demo_release aliases version = \<lparr>cr_namespace = Some \<lparr>ns_env = ''e'', ns_app = ''a''\<rparr>, cr_name = ''r'',
     cr_version = version, cr_schemaVersion = 0, cr_entries = map demo_entry aliases, cr_digest = [],
     cr_metadataJson = [], cr_createdBy = [], cr_createdAtUnixMs = 0\<rparr>"

definition demo_encode :: "configuration_release \<Rightarrow> string" where
  "demo_encode r = concat (map re_alias (cr_entries r))"

lemma demo_projection:
  assumes "map re_alias (sort_key re_alias (map demo_entry as)) = bs"
  shows "release_projection (demo_release as v) = Inr (demo_release bs 0)"
proof -
  have "map demo_entry (map re_alias es) = es" if "set es \<subseteq> range demo_entry" for es
    using that by (induction es) (auto simp: demo_entry_def)
  from this [of "sort_key re_alias (map demo_entry as)"]
  have "map demo_entry bs = sort_key re_alias (map demo_entry as)" unfolding assms by auto
  then show ?thesis unfolding release_projection_Inr
    by (auto simp: demo_release_def demo_entry_def entry_has_namespace_def list_all_iff)
qed

lemma re_alias_demo_entry: "re_alias (demo_entry a) = a"
  by (simp add: demo_entry_def)

lemma demo_projections:
  "release_projection (demo_release [''x'', ''y''] v) = Inr (demo_release [''x'', ''y''] 0)"
  "release_projection (demo_release [''y'', ''x''] v) = Inr (demo_release [''x'', ''y''] 0)"
  "release_projection (demo_release [''x'', ''z''] v) = Inr (demo_release [''x'', ''z''] 0)"
proof -
  have le: "''x'' \<le> ''y''" "\<not> ''y'' \<le> ''x''" "''x'' \<le> ''z''" by (simp_all add: less_eq_char_def)
  show "release_projection (demo_release [''x'', ''y''] v) = Inr (demo_release [''x'', ''y''] 0)"
    "release_projection (demo_release [''y'', ''x''] v) = Inr (demo_release [''x'', ''y''] 0)"
    "release_projection (demo_release [''x'', ''z''] v) = Inr (demo_release [''x'', ''z''] 0)"
    by (rule demo_projection, simp add: le re_alias_demo_entry)+
qed

text \<open>With a toy hash that keeps the releases below apart, reordering entries and changing the version
  keep the digest, and replacing an entry changes it.\<close>

lemma demo_digests:
  "deterministicReleaseDigest id demo_encode (demo_release [''x'', ''y''] v) = Inr ''xy''"
  "deterministicReleaseDigest id demo_encode (demo_release [''y'', ''x''] v) = Inr ''xy''"
  "deterministicReleaseDigest id demo_encode (demo_release [''x'', ''z''] v) = Inr ''xz''"
  unfolding deterministicReleaseDigest_def demo_projections
  by (simp_all add: demo_encode_def demo_release_def demo_entry_def)

theorem digest_pins_content_witness:
  "deterministicReleaseDigest id demo_encode (demo_release [''x'', ''y''] 7) =
     deterministicReleaseDigest id demo_encode (demo_release [''y'', ''x''] 9) \<and>
   mset (cr_entries (demo_release [''x'', ''y''] 7)) = mset (cr_entries (demo_release [''y'', ''x''] 9)) \<and>
   deterministicReleaseDigest id demo_encode (demo_release [''x'', ''y''] 7) \<noteq>
     deterministicReleaseDigest id demo_encode (demo_release [''x'', ''z''] 7) \<and>
   mset (cr_entries (demo_release [''x'', ''y''] 7)) \<noteq> mset (cr_entries (demo_release [''x'', ''z''] 7))"
proof -
  have d: "distinct (map re_alias (cr_entries (demo_release [''x'', ''y''] 7)))"
    by (simp add: demo_release_def demo_entry_def)
  have f: "cr_namespace (demo_release as v) = cr_namespace (demo_release bs v')" "cr_name (demo_release as v) = cr_name (demo_release bs v')"
    "cr_schemaVersion (demo_release as v) = cr_schemaVersion (demo_release bs v')"
    "cr_metadataJson (demo_release as v) = cr_metadataJson (demo_release bs v')" for as bs v v'
    by (simp_all add: demo_release_def)
  have inj: "p = p'"
    if "release_projection (demo_release [''x'', ''y''] 7) = Inr p" "release_projection (demo_release [''x'', ''z''] 7) = Inr p'"
      "id (demo_encode p) = id (demo_encode p')" for p p'
  proof -
    have "p = demo_release [''x'', ''y''] 0" "p' = demo_release [''x'', ''z''] 0" using that(1,2) unfolding demo_projections by simp_all
    then show ?thesis using that(3) by (simp add: demo_encode_def demo_release_def demo_entry_def)
  qed
  have "mset (cr_entries (demo_release [''x'', ''y''] 7)) = mset (cr_entries (demo_release [''y'', ''x''] 9))"
    using digest_pins_content [OF demo_digests(1) [of 7] demo_digests(2) [of 9]] d demo_projections f by simp
  moreover have "mset (cr_entries (demo_release [''x'', ''y''] 7)) \<noteq> mset (cr_entries (demo_release [''x'', ''z''] 7))"
    using digest_pins_content [OF demo_digests(1) [of 7] demo_digests(3) [of 7] inj] d f by simp
  ultimately show ?thesis using demo_digests by simp
qed

section \<open>Verification lemmas\<close>

definition verify_inv :: "string list \<Rightarrow> string list \<times> (verify_verdict, nat) jsmap \<times> (string \<times> verify_verdict) list \<Rightarrow> bool" where
  "verify_inv requested acc \<longleftrightarrow> (case acc of (seen, tally, entries) \<Rightarrow>
     map fst entries = seen \<and> distinct seen \<and> set seen \<subseteq> set requested \<and>
     (\<forall>v. map_get_or 0 tally v = length (filter (\<lambda>e. snd e = v) entries)))"

lemma verify_entry_inv:
  "verify_inv requested acc \<Longrightarrow> verify_entry requested acc e = Inr acc' \<Longrightarrow>
   verify_inv requested acc' \<and> map fst (snd (snd acc')) = map fst (snd (snd acc)) @ [fst e]"
  by (cases acc; cases e) (auto simp: verify_entry_def verify_inv_def Let_def image_subset_iff split: if_splits option.splits)

lemma verify_entries_inv:
  "verify_inv requested acc \<Longrightarrow> verify_entries requested acc es = Inr acc' \<Longrightarrow>
   verify_inv requested acc' \<and> map fst (snd (snd acc')) = map fst (snd (snd acc)) @ map fst es"
proof (induction es arbitrary: acc)
  case Nil
  then show ?case by simp
next
  case (Cons e es)
  then obtain a where a: "verify_entry requested acc e = Inr a" "verify_entries requested a es = Inr acc'"
    by (auto split: sum.splits)
  show ?case using verify_entry_inv [OF Cons.prems(1) a(1)] Cons.IH [OF _ a(2)] by simp
qed

text \<open>An accepted verification response is complete and consistent. Every requested alias
  has exactly one verdict, no other alias has one, and each reported count is the number of
  verdicts of its kind.\<close>

theorem verify_result_complete:
  assumes "verifyResultFromWire response requested = Inr result" "distinct requested"
  shows "mset (map fst (vd_entries result)) = mset requested \<and>
    (\<forall>(v, n) \<in> set (verify_counts response). n = Finite (real (length (filter (\<lambda>e. snd e = v) (vd_entries result))))) \<and>
    (verify_passed result \<longleftrightarrow> vr_schemaMatches response \<and> vr_matchCount response = Finite (real (length requested)))"
proof -
  let ?n = "\<lambda>v. length (filter (\<lambda>e. snd e = v) (vd_entries result))"
  obtain seen tally where run: "verify_entries requested ([], [], []) (vr_entries response) = Inr (seen, tally, vd_entries result)"
    and len: "length (vr_entries response) = length requested"
    and ok: "find (\<lambda>c. \<not> count_agrees tally c) (verify_counts response) = None"
    and schema: "vd_schemaMatches result = vr_schemaMatches response"
    using assms(1) by (auto simp: verifyResultFromWire_def split: if_splits sum.splits option.splits)
  have "verify_inv requested ([], [], [])" by (simp add: verify_inv_def)
  from verify_entries_inv [OF this run] have inv: "verify_inv requested (seen, tally, vd_entries result)"
    and keys: "map fst (vd_entries result) = map fst (vr_entries response)" by simp_all
  have "set (map fst (vd_entries result)) \<subseteq> set requested" "distinct (map fst (vd_entries result))"
    using inv by (auto simp: verify_inv_def)
  moreover have l: "length (vd_entries result) = length requested" using keys len by (metis length_map)
  ultimately have set: "set (map fst (vd_entries result)) = set requested"
    by (metis assms(2) card_subset_eq distinct_card finite_set length_map)
  have counts: "\<forall>(v, n) \<in> set (verify_counts response). n = Finite (real (?n v))"
    using ok inv by (auto simp: find_None_iff count_agrees_def verify_inv_def)
  have "vr_matchCount response = Finite (real (?n Match))" using counts by (simp add: verify_counts_def)
  moreover have "list_all (\<lambda>e. snd e = Match) (vd_entries result) \<longleftrightarrow> ?n Match = length requested"
    unfolding l [symmetric] length_filter_all ..
  moreover have "mset (map fst (vd_entries result)) = mset requested"
    using set_eq_iff_mset_eq_distinct [OF \<open>distinct (map fst (vd_entries result))\<close> assms(2)] set by blast
  ultimately show ?thesis using counts schema by (simp add: verify_passed_def)
qed

definition demo_response :: verify_response where
  "demo_response = \<lparr>vr_name = ''r'', vr_releaseVersion = 3, vr_schemaVersion = 0, vr_activationRevision = 5,
     vr_schemaMatches = True, vr_entries = [(''b'', ''match''), (''a'', ''differs'')], vr_matchCount = Finite 1,
     vr_differsCount = Finite 1, vr_missingInReleaseCount = Finite 0, vr_unknownAliasCount = Finite 0,
     vr_secretAliasCount = Finite 0, vr_unsupportedContentTypeCount = Finite 0, vr_unverifiedCount = Finite 0\<rparr>"

theorem verify_result_complete_witness:
  "\<exists>result. verifyResultFromWire demo_response [''a'', ''b''] = Inr result \<and> \<not> verify_passed result \<and>
     mset (map fst (vd_entries result)) = mset [''a'', ''b'']"
proof -
  obtain result where r: "verifyResultFromWire demo_response [''a'', ''b''] = Inr result"
    by (simp add: verifyResultFromWire_def demo_response_def verify_entry_def isVerifyVerdict_def VERIFY_VERDICTS_def
        verify_counts_def count_agrees_def validCount_def isInteger_def map_get_or_def map_get_Cons)
  have "distinct [''a'', ''b'']" by simp
  from verify_result_complete [OF r this] r show ?thesis by (auto simp: demo_response_def)
qed

end
