(* ===== verification/Config_Value.thy ===== *)
theory Config_Value
  imports Release
begin

text \<open>
  Managed configuration values and what is reported about them:
  \<^verbatim>\<open>sdk/typescript/src/configstore/clone.ts\<close> and \<^verbatim>\<open>errors.ts\<close>. A value is a finite tree of the
  JavaScript values that configuration is made of; own properties are data properties or accessors, in
  the order \<open>Reflect.ownKeys\<close> lists them. Object identity, and so sharing and cycles, is not modelled: on
  trees a clone is the value itself or the refusal of an accessor. The lemmas show that no report and no
  rendering of one carries a secret.
\<close>

section \<open>Values\<close>

datatype cfg_key = StrKey string | SymKey nat

datatype cfg_prim =
    PUndefined | PNull | PBool bool | PNumber js_number | PBigint int | PString string | PSymbol nat

text \<open>An own property is its key, whether it is enumerable, and its value unless it is an accessor. The
  private fields of a \<open>Secret\<close> or \<open>ReleaseSecret\<close> are its plaintext; they are no properties.\<close>

datatype cfg =
    Prim cfg_prim
  | SecretV string "cfg_prop list"
  | BytesV "nat list"
  | DateV js_number
  | MapV "cfg_entry list"
  | SetV "cfg list"
  | ArrV nat "cfg_prop list"
  | FunV nat "cfg_prop list"
  | ObjV nat "cfg_prop list"
and cfg_entry = Entry cfg cfg
and cfg_prop = DataProp cfg_key bool cfg | AccessorProp cfg_key bool

datatype clone_error = AccessorProperty

section \<open>Cloning\<close>

fun cloneValue :: "cfg \<Rightarrow> clone_error + cfg"
  and clone_entries :: "cfg_entry list \<Rightarrow> clone_error + cfg_entry list"
  and clone_items :: "cfg list \<Rightarrow> clone_error + cfg list"
  and cloneDataProperties :: "cfg_prop list \<Rightarrow> clone_error + cfg_prop list" where
  "cloneValue (MapV es) = sum_bind (clone_entries es) (\<lambda>es'. Inr (MapV es'))"
| "cloneValue (SetV xs) = sum_bind (clone_items xs) (\<lambda>xs'. Inr (SetV xs'))"
| "cloneValue (ArrV n ps) = sum_bind (cloneDataProperties ps) (\<lambda>ps'. Inr (ArrV n ps'))"
| "cloneValue (ObjV proto ps) = sum_bind (cloneDataProperties ps) (\<lambda>ps'. Inr (ObjV proto ps'))"
| "cloneValue v = Inr v"
| "clone_entries [] = Inr []"
| "clone_entries (Entry k v # es) =
     sum_bind (cloneValue k) (\<lambda>k'. sum_bind (cloneValue v) (\<lambda>v'. sum_bind (clone_entries es) (\<lambda>es'. Inr (Entry k' v' # es'))))"
| "clone_items [] = Inr []"
| "clone_items (x # xs) = sum_bind (cloneValue x) (\<lambda>x'. sum_bind (clone_items xs) (\<lambda>xs'. Inr (x' # xs')))"
| "cloneDataProperties [] = Inr []"
| "cloneDataProperties (AccessorProp k e # ps) = Inl AccessorProperty"
| "cloneDataProperties (DataProp k e v # ps) =
     sum_bind (cloneValue v) (\<lambda>v'. sum_bind (cloneDataProperties ps) (\<lambda>ps'. Inr (DataProp k e v' # ps')))"

definition cloneConfig :: "cfg \<Rightarrow> clone_error + cfg" where
  "cloneConfig v = cloneValue v"

fun valueContainsSecret :: "cfg \<Rightarrow> bool"
  and entries_contain_secret :: "cfg_entry list \<Rightarrow> bool"
  and items_contain_secret :: "cfg list \<Rightarrow> bool"
  and props_contain_secret :: "cfg_prop list \<Rightarrow> bool" where
  "valueContainsSecret (SecretV s ps) = True"
| "valueContainsSecret (MapV es) = entries_contain_secret es"
| "valueContainsSecret (SetV xs) = items_contain_secret xs"
| "valueContainsSecret (ArrV n ps) = props_contain_secret ps"
| "valueContainsSecret (FunV f ps) = props_contain_secret ps"
| "valueContainsSecret (ObjV proto ps) = props_contain_secret ps"
| "valueContainsSecret v = False"
| "entries_contain_secret [] = False"
| "entries_contain_secret (Entry k v # es) = (valueContainsSecret k \<or> valueContainsSecret v \<or> entries_contain_secret es)"
| "items_contain_secret [] = False"
| "items_contain_secret (x # xs) = (valueContainsSecret x \<or> items_contain_secret xs)"
| "props_contain_secret [] = False"
| "props_contain_secret (AccessorProp k e # ps) = props_contain_secret ps"
| "props_contain_secret (DataProp k e v # ps) = (valueContainsSecret v \<or> props_contain_secret ps)"

definition containsSecret :: "cfg \<Rightarrow> bool" where
  "containsSecret v = valueContainsSecret v"

section \<open>Diagnostic paths\<close>

text \<open>The categories a candidate error can have; any other is turned into \<open>internal\<close>.\<close>

definition REJECTION_CATEGORIES :: "release_category list" where
  "REJECTION_CATEGORIES =
     [ConfigContractMismatch, ConfigDecodeFailed, ConfigValidationFailed, DefaultMismatch, RestartRequired, Internal]"

definition validRejectionCategory :: "release_category \<Rightarrow> bool" where
  "validRejectionCategory c \<longleftrightarrow> c \<in> set REJECTION_CATEGORIES"

definition is_letter :: "char \<Rightarrow> bool" where
  "is_letter c \<longleftrightarrow> CHR ''A'' \<le> c \<and> c \<le> CHR ''Z'' \<or> CHR ''a'' \<le> c \<and> c \<le> CHR ''z''"

definition validDiagnosticSegment :: "string \<Rightarrow> bool" where
  "validDiagnosticSegment s \<longleftrightarrow> s \<noteq> [] \<and> is_letter (hd s) \<and> length (tl s) \<le> 63 \<and>
     list_all (\<lambda>c. is_letter c \<or> is_digit c \<or> c = CHR ''_'' \<or> c = CHR ''-'') (tl s)"

definition ends_with :: "string \<Rightarrow> string \<Rightarrow> bool" where
  "ends_with w s \<longleftrightarrow> length w \<le> length s \<and> drop (length s - length w) s = w"

function strip_brackets :: "string \<Rightarrow> string" where
  "strip_brackets s =
     (if ends_with ''[]'' s then strip_brackets (take (length s - 2) s)
      else if ends_with ''[*]'' s then strip_brackets (take (length s - 3) s)
      else s)"
  by pat_completeness auto

termination
  by (relation "measure length") (auto simp: ends_with_def)

declare strip_brackets.simps [simp del]

fun split_dots :: "string \<Rightarrow> string list" where
  "split_dots [] = [[]]"
| "split_dots (c # s) =
     (if c = CHR ''.'' then [] # split_dots s
      else case split_dots s of l # ls \<Rightarrow> (c # l) # ls | [] \<Rightarrow> [[c]])"

text \<open>The length counts bytes here and code units in the source; paths with other than ASCII characters fail
  either way.\<close>

definition validDiagnosticPath :: "string \<Rightarrow> bool" where
  "validDiagnosticPath path \<longleftrightarrow>
     path \<noteq> [] \<and> length path \<le> 512 \<and> length (split_dots path) \<le> 32 \<and>
     list_all (\<lambda>segment. validDiagnosticSegment (strip_brackets segment)) (split_dots path)"

fun sanitize_from :: "string list \<Rightarrow> string list \<Rightarrow> string list" where
  "sanitize_from seen [] = []"
| "sanitize_from seen (path # paths) =
     (if \<not> validDiagnosticPath path \<or> path \<in> set seen then sanitize_from seen paths
      else path # sanitize_from (path # seen) paths)"

definition sanitizeDiagnosticPaths :: "string list \<Rightarrow> string list" where
  "sanitizeDiagnosticPaths paths = sanitize_from [] paths"

text \<open>What a candidate can fail with: a \<open>CandidateError\<close> with its category and paths, or anything else.\<close>

datatype cfg_error = CandidateErr release_category "string list" | OtherErr thrown | AbortedErr

definition newCandidateError :: "release_category \<Rightarrow> string list \<Rightarrow> cfg_error" where
  "newCandidateError category paths =
     CandidateErr (if validRejectionCategory category then category else Internal) (sanitizeDiagnosticPaths paths)"

text \<open>\<open>path\<close> is the path of a decode error, if the cause is one.\<close>

definition rejectDecode :: "string \<Rightarrow> string option \<Rightarrow> cfg_error" where
  "rejectDecode grp path =
     newCandidateError ConfigDecodeFailed
       (if validDiagnosticSegment grp then
          (case path of
             None \<Rightarrow> []
           | Some p \<Rightarrow> if p = ''$'' then [grp] else if take 2 p = ''$.'' then [grp @ drop 1 p] else [])
        else [])"

section \<open>Reports\<close>

record field_difference =
  fd_path :: string
  fd_expected :: cfg
  fd_actual :: cfg

record field_change =
  fc_path :: string
  fc_previous :: cfg
  fc_current :: cfg

definition report_path :: "string \<Rightarrow> string" where
  "report_path path = (if validDiagnosticPath path then path else ''invalid_path'')"

definition cloneReportValue :: "cfg \<Rightarrow> clone_error + cfg" where
  "cloneReportValue v = (if containsSecret v then Inr (Prim (PString ''[REDACTED]'')) else cloneConfig v)"

definition report_differences :: "field_difference list \<Rightarrow> clone_error + field_difference list" where
  "report_differences ds =
     traverse (\<lambda>d. sum_bind (cloneReportValue (fd_expected d)) (\<lambda>e. sum_bind (cloneReportValue (fd_actual d)) (\<lambda>a.
       Inr \<lparr>fd_path = report_path (fd_path d), fd_expected = e, fd_actual = a\<rparr>))) ds"

definition report_changes :: "field_change list \<Rightarrow> clone_error + field_change list" where
  "report_changes cs =
     traverse (\<lambda>c. sum_bind (cloneReportValue (fc_previous c)) (\<lambda>p. sum_bind (cloneReportValue (fc_current c)) (\<lambda>n.
       Inr \<lparr>fc_path = report_path (fc_path c), fc_previous = p, fc_current = n\<rparr>))) cs"

section \<open>JSON rendering\<close>

definition undefined_v :: cfg where "undefined_v = Prim PUndefined"

fun data_prop :: "string \<Rightarrow> cfg_prop list \<Rightarrow> cfg option" where
  "data_prop k [] = None"
| "data_prop k (DataProp k' e v # ps) = (if k' = StrKey k then Some v else data_prop k ps)"
| "data_prop k (AccessorProp k' e # ps) = (if k' = StrKey k then None else data_prop k ps)"

definition array_of :: "cfg list \<Rightarrow> cfg" where
  "array_of xs = ArrV (length xs) (map (\<lambda>i. DataProp (StrKey (dec_nat i)) True (xs ! i)) [0 ..< length xs])"

text \<open>\<open>toISO\<close> is \<open>Date.prototype.toISOString\<close>. \<open>json_props\<close> renders the value of every data property; the
  prototype 0 is \<open>null\<close>. \<open>Object.keys\<close> lists the enumerable string keys.\<close>

fun own_entry :: "cfg_prop \<Rightarrow> bool" where
  "own_entry (DataProp (StrKey k) e v) = e"
| "own_entry _ = False"

fun jsonReportValue :: "(real \<Rightarrow> string) \<Rightarrow> cfg \<Rightarrow> cfg"
  and json_props :: "(real \<Rightarrow> string) \<Rightarrow> cfg_prop list \<Rightarrow> cfg_prop list" where
  "jsonReportValue toISO (Prim (PBigint i)) = Prim (PString (dec_int i))"
| "jsonReportValue toISO (Prim (PSymbol s)) = undefined_v"
| "jsonReportValue toISO (Prim p) = Prim p"
| "jsonReportValue toISO (FunV f ps) = undefined_v"
| "jsonReportValue toISO (DateV (Finite t)) = Prim (PString (toISO t))"
| "jsonReportValue toISO (DateV (NonFinite n)) = Prim PNull"
| "jsonReportValue toISO (BytesV bs) = array_of (map (\<lambda>b. Prim (PNumber (Finite (real b)))) bs)"
| "jsonReportValue toISO (MapV es) = ObjV 1 []"
| "jsonReportValue toISO (SetV xs) = ObjV 1 []"
| "jsonReportValue toISO (SecretV s ps) = ObjV 0 (filter own_entry (json_props toISO ps))"
| "jsonReportValue toISO (ArrV n ps) =
     (let rendered = json_props toISO ps
      in array_of (map (\<lambda>i. case data_prop (dec_nat i) rendered of Some v \<Rightarrow> v | None \<Rightarrow> undefined_v) [0 ..< n]))"
| "jsonReportValue toISO (ObjV proto ps) =
     ObjV 0 (filter own_entry (json_props toISO ps))"
| "json_props toISO [] = []"
| "json_props toISO (AccessorProp k e # ps) = AccessorProp k e # json_props toISO ps"
| "json_props toISO (DataProp k e v # ps) = DataProp k e (jsonReportValue toISO v) # json_props toISO ps"

definition jsonDifference :: "(real \<Rightarrow> string) \<Rightarrow> field_difference \<Rightarrow> field_difference" where
  "jsonDifference toISO d = d\<lparr>fd_expected := jsonReportValue toISO (fd_expected d), fd_actual := jsonReportValue toISO (fd_actual d)\<rparr>"

definition jsonChange :: "(real \<Rightarrow> string) \<Rightarrow> field_change \<Rightarrow> field_change" where
  "jsonChange toISO c = c\<lparr>fc_previous := jsonReportValue toISO (fc_previous c), fc_current := jsonReportValue toISO (fc_current c)\<rparr>"

section \<open>Cloning and secrets\<close>

text \<open>\<open>part_of u v\<close>: the value \<open>u\<close> is \<open>v\<close> or can be reached from it through entries, elements and data
  properties.\<close>

inductive part_of :: "cfg \<Rightarrow> cfg \<Rightarrow> bool" where
  part_refl: "part_of v v"
| part_key: "part_of u (MapV es)" if "Entry k v \<in> set es" "part_of u k"
| part_val: "part_of u (MapV es)" if "Entry k v \<in> set es" "part_of u v"
| part_item: "part_of u (SetV xs)" if "x \<in> set xs" "part_of u x"
| part_arr: "part_of u (ArrV n ps)" if "DataProp k e v \<in> set ps" "part_of u v"
| part_fun: "part_of u (FunV f ps)" if "DataProp k e v \<in> set ps" "part_of u v"
| part_obj: "part_of u (ObjV proto ps)" if "DataProp k e v \<in> set ps" "part_of u v"

lemma cloneValue_same:
  "cloneValue v = Inr v' \<Longrightarrow> v' = v"
  "clone_entries es = Inr es' \<Longrightarrow> es' = es"
  "clone_items xs = Inr xs' \<Longrightarrow> xs' = xs"
  "cloneDataProperties ps = Inr ps' \<Longrightarrow> ps' = ps"
  by (induction v and es and xs and ps arbitrary: v' and es' and xs' and ps'
      rule: cloneValue_clone_entries_clone_items_cloneDataProperties.induct)
    (auto simp: sum_bind_def split: sum.splits)

lemma contains_secret_sets:
  "entries_contain_secret es \<longleftrightarrow> (\<exists>k v. Entry k v \<in> set es \<and> (valueContainsSecret k \<or> valueContainsSecret v))"
  "items_contain_secret xs \<longleftrightarrow> (\<exists>x \<in> set xs. valueContainsSecret x)"
  "props_contain_secret ps \<longleftrightarrow> (\<exists>k e v. DataProp k e v \<in> set ps \<and> valueContainsSecret v)"
proof -
  show "entries_contain_secret es \<longleftrightarrow> (\<exists>k v. Entry k v \<in> set es \<and> (valueContainsSecret k \<or> valueContainsSecret v))"
  proof (induction es)
    case (Cons x es)
    thus ?case by (cases x) auto
  qed simp
  show "items_contain_secret xs \<longleftrightarrow> (\<exists>x \<in> set xs. valueContainsSecret x)" by (induction xs) auto
  show "props_contain_secret ps \<longleftrightarrow> (\<exists>k e v. DataProp k e v \<in> set ps \<and> valueContainsSecret v)"
  proof (induction ps)
    case (Cons x ps)
    thus ?case by (cases x) auto
  qed simp
qed

lemma part_contains_secret:
  assumes "part_of u v" "valueContainsSecret u"
  shows "valueContainsSecret v"
  using assms by (induction rule: part_of.induct) (auto simp: contains_secret_sets)

fun is_SecretV :: "cfg \<Rightarrow> bool" where
  "is_SecretV (SecretV s ps) = True"
| "is_SecretV _ = False"

lemma part_of_parts:
  "\<exists>k v. Entry k v \<in> set es \<and> (part_of u k \<or> part_of u v) \<Longrightarrow> part_of u (MapV es)"
  "\<exists>x \<in> set xs. part_of u x \<Longrightarrow> part_of u (SetV xs)"
  "\<exists>k e v. DataProp k e v \<in> set ps \<and> part_of u v \<Longrightarrow> part_of u (ArrV n ps) \<and> part_of u (FunV n ps) \<and> part_of u (ObjV n ps)"
  by (elim exE conjE disjE, erule (1) part_key, erule (1) part_val)
    (elim bexE, erule (1) part_item,
     elim exE conjE, intro conjI, erule (1) part_arr, erule (1) part_fun, erule (1) part_obj)

lemma contains_secret_part:
  "valueContainsSecret v \<Longrightarrow> \<exists>u. is_SecretV u \<and> part_of u v"
  "entries_contain_secret es \<Longrightarrow> \<exists>u. is_SecretV u \<and> (\<exists>k v. Entry k v \<in> set es \<and> (part_of u k \<or> part_of u v))"
  "items_contain_secret xs \<Longrightarrow> \<exists>u. is_SecretV u \<and> (\<exists>x \<in> set xs. part_of u x)"
  "props_contain_secret qs \<Longrightarrow> \<exists>u. is_SecretV u \<and> (\<exists>k e v. DataProp k e v \<in> set qs \<and> part_of u v)"
proof (induction v and es and xs and qs
      rule: valueContainsSecret_entries_contain_secret_items_contain_secret_props_contain_secret.induct)
  case (1 s ps)
  show ?case using part_refl is_SecretV.simps(1) by blast
next
  case (2 es)
  show ?case using "2.IH"[OF "2.prems"[simplified]] part_of_parts(1) by blast
next
  case (3 xs)
  show ?case using "3.IH"[OF "3.prems"[simplified]] part_of_parts(2) by blast
next
  case (4 n ps)
  show ?case using "4.IH"[OF "4.prems"[simplified]] part_of_parts(3) by blast
next
  case (5 f ps)
  show ?case using "5.IH"[OF "5.prems"[simplified]] part_of_parts(3) by blast
next
  case (6 proto ps)
  show ?case using "6.IH"[OF "6.prems"[simplified]] part_of_parts(3) by blast
next
  case (9 k v es)
  have "valueContainsSecret k \<or> valueContainsSecret v \<or> entries_contain_secret es" using "9.prems" by simp
  thus ?case using "9.IH" unfolding list.set by blast
next
  case (11 x xs)
  have "valueContainsSecret x \<or> items_contain_secret xs" using "11.prems" by simp
  thus ?case using "11.IH" unfolding list.set by blast
next
  case (14 k e v ps)
  have "valueContainsSecret v \<or> props_contain_secret ps" using "14.prems" by simp
  thus ?case using "14.IH" unfolding list.set by blast
qed simp_all

lemma containsSecret_iff: "containsSecret v \<longleftrightarrow> (\<exists>u. is_SecretV u \<and> part_of u v)"
proof -
  have "valueContainsSecret u" if "is_SecretV u" for u using that by (cases u) simp_all
  thus ?thesis using contains_secret_part(1) part_contains_secret by (auto simp: containsSecret_def)
qed

text \<open>The reported value, and that a report can be copied any number of times.\<close>

definition reported :: "cfg \<Rightarrow> cfg" where
  "reported v = (if containsSecret v then Prim (PString ''[REDACTED]'') else v)"

lemma cloneReportValue_reported: "cloneReportValue v = Inr v' \<Longrightarrow> v' = reported v"
  by (auto simp: cloneReportValue_def reported_def cloneConfig_def cloneValue_same split: if_splits)

lemma reported_no_secret: "\<not> containsSecret (reported v)"
  by (simp add: reported_def containsSecret_def)

lemma cloneReportValue_again: "cloneReportValue v = Inr v' \<Longrightarrow> cloneReportValue v' = Inr v'"
  using cloneValue_same(1) by (auto simp: cloneReportValue_def cloneConfig_def containsSecret_def split: if_splits)

section \<open>Reports carry no secrets\<close>

lemma report_path_valid: "validDiagnosticPath (report_path path)"
proof -
  have "strip_brackets ''invalid_path'' = ''invalid_path''"
    by (subst strip_brackets.simps) (simp add: ends_with_def)
  hence "validDiagnosticPath ''invalid_path''"
    by (simp add: validDiagnosticPath_def validDiagnosticSegment_def is_letter_def less_eq_char_def)
  thus ?thesis by (simp add: report_path_def)
qed

lemma report_path_again: "report_path (report_path path) = report_path path"
  using report_path_valid by (simp add: report_path_def)

definition difference_reported :: "field_difference \<Rightarrow> field_difference \<Rightarrow> bool" where
  "difference_reported d r \<longleftrightarrow> fd_path r = report_path (fd_path d) \<and>
     fd_expected r = reported (fd_expected d) \<and> fd_actual r = reported (fd_actual d)"

lemma report_differences_Inr:
  assumes "report_differences ds = Inr rs"
  shows "list_all2 difference_reported ds rs" "report_differences rs = Inr rs"
proof -
  let ?f = "\<lambda>d. sum_bind (cloneReportValue (fd_expected d)) (\<lambda>e. sum_bind (cloneReportValue (fd_actual d)) (\<lambda>a.
       Inr \<lparr>fd_path = report_path (fd_path d), fd_expected = e, fd_actual = a\<rparr>))"
  have all: "list_all2 (\<lambda>d r. ?f d = Inr r) ds rs" using assms by (simp add: report_differences_def traverse_Inr)
  thus "list_all2 difference_reported ds rs"
    by (rule list_all2_mono) (auto simp: sum_bind_Inr difference_reported_def cloneReportValue_reported)
  have "?f r = Inr r" if "?f d = Inr r" for d r
    using that by (auto simp: sum_bind_Inr report_path_again cloneReportValue_again)
  hence "\<forall>r \<in> set rs. ?f r = Inr r" using traverse_from [OF assms [unfolded report_differences_def]] by blast
  thus "report_differences rs = Inr rs" unfolding report_differences_def traverse_Inr list_all2_same .
qed

definition change_reported :: "field_change \<Rightarrow> field_change \<Rightarrow> bool" where
  "change_reported c r \<longleftrightarrow> fc_path r = report_path (fc_path c) \<and>
     fc_previous r = reported (fc_previous c) \<and> fc_current r = reported (fc_current c)"

lemma report_changes_Inr:
  assumes "report_changes cs = Inr rs"
  shows "list_all2 change_reported cs rs"
proof -
  have "list_all2 (\<lambda>c r. sum_bind (cloneReportValue (fc_previous c)) (\<lambda>p. sum_bind (cloneReportValue (fc_current c)) (\<lambda>n.
       Inr \<lparr>fc_path = report_path (fc_path c), fc_previous = p, fc_current = n\<rparr>)) = Inr r) cs rs"
    using assms by (simp add: report_changes_def traverse_Inr)
  thus ?thesis by (rule list_all2_mono) (auto simp: sum_bind_Inr change_reported_def cloneReportValue_reported)
qed

text \<open>What \<open>JSON.stringify\<close> prints by itself: primitives it knows, arrays and objects of such values whose
  properties are enumerable data properties with string keys. No \<open>toJSON\<close> is called on it, as none of
  its values is a function.\<close>

fun is_json :: "cfg \<Rightarrow> bool" and json_fields :: "cfg_prop list \<Rightarrow> bool" where
  "is_json (Prim (PBigint i)) = False"
| "is_json (Prim (PSymbol s)) = False"
| "is_json (Prim p) = True"
| "is_json (ArrV n ps) = json_fields ps"
| "is_json (ObjV proto ps) = json_fields ps"
| "is_json _ = False"
| "json_fields [] = True"
| "json_fields (DataProp (StrKey k) True v # ps) = (is_json v \<and> json_fields ps)"
| "json_fields (_ # ps) = False"

fun json_data :: "cfg_prop \<Rightarrow> bool" where
  "json_data (DataProp k e v) = is_json v"
| "json_data (AccessorProp k e) = True"

lemma json_fields_filter: "list_all json_data ps \<Longrightarrow> json_fields (filter own_entry ps)"
proof (induction ps)
  case (Cons p ps)
  thus ?case by (cases p rule: own_entry.cases) (auto split: if_splits)
qed simp

lemma json_fields_map: "list_all is_json (map f is) \<Longrightarrow> json_fields (map (\<lambda>i. DataProp (StrKey (g i)) True (f i)) is)"
  by (induction "is") auto

lemma is_json_array_of: "list_all is_json xs \<Longrightarrow> is_json (array_of xs)"
  by (auto simp: array_of_def list_all_iff intro!: json_fields_map)

lemma json_data_prop: "list_all json_data ps \<Longrightarrow> data_prop k ps = Some v \<Longrightarrow> is_json v"
  by (induction k ps rule: data_prop.induct) (auto split: if_splits)

lemma jsonReportValue_json: "is_json (jsonReportValue toISO v)" "list_all json_data (json_props toISO ps)"
proof (induction toISO v and toISO ps rule: jsonReportValue_json_props.induct)
  case (11 toISO n ps)
  thus ?case
    by (auto simp: Let_def list_all_iff undefined_v_def intro!: is_json_array_of json_data_prop split: option.split)
qed (auto simp: undefined_v_def json_fields_filter is_json_array_of list_all_iff)

text \<open>C23: a mismatch report never carries secret plaintext. Whatever the binding passes in, the report has one
  entry per difference, under a well-formed path; a value that contains a secret anywhere is replaced by
  the constant \<open>[REDACTED]\<close> and every other value is reported as it is; so no value reachable from the
  report is a secret, copying the report again gives the same report, and what \<open>toJSON\<close> renders is plain
  JSON data without functions, symbols, big integers, accessors or secrets.\<close>

theorem reports_hide_secrets:
  assumes "report_differences ds = Inr rs"
  shows "length rs = length ds \<and> report_differences rs = Inr rs \<and>
    (\<forall>i < length ds. validDiagnosticPath (fd_path (rs ! i)) \<and>
       fd_expected (rs ! i) = (if containsSecret (fd_expected (ds ! i)) then Prim (PString ''[REDACTED]'') else fd_expected (ds ! i)) \<and>
       fd_actual (rs ! i) = (if containsSecret (fd_actual (ds ! i)) then Prim (PString ''[REDACTED]'') else fd_actual (ds ! i))) \<and>
    (\<forall>r \<in> set rs. \<forall>u. part_of u (fd_expected r) \<or> part_of u (fd_actual r) \<longrightarrow> \<not> is_SecretV u) \<and>
    (\<forall>r \<in> set rs. is_json (fd_expected (jsonDifference toISO r)) \<and> is_json (fd_actual (jsonDifference toISO r)))"
proof -
  note r = report_differences_Inr[OF assms]
  have at: "difference_reported (ds ! i) (rs ! i)" if "i < length ds" for i using r(1) that by (rule list_all2_nthD)
  have len: "length rs = length ds" using r(1) by (simp add: list_all2_lengthD)
  have free: "\<not> containsSecret (fd_expected x) \<and> \<not> containsSecret (fd_actual x)" if "x \<in> set rs" for x
    using that at len by (auto simp: in_set_conv_nth difference_reported_def reported_no_secret)
  hence "\<forall>x \<in> set rs. \<forall>u. part_of u (fd_expected x) \<or> part_of u (fd_actual x) \<longrightarrow> \<not> is_SecretV u"
    unfolding containsSecret_iff by blast
  thus ?thesis using at len r(2) report_path_valid
    by (simp add: difference_reported_def reported_def jsonDifference_def jsonReportValue_json)
qed

theorem reports_hide_secrets_witness:
  "\<exists>rs. report_differences [\<lparr>fd_path = ''db.password'', fd_expected = Prim PNull,
       fd_actual = ObjV 1 [DataProp (StrKey ''p'') True (SecretV ''hunter2'' [])]\<rparr>] = Inr rs \<and>
     fd_actual (rs ! 0) = Prim (PString ''[REDACTED]'') \<and> (\<forall>u. part_of u (fd_actual (rs ! 0)) \<longrightarrow> \<not> is_SecretV u)"
proof -
  let ?ds = "[\<lparr>fd_path = ''db.password'', fd_expected = Prim PNull,
       fd_actual = ObjV 1 [DataProp (StrKey ''p'') True (SecretV ''hunter2'' [])]\<rparr>]"
  obtain rs where rs: "report_differences ?ds = Inr rs"
    by (simp add: report_differences_def cloneReportValue_def containsSecret_def cloneConfig_def)
  note t = reports_hide_secrets [OF rs, of "\<lambda>_. []"]
  have "rs ! 0 \<in> set rs" using t by (intro nth_mem) simp
  moreover have "fd_actual (rs ! 0) = Prim (PString ''[REDACTED]'')" using t by (simp add: containsSecret_def)
  ultimately show ?thesis using rs t by blast
qed

end
