(* ===== verification/Fetch_Pool.thy ===== *)
theory Fetch_Pool
  imports Prelude
begin

text \<open>
  The bounded worker pool of the release loader (\<open>mapConcurrent\<close> of
  \<^verbatim>\<open>sdk/typescript/src/releases/loader.ts\<close>). A number of workers share an index into
  the input; each takes the next value, awaits its result, stores it at the value's place and goes
  on. The first failure aborts the pool's controller, which stops the workers at their next turn.

  The state is cut at the \<open>await\<close> of a worker: \<open>pool_take\<close> is the head of the loop, \<open>pool_settle\<close>
  the continuation when the awaited call of one worker settles, in any order. The lemmas show
  that no value is fetched twice, that the pool ends after at most one settlement per value, and that
  it then returns every result at its own place, the first error, or an abort.
\<close>

section \<open>Definitions\<close>

datatype pool_worker = Busy nat | Finished

record ('a, 'r, 'e) pool =
  po_values :: "'a list"
  po_results :: "'r option list"
  po_index :: nat
  po_firstError :: "'e option"
  po_aborted :: bool
  po_workers :: "pool_worker list"

text \<open>The loop head of worker \<open>w\<close>: leave when aborted or out of values, otherwise take one.\<close>

definition pool_take :: "nat \<Rightarrow> ('a, 'r, 'e) pool \<Rightarrow> ('a, 'r, 'e) pool" where
  "pool_take w p =
     (if po_aborted p \<or> length (po_values p) \<le> po_index p then p\<lparr>po_workers := (po_workers p)[w := Finished]\<rparr>
      else p\<lparr>po_workers := (po_workers p)[w := Busy (po_index p)], po_index := po_index p + 1\<rparr>)"

text \<open>The call starts \<open>min concurrency length\<close> workers one after the other.\<close>

definition mapConcurrent :: "'a list \<Rightarrow> nat \<Rightarrow> bool \<Rightarrow> ('a, 'r, 'e) pool" where
  "mapConcurrent values concurrency signalAborted =
     (let n = min concurrency (length values)
      in fold pool_take [0..<n]
           \<lparr>po_values = values, po_results = replicate (length values) None, po_index = 0, po_firstError = None,
            po_aborted = signalAborted, po_workers = replicate n Finished\<rparr>)"

definition pool_settle :: "nat \<Rightarrow> 'e + 'r \<Rightarrow> ('a, 'r, 'e) pool \<Rightarrow> ('a, 'r, 'e) pool" where
  "pool_settle w outcome p =
     (if w < length (po_workers p) then
        (case po_workers p ! w of Finished \<Rightarrow> p
         | Busy i \<Rightarrow> (case outcome of
               Inr r \<Rightarrow> pool_take w (p\<lparr>po_results := (po_results p)[i := Some r]\<rparr>)
             | Inl e \<Rightarrow> p\<lparr>po_firstError := (case po_firstError p of None \<Rightarrow> Some e | Some e' \<Rightarrow> Some e'),
                 po_aborted := True, po_workers := (po_workers p)[w := Finished]\<rparr>))
      else p)"

definition pool_abort :: "('a, 'r, 'e) pool \<Rightarrow> ('a, 'r, 'e) pool" where
  "pool_abort p = p\<lparr>po_aborted := True\<rparr>"

definition pool_ended :: "('a, 'r, 'e) pool \<Rightarrow> bool" where
  "pool_ended p \<longleftrightarrow> list_all (\<lambda>w. w = Finished) (po_workers p)"

text \<open>What the call returns once every worker has ended: the first error, an abort of the caller's
  signal (\<open>Inl None\<close>), or the array of results.\<close>

definition pool_result :: "bool \<Rightarrow> ('a, 'r, 'e) pool \<Rightarrow> 'e option + 'r option list" where
  "pool_result signalAborted p =
     (case po_firstError p of Some e \<Rightarrow> Inl (Some e)
      | None \<Rightarrow> if signalAborted then Inl None else Inr (po_results p))"

datatype ('r, 'e) pool_action = Settle nat "'e + 'r" | SignalAbort

fun pool_step :: "('r, 'e) pool_action \<Rightarrow> ('a, 'r, 'e) pool \<Rightarrow> ('a, 'r, 'e) pool" where
  "pool_step (Settle w outcome) p = pool_settle w outcome p"
| "pool_step SignalAbort p = pool_abort p"

section \<open>The pool invariant\<close>

text \<open>
  A place below the index is either held by exactly one worker or has its result; results satisfy the
  relation \<open>P\<close> between a value and its result. A pool that was not aborted and has no error has lost
  no value, and its finished workers found nothing left to take.
\<close>

definition holds_place :: "('a, 'r, 'e) pool \<Rightarrow> nat \<Rightarrow> nat \<Rightarrow> bool" where
  "holds_place p w i \<longleftrightarrow> w < length (po_workers p) \<and> po_workers p ! w = Busy i"

definition pool_shape :: "('a \<Rightarrow> 'r \<Rightarrow> bool) \<Rightarrow> ('a, 'r, 'e) pool \<Rightarrow> bool" where
  "pool_shape P p \<longleftrightarrow> length (po_results p) = length (po_values p) \<and> po_index p \<le> length (po_values p) \<and>
     (\<forall>w w' i. holds_place p w i \<longrightarrow> holds_place p w' i \<longrightarrow> w = w') \<and> (\<forall>w i. holds_place p w i \<longrightarrow> i < po_index p) \<and>
     (\<forall>i r. i < length (po_values p) \<longrightarrow> po_results p ! i = Some r \<longrightarrow> P (po_values p ! i) r)"

definition pool_live :: "('a, 'r, 'e) pool \<Rightarrow> bool" where
  "pool_live p \<longleftrightarrow> po_firstError p = None \<and>
     (\<forall>i < po_index p. (\<forall>w. \<not> holds_place p w i) \<longrightarrow> po_results p ! i \<noteq> None) \<and>
     (Finished \<in> set (po_workers p) \<longrightarrow> po_index p = length (po_values p))"

definition pool_inv :: "('a \<Rightarrow> 'r \<Rightarrow> bool) \<Rightarrow> ('a, 'r, 'e) pool \<Rightarrow> bool" where
  "pool_inv P p \<longleftrightarrow> pool_shape P p \<and> (\<not> po_aborted p \<longrightarrow> pool_live p)"

text \<open>Values not yet taken plus values in flight.\<close>

definition is_busy :: "pool_worker \<Rightarrow> bool" where
  "is_busy w = (case w of Busy _ \<Rightarrow> True | Finished \<Rightarrow> False)"

definition in_flight :: "('a, 'r, 'e) pool \<Rightarrow> nat" where
  "in_flight p = length (filter is_busy (po_workers p))"

definition pool_remaining :: "('a, 'r, 'e) pool \<Rightarrow> nat" where
  "pool_remaining p = (length (po_values p) - po_index p) + in_flight p"

lemma is_busy_simps [simp]: "is_busy (Busy i)" "\<not> is_busy Finished"
  by (simp_all add: is_busy_def)

lemma fold_pool_take:
  assumes "k \<le> n" "n \<le> length values"
  shows "fold pool_take [0..<k] \<lparr>po_values = values, po_results = rs, po_index = 0, po_firstError = None,
      po_aborted = False, po_workers = replicate n Finished\<rparr> =
    \<lparr>po_values = values, po_results = rs, po_index = k, po_firstError = None, po_aborted = False,
      po_workers = map Busy [0..<k] @ replicate (n - k) Finished\<rparr>"
  using assms(1)
proof (induction k)
  case (Suc k)
  have "replicate (n - k) Finished = Finished # replicate (n - Suc k) Finished"
    using Suc.prems by (metis Suc_diff_Suc Suc_le_lessD replicate_Suc)
  with Suc assms(2) show ?case by (simp add: pool_take_def list_update_append)
qed simp

lemma list_update_all_same: "list_all (\<lambda>y. y = x) ws \<Longrightarrow> ws[w := x] = ws"
  by (induction ws arbitrary: w) (auto split: nat.split)

lemma fold_pool_take_aborted:
  "po_aborted p \<Longrightarrow> list_all (\<lambda>w. w = Finished) (po_workers p) \<Longrightarrow> fold pool_take ws p = p"
proof (induction ws)
  case (Cons w ws)
  then show ?case by (simp add: pool_take_def list_update_all_same)
qed simp

lemma mapConcurrent_start:
  "mapConcurrent values c False = \<lparr>po_values = values, po_results = replicate (length values) None,
     po_index = min c (length values), po_firstError = None, po_aborted = False,
     po_workers = map Busy [0..<min c (length values)]\<rparr>"
  by (simp add: mapConcurrent_def Let_def fold_pool_take)

lemma mapConcurrent_aborted:
  "mapConcurrent values c True = \<lparr>po_values = values, po_results = replicate (length values) None, po_index = 0,
     po_firstError = None, po_aborted = True, po_workers = replicate (min c (length values)) Finished\<rparr>"
  by (simp add: mapConcurrent_def Let_def fold_pool_take_aborted list_all_length)

lemma pool_inv_start: "pool_inv P (mapConcurrent values c a)"
  by (cases a) (auto simp: mapConcurrent_start mapConcurrent_aborted pool_inv_def pool_shape_def pool_live_def
      holds_place_def)

lemma length_filter_update:
  "w < length ws \<Longrightarrow> length (filter f (ws[w := x])) + (if f (ws ! w) then 1 else 0) =
     length (filter f ws) + (if f x then 1 else 0)"
proof (induction ws arbitrary: w)
  case (Cons a ws)
  then show ?case by (cases w) auto
qed simp

lemma holds_place_update:
  "w < length (po_workers p) \<Longrightarrow> holds_place (p\<lparr>po_workers := (po_workers p)[w := x]\<rparr>) w' i \<longleftrightarrow>
     (if w' = w then x = Busy i else holds_place p w' i)"
  by (auto simp: holds_place_def nth_list_update)

lemma pool_shape_place: "pool_shape P p \<Longrightarrow> holds_place p w i \<Longrightarrow> i < po_index p \<and> i < length (po_results p)"
  unfolding pool_shape_def by (metis order.strict_trans2)

lemma pool_shape_result:
  assumes "pool_shape P p" "holds_place p w i" "P (po_values p ! i) r"
  shows "pool_shape P (p\<lparr>po_results := (po_results p)[i := Some r]\<rparr>)"
proof -
  have "P (po_values p ! j) x" if "j < length (po_values p)" "(po_results p)[i := Some r] ! j = Some x" for j x
    using that assms(1,3) pool_shape_place [OF assms(1,2)] by (auto simp: pool_shape_def nth_list_update split: if_splits)
  then show ?thesis using assms(1) by (simp add: pool_shape_def holds_place_def)
qed

lemma holds_place_take:
  "w < length (po_workers p) \<Longrightarrow> holds_place (pool_take w p) w' j \<longleftrightarrow>
     (if w' = w then \<not> po_aborted p \<and> po_index p < length (po_values p) \<and> j = po_index p else holds_place p w' j)"
  by (auto simp: pool_take_def holds_place_def nth_list_update)

lemma pool_take_fields [simp]:
  "po_values (pool_take w p) = po_values p" "po_results (pool_take w p) = po_results p"
  "po_firstError (pool_take w p) = po_firstError p" "po_aborted (pool_take w p) = po_aborted p"
  "length (po_workers (pool_take w p)) = length (po_workers p)"
  "po_index (pool_take w p) = (if po_aborted p \<or> length (po_values p) \<le> po_index p then po_index p else Suc (po_index p))"
  by (simp_all add: pool_take_def)

lemma pool_shape_take:
  assumes "pool_shape P p" "w < length (po_workers p)"
  shows "pool_shape P (pool_take w p)"
proof -
  have h: "holds_place p w' i \<Longrightarrow> i < po_index p" "holds_place p w' i \<Longrightarrow> holds_place p w'' i \<Longrightarrow> w' = w''" for w' w'' i
    using assms(1) unfolding pool_shape_def by blast+
  have u: "w' = w''" if "holds_place (pool_take w p) w' i" "holds_place (pool_take w p) w'' i" for w' w'' i
    using that h(1) [of w' i] h(1) [of w'' i] h(2) [of w' i w''] unfolding holds_place_take [OF assms(2)]
    by (simp split: if_splits)
  have b: "i < po_index (pool_take w p)" if "holds_place (pool_take w p) w' i" for w' i
    using that h(1) [of w' i] unfolding holds_place_take [OF assms(2)] by (auto split: if_splits)
  have f: "length (po_results p) = length (po_values p)" "po_index p \<le> length (po_values p)"
    "\<forall>i r. i < length (po_values p) \<longrightarrow> po_results p ! i = Some r \<longrightarrow> P (po_values p ! i) r"
    using assms(1) unfolding pool_shape_def by blast+
  show ?thesis unfolding pool_shape_def
    by (intro conjI allI impI) (use f in simp, use f in simp, erule (1) u, erule b, use f in simp)
qed

lemma pool_shape_settle:
  assumes "pool_shape P p" "\<And>i r. holds_place p w i \<Longrightarrow> outcome = Inr r \<Longrightarrow> P (po_values p ! i) r"
  shows "pool_shape P (pool_settle w outcome p)"
proof (cases "\<exists>i. holds_place p w i")
  case True
  then obtain i where h: "holds_place p w i" and w: "w < length (po_workers p)" "po_workers p ! w = Busy i"
    by (auto simp: holds_place_def)
  show ?thesis
  proof (cases outcome)
    case (Inl e)
    then show ?thesis using assms(1) w by (auto simp: pool_settle_def pool_shape_def holds_place_def nth_list_update)
  next
    case (Inr r)
    then show ?thesis using pool_shape_take [OF pool_shape_result [OF assms(1) h assms(2) [OF h Inr]], of w] w
      by (simp add: pool_settle_def)
  qed
next
  case False
  then show ?thesis using assms(1) by (auto simp: pool_settle_def holds_place_def split: pool_worker.split)
qed

lemma pool_live_settle:
  assumes "pool_shape P p" "pool_live p" "holds_place p w i" "\<not> po_aborted (pool_settle w outcome p)"
  shows "pool_live (pool_settle w outcome p)"
proof -
  have w: "w < length (po_workers p)" "po_workers p ! w = Busy i" using assms(3) by (auto simp: holds_place_def)
  obtain r where r: "outcome = Inr r" "\<not> po_aborted p"
    using assms(4) w by (cases outcome) (auto simp: pool_settle_def pool_take_def split: if_splits)
  let ?p = "p\<lparr>po_results := (po_results p)[i := Some r]\<rparr>"
  have i: "i < length (po_results p)" "i < po_index p"
    using pool_shape_place [OF assms(1,3)] by simp_all
  have h: "holds_place ?p = holds_place p" by (simp add: fun_eq_iff holds_place_def)
  have live: "po_results ?p ! j \<noteq> None" if "j < po_index p" "\<forall>w'. w' \<noteq> w \<longrightarrow> \<not> holds_place p w' j" for j
  proof (cases "j = i")
    case False
    then have "\<not> holds_place p w j" using w by (simp add: holds_place_def)
    then have "\<forall>w'. \<not> holds_place p w' j" using that(2) by metis
    with that(1) assms(2) False show ?thesis by (simp add: pool_live_def)
  qed (use i in simp)
  have step: "pool_settle w outcome p = pool_take w ?p" using w r by (simp add: pool_settle_def)
  have fin: "po_index (pool_take w ?p) = length (po_values p)" if "Finished \<in> set (po_workers (pool_take w ?p))"
  proof (cases "length (po_values p) \<le> po_index p")
    case True
    with assms(1) show ?thesis by (simp add: pool_shape_def)
  next
    case False
    with that r(2) have "Finished \<in> set (po_workers p)"
      using set_update_subset_insert [of "po_workers p" w "Busy (po_index p)"] by (auto simp: pool_take_def)
    with False assms(2) show ?thesis by (simp add: pool_live_def)
  qed
  have "\<forall>j < po_index (pool_take w ?p). (\<forall>w'. \<not> holds_place (pool_take w ?p) w' j) \<longrightarrow> po_results ?p ! j \<noteq> None"
  proof (intro allI impI)
    fix j
    assume j: "j < po_index (pool_take w ?p)" "\<forall>w'. \<not> holds_place (pool_take w ?p) w' j"
    have "w < length (po_workers ?p)" using w by simp
    note t = holds_place_take [OF this, unfolded h]
    have "j < po_index p" using j(1) j(2) [THEN spec, of w] r(2) unfolding t by (auto split: if_splits)
    moreover have "\<forall>w'. w' \<noteq> w \<longrightarrow> \<not> holds_place p w' j" using j(2) unfolding t by metis
    ultimately show "po_results ?p ! j \<noteq> None" by (rule live)
  qed
  moreover have "po_firstError p = None" using assms(2) by (simp add: pool_live_def)
  ultimately show ?thesis unfolding step pool_live_def using fin by (intro conjI) (simp, simp, simp)
qed

lemma pool_inv_settle:
  assumes "pool_inv P p" "\<And>i r. holds_place p w i \<Longrightarrow> outcome = Inr r \<Longrightarrow> P (po_values p ! i) r"
  shows "pool_inv P (pool_settle w outcome p)"
proof (cases "\<exists>i. holds_place p w i")
  case True
  then obtain i where h: "holds_place p w i" ..
  have "\<not> po_aborted p" if "\<not> po_aborted (pool_settle w outcome p)"
    using that by (auto simp: pool_settle_def split: if_splits pool_worker.splits sum.splits)
  then show ?thesis
    using pool_shape_settle [of P p w outcome, OF _ assms(2)] pool_live_settle [OF _ _ h] assms(1)
    unfolding pool_inv_def by blast
next
  case False
  then show ?thesis using assms(1) by (auto simp: pool_settle_def holds_place_def split: pool_worker.split)
qed

lemma pool_inv_abort: "pool_inv P p \<Longrightarrow> pool_inv P (pool_abort p)"
  by (simp add: pool_inv_def pool_shape_def pool_abort_def holds_place_def)

lemma pool_settle_fields [simp]:
  "po_values (pool_settle w outcome p) = po_values p"
  "length (po_workers (pool_settle w outcome p)) = length (po_workers p)"
  by (auto simp: pool_settle_def split: pool_worker.split sum.split)

lemma in_flight_take:
  "w < length (po_workers p) \<Longrightarrow> in_flight (pool_take w p) + (if is_busy (po_workers p ! w) then 1 else 0) =
     in_flight p + (if po_aborted p \<or> length (po_values p) \<le> po_index p then 0 else 1)"
  using length_filter_update [of w "po_workers p" is_busy] by (simp add: pool_take_def in_flight_def)

lemma pool_settle_decreases:
  assumes "holds_place p w i"
  shows "pool_remaining (pool_settle w outcome p) < pool_remaining p"
proof -
  have w: "w < length (po_workers p)" "po_workers p ! w = Busy i" using assms by (auto simp: holds_place_def)
  show ?thesis
  proof (cases outcome)
    case (Inl e)
    then show ?thesis using w length_filter_update [of w "po_workers p" is_busy Finished]
      by (simp add: pool_settle_def pool_remaining_def in_flight_def)
  next
    case (Inr r)
    let ?p = "p\<lparr>po_results := (po_results p)[i := Some r]\<rparr>"
    have "in_flight ?p = in_flight p" by (simp add: in_flight_def)
    then show ?thesis using Inr w in_flight_take [of w ?p] by (auto simp: pool_settle_def pool_remaining_def split: if_splits)
  qed
qed

lemma pool_remaining_start: "pool_remaining (mapConcurrent values c a) \<le> length values"
  by (cases a) (auto simp: mapConcurrent_start mapConcurrent_aborted pool_remaining_def in_flight_def filter_map comp_def)

text \<open>The actions that matter: settlements of workers that are waiting. A run performs them while it can.\<close>

fun pool_enabled :: "('r, 'e) pool_action \<Rightarrow> ('a, 'r, 'e) pool \<Rightarrow> bool" where
  "pool_enabled (Settle w _) p = (w < length (po_workers p) \<and> is_busy (po_workers p ! w))"
| "pool_enabled SignalAbort p = (\<not> po_aborted p)"

fun pool_run_enabled :: "('r, 'e) pool_action list \<Rightarrow> ('a, 'r, 'e) pool \<Rightarrow> bool" where
  "pool_run_enabled [] p = True"
| "pool_run_enabled (a # as) p = (pool_enabled a p \<and> pool_run_enabled as (pool_step a p))"

lemma busy_holds: "is_busy x \<longleftrightarrow> (\<exists>i. x = Busy i)"
  by (cases x) auto

fun is_settle :: "('r, 'e) pool_action \<Rightarrow> bool" where
  "is_settle (Settle w outcome) = True"
| "is_settle SignalAbort = False"

lemma pool_abort_remaining [simp]: "pool_remaining (pool_abort p) = pool_remaining p"
  by (simp add: pool_remaining_def pool_abort_def in_flight_def)

lemma pool_run_settles:
  "pool_run_enabled as p \<Longrightarrow> length (filter is_settle as) + pool_remaining (run pool_step as p) \<le> pool_remaining p"
proof (induction as arbitrary: p)
  case (Cons a as)
  then show ?case
  proof (cases a)
    case (Settle w outcome)
    with Cons.prems obtain i where "holds_place p w i" by (auto simp: holds_place_def busy_holds)
    from pool_settle_decreases [OF this, of outcome] Cons Settle show ?thesis by fastforce
  qed fastforce
qed simp

lemma pool_aborted_stays: "po_aborted p \<Longrightarrow> po_aborted (pool_step a p)"
  by (cases a) (auto simp: pool_abort_def pool_settle_def split: pool_worker.split sum.split)

lemma pool_run_aborts:
  "pool_run_enabled as p \<Longrightarrow> length (filter (Not \<circ> is_settle) as) \<le> (if po_aborted p then 0 else 1)"
proof (induction as arbitrary: p)
  case (Cons a as)
  have "po_aborted (pool_abort p)" by (simp add: pool_abort_def)
  then show ?case using Cons.IH [of "pool_step a p"] Cons.prems pool_aborted_stays [of p a] by (cases a) (auto split: if_splits)
qed simp

lemma pool_step_workers:
  "po_values (pool_step a p) = po_values p \<and> length (po_workers (pool_step a p)) = length (po_workers p)"
  by (cases a) (simp_all add: pool_abort_def)

lemma pool_run_workers:
  "po_values (run pool_step as p) = po_values p \<and> length (po_workers (run pool_step as p)) = length (po_workers p)"
  by (induction as arbitrary: p) (simp_all add: pool_step_workers)

lemma mapConcurrent_fields:
  "po_values (mapConcurrent values c a) = values"
  "length (po_workers (mapConcurrent values c a)) = min c (length values)"
  by (cases a; simp add: mapConcurrent_start mapConcurrent_aborted)+

text \<open>C34: the pool never hangs and never exceeds its bound. In a run from the start of a call on \<open>n\<close>
  values, the settlements so far and the values that are still in flight or waiting are at most \<open>n\<close>
  together, the signal aborts the pool at most once, at most \<open>concurrency\<close> calls are in flight
  at any moment, and as long as some worker has not ended, a call is in flight whose settlement
  makes progress.\<close>

theorem mapConcurrent_terminates:
  fixes p :: "('a, 'r, 'e) pool"
  assumes "pool_run_enabled acts (mapConcurrent values concurrency aborted)"
    and "p = run pool_step acts (mapConcurrent values concurrency aborted)"
  shows "length (filter is_settle acts) + pool_remaining p \<le> length values \<and>
    length (filter (Not \<circ> is_settle) acts) \<le> 1 \<and> in_flight p \<le> concurrency \<and>
    (pool_ended p \<or> (\<exists>w < length (po_workers p). \<forall>outcome.
       pool_enabled (Settle w outcome) p \<and> pool_remaining (pool_settle w outcome p) < pool_remaining p))"
proof -
  let ?p0 = "mapConcurrent values concurrency aborted :: ('a, 'r, 'e) pool"
  have "pool_remaining ?p0 \<le> length values" by (rule pool_remaining_start)
  then have len: "length (filter is_settle acts) + pool_remaining p \<le> length values"
    unfolding assms(2) using pool_run_settles [OF assms(1)] by linarith
  have ab: "length (filter (Not \<circ> is_settle) acts) \<le> 1" using pool_run_aborts [OF assms(1)] by (auto split: if_splits)
  have "length (po_workers p) = min concurrency (length values)"
    using pool_run_workers [of acts ?p0] mapConcurrent_fields(2) assms(2) by metis
  then have fl: "in_flight p \<le> concurrency"
    unfolding in_flight_def by (metis length_filter_le min.bounded_iff)
  have "\<exists>w < length (po_workers p). \<forall>outcome. pool_enabled (Settle w outcome) p \<and>
      pool_remaining (pool_settle w outcome p) < pool_remaining p" if unended: "\<not> pool_ended p"
  proof -
    obtain w where "w < length (po_workers p)" "po_workers p ! w \<noteq> Finished"
      using unended by (auto simp: pool_ended_def list_all_length)
    then obtain i where h: "holds_place p w i" by (cases "po_workers p ! w") (auto simp: holds_place_def)
    then have "w < length (po_workers p)" "\<And>outcome. pool_enabled (Settle w outcome) p" by (auto simp: holds_place_def)
    with pool_settle_decreases [OF h] show ?thesis by blast
  qed
  then show ?thesis using len ab fl by blast
qed

theorem mapConcurrent_terminates_witness:
  "let p = run pool_step [Settle 1 (Inr ''b''), Settle 0 (Inl True)] (mapConcurrent [4, 5, 6 :: nat] 2 False)
   in 2 + pool_remaining p \<le> 3 \<and> in_flight p \<le> 2 \<and> \<not> pool_ended p"
proof -
  let ?acts = "[Settle 1 (Inr ''b''), Settle 0 (Inl True)]"
  have "[0..<2] = [0, 1 :: nat]" by (simp add: upt_rec)
  then have s: "mapConcurrent [4, 5, 6 :: nat] 2 False = \<lparr>po_values = [4, 5, 6], po_results = [None, None, None],
    po_index = 2, po_firstError = None, po_aborted = False, po_workers = [Busy 0, Busy 1]\<rparr>"
    by (simp add: mapConcurrent_start numeral_eq_Suc)
  have "pool_run_enabled ?acts (mapConcurrent [4, 5, 6 :: nat] 2 False)"
    by (simp add: s pool_settle_def pool_take_def)
  from mapConcurrent_terminates [OF this refl]
  have "2 + pool_remaining (run pool_step ?acts (mapConcurrent [4, 5, 6 :: nat] 2 False)) \<le> 3"
    "in_flight (run pool_step ?acts (mapConcurrent [4, 5, 6 :: nat] 2 False)) \<le> 2" by simp_all
  then show ?thesis by (simp add: s pool_settle_def pool_take_def pool_ended_def)
qed

text \<open>What every settlement delivers is related to its value by \<open>P\<close>.\<close>

fun settles_with :: "('a \<Rightarrow> 'r \<Rightarrow> bool) \<Rightarrow> ('r, 'e) pool_action list \<Rightarrow> ('a, 'r, 'e) pool \<Rightarrow> bool" where
  "settles_with P [] p = True"
| "settles_with P (a # as) p =
     ((case a of Settle w (Inr r) \<Rightarrow> (w < length (po_workers p) \<longrightarrow>
         (case po_workers p ! w of Busy i \<Rightarrow> P (po_values p ! i) r | Finished \<Rightarrow> True)) | _ \<Rightarrow> True) \<and>
      settles_with P as (pool_step a p))"

lemma pool_inv_run: "pool_inv P p \<Longrightarrow> settles_with P as p \<Longrightarrow> pool_inv P (run pool_step as p)"
proof (induction as arbitrary: p)
  case (Cons a as)
  have "pool_inv P (pool_step a p)"
  proof (cases a)
    case (Settle w outcome)
    then show ?thesis using Cons.prems
      by (auto intro!: pool_inv_settle simp: holds_place_def split: sum.splits)
  qed (simp add: Cons.prems(1) pool_inv_abort)
  with Cons show ?case by simp
qed simp

lemma pool_complete:
  assumes "pool_inv P p" "pool_ended p" "\<not> po_aborted p" "po_values p \<noteq> [] \<longrightarrow> po_workers p \<noteq> []"
  shows "\<exists>rs. po_results p = map Some rs \<and> list_all2 P (po_values p) rs \<and> po_firstError p = None"
proof -
  have inv: "pool_shape P p" "pool_live p" using assms(1,3) by (auto simp: pool_inv_def)
  have "po_index p = length (po_values p)"
  proof (cases "po_values p")
    case Cons
    then have "Finished \<in> set (po_workers p)" using assms(2,4) by (cases "po_workers p") (auto simp: pool_ended_def)
    then show ?thesis using inv(2) by (simp add: pool_live_def)
  qed (use inv(1) in \<open>simp add: pool_shape_def\<close>)
  moreover have "\<not> holds_place p w i" for w i using assms(2) by (auto simp: holds_place_def pool_ended_def list_all_length)
  ultimately have some: "po_results p ! i \<noteq> None" if "i < length (po_values p)" for i
    using that inv(2) by (auto simp: pool_live_def)
  have len: "length (po_results p) = length (po_values p)" using inv(1) by (simp add: pool_shape_def)
  let ?rs = "map the (po_results p)"
  have "po_results p = map Some ?rs" using some len by (intro nth_equalityI) auto
  moreover have "list_all2 P (po_values p) ?rs"
    using some len inv(1) unfolding list_all2_conv_all_nth by (auto simp: pool_shape_def)
  moreover have "po_firstError p = None" using inv(2) by (simp add: pool_live_def)
  ultimately show ?thesis by (intro exI [of _ ?rs] conjI)
qed

text \<open>C35: when a pool with a positive concurrency ends without abort it returns a result for every value, each at the place of its
  value and each one that a call on that value delivered; an ended pool that failed reports an error.\<close>

theorem mapConcurrent_in_order:
  assumes "settles_with P acts (mapConcurrent values concurrency False)" "0 < concurrency"
    and "p = run pool_step acts (mapConcurrent values concurrency False)" "pool_ended p" "\<not> po_aborted p"
  shows "\<exists>rs. pool_result False p = Inr (map Some rs) \<and> list_all2 P values rs"
proof -
  have inv: "pool_inv P p" unfolding assms(3) by (rule pool_inv_run [OF pool_inv_start assms(1)])
  have f: "po_values p = values" "length (po_workers p) = min concurrency (length values)"
    using pool_run_workers [of acts "mapConcurrent values concurrency False"] mapConcurrent_fields assms(3) by metis+
  then have "po_values p \<noteq> [] \<longrightarrow> po_workers p \<noteq> []" using assms(2) by (cases "values") auto
  from pool_complete [OF inv assms(4,5) this] f(1) show ?thesis by (auto simp: pool_result_def)
qed

theorem mapConcurrent_in_order_witness:
  "\<exists>rs. pool_result False (run pool_step [Settle 1 (Inr 50), Settle 1 (Inr 60), Settle 0 (Inr 40)]
       (mapConcurrent [4, 5, 6 :: nat] 2 False) :: (nat, nat, bool) pool) = Inr (map Some rs) \<and> rs = [40, 50, 60]"
proof -
  let ?acts = "[Settle 1 (Inr 50), Settle 1 (Inr 60), Settle 0 (Inr 40)] :: (nat, bool) pool_action list"
  have "[0..<2] = [0, 1 :: nat]" by (simp add: upt_rec)
  then have s: "mapConcurrent [4, 5, 6 :: nat] 2 False = \<lparr>po_values = [4, 5, 6], po_results = [None, None, None],
    po_index = 2, po_firstError = None, po_aborted = False, po_workers = [Busy 0, Busy 1]\<rparr>"
    by (simp add: mapConcurrent_start numeral_eq_Suc)
  have "settles_with (\<lambda>v r. r = 10 * v) ?acts (mapConcurrent [4, 5, 6 :: nat] 2 False)"
    "pool_ended (run pool_step ?acts (mapConcurrent [4, 5, 6 :: nat] 2 False))"
    "\<not> po_aborted (run pool_step ?acts (mapConcurrent [4, 5, 6 :: nat] 2 False))"
    by (simp_all add: s pool_settle_def pool_take_def pool_ended_def)
  from mapConcurrent_in_order [OF this(1) _ refl this(2,3)]
  obtain rs where "pool_result False (run pool_step ?acts (mapConcurrent [4, 5, 6 :: nat] 2 False)) = Inr (map Some rs)"
    "list_all2 (\<lambda>v r. r = 10 * v) [4, 5, 6] rs" by auto
  then show ?thesis by (auto simp: list_all2_Cons1)
qed

end
