(* ===== verification/Loader_Resolve.thy ===== *)
theory Loader_Resolve
  imports Release Fetch_Pool
begin

text \<open>
  The pure parts of the release loader (\<^verbatim>\<open>sdk/typescript/src/releases/loader.ts\<close>): its
  options, the comparisons of releases and candidates, the manifest checks of \<open>resolveCandidate\<close>
  before anything is fetched, the checks of \<open>resolveEntry\<close> on what the transport returned, and the
  reconnect delay. An exception other than a \<open>ResolutionError\<close> is reported as
  \<open>resolution_failed\<close> by the caller, so errors are release categories here.

  The lemmas show that a snapshot handed to the application pins exactly the entries of the release:
  each value is of the pinned version and content type, a parameter has the pinned hash, a secret was
  enabled, not destroyed and not expired.
\<close>

section \<open>Constants and options\<close>

definition LOADER_RECONCILE_INTERVAL_MS :: real where "LOADER_RECONCILE_INTERVAL_MS = 60000"
definition DEFAULT_MAX_CONCURRENT_FETCHES :: real where "DEFAULT_MAX_CONCURRENT_FETCHES = 16"
definition MAX_CONCURRENT_FETCHES :: real where "MAX_CONCURRENT_FETCHES = 256"
definition BACKOFF_BASE_MS :: real where "BACKOFF_BASE_MS = 250"
definition BACKOFF_CAP_MS :: real where "BACKOFF_CAP_MS = 30000"
definition BACKOFF_MIN_MS :: real where "BACKOFF_MIN_MS = 10"
definition MAX_ACK_DIVERGENT_FIELD_COUNT :: int where "MAX_ACK_DIVERGENT_FIELD_COUNT = 65535"

text \<open>
  The binding keys an application passes: absent, not a record, or a record whose own enumerable
  properties carry a string (\<open>Some\<close>) or anything else (\<open>None\<close>). A schema version that is not a
  bigint is \<open>None\<close>.
\<close>

datatype binding_input = NoBindings | BindingsNotRecord | Bindings "(string \<times> string option) list"

record loader_options =
  lo_namespace :: "namespace_ref option"
  lo_name :: string
  lo_clientName :: string
  lo_schemaVersion :: "int option"
  lo_instanceId :: "string option"
  lo_reconcileIntervalMs :: "js_number option"
  lo_maxConcurrentFetches :: "js_number option"
  lo_bindingKeys :: binding_input
  lo_validateManifest :: bool
  lo_acknowledgementTimeoutMs :: "js_number option"

record normalized_options =
  no_namespace :: namespace_ref
  no_name :: string
  no_clientName :: string
  no_schemaVersion :: int
  no_instanceId :: string
  no_reconcileIntervalMs :: real
  no_maxConcurrentFetches :: nat
  no_bindingKeys :: "(string, string) jsmap"
  no_validateManifest :: bool
  no_acknowledgementTimeoutMs :: real

datatype options_error =
    NamespaceRequired | NameRequired | ClientNameRequired | SchemaVersionNotBigint | SchemaVersionRange
  | ReconcileIntervalNotFinite | MaxConcurrentFetchesInvalid | BindingKeysNotRecord | BindingKeyNotString
  | AcknowledgementTimeoutNotPositive

definition loader_positiveFinite :: "js_number \<Rightarrow> options_error + real" where
  "loader_positiveFinite v =
     (case v of NonFinite _ \<Rightarrow> Inl AcknowledgementTimeoutNotPositive
      | Finite r \<Rightarrow> require (0 < r) AcknowledgementTimeoutNotPositive r)"

definition loader_assertUint64 :: "int option \<Rightarrow> options_error + int" where
  "loader_assertUint64 v =
     (case v of None \<Rightarrow> Inl SchemaVersionNotBigint
      | Some i \<Rightarrow> require (\<not> (i < 0 \<or> i > 2 ^ 64 - 1)) SchemaVersionRange i)"

fun normalizeBindingKeys :: "binding_input \<Rightarrow> options_error + (string, string) jsmap" where
  "normalizeBindingKeys NoBindings = Inr []"
| "normalizeBindingKeys BindingsNotRecord = Inl BindingKeysNotRecord"
| "normalizeBindingKeys (Bindings keys) =
     traverse (\<lambda>(alias, v). case v of None \<Rightarrow> Inl BindingKeyNotString | Some s \<Rightarrow> Inr (alias, s)) keys"

text \<open>\<open>n && n > 0 ? n : default\<close>: zero, negative numbers and NaN select the default.\<close>

definition positive_or :: "js_number option \<Rightarrow> real \<Rightarrow> js_number" where
  "positive_or n d =
     (case n of None \<Rightarrow> Finite d
      | Some (Finite r) \<Rightarrow> if 0 < r then Finite r else Finite d
      | Some (NonFinite PosInf) \<Rightarrow> NonFinite PosInf
      | Some (NonFinite _) \<Rightarrow> Finite d)"

definition finite_or :: "options_error \<Rightarrow> js_number \<Rightarrow> options_error + real" where
  "finite_or e v = (case v of NonFinite _ \<Rightarrow> Inl e | Finite r \<Rightarrow> Inr r)"

definition normalizeOptions :: "loader_options \<Rightarrow> string \<Rightarrow> options_error + normalized_options" where
  "normalizeOptions options uuid =
     sum_bind (of_option NamespaceRequired (lo_namespace options)) (\<lambda>ns.
     sum_bind (require (js_trim (ns_env ns) \<noteq> [] \<and> js_trim (ns_app ns) \<noteq> []) NamespaceRequired ()) (\<lambda>_.
     sum_bind (require (js_trim (lo_name options) \<noteq> []) NameRequired (js_trim (lo_name options))) (\<lambda>name.
     sum_bind (require (js_trim (lo_clientName options) \<noteq> []) ClientNameRequired (js_trim (lo_clientName options))) (\<lambda>clientName.
     sum_bind (loader_assertUint64 (lo_schemaVersion options)) (\<lambda>schemaVersion.
     sum_bind (finite_or ReconcileIntervalNotFinite (case lo_reconcileIntervalMs options of None \<Rightarrow> Finite 0 | Some n \<Rightarrow> n)) (\<lambda>requested.
     sum_bind (finite_or MaxConcurrentFetchesInvalid
         (positive_or (lo_maxConcurrentFetches options) DEFAULT_MAX_CONCURRENT_FETCHES)) (\<lambda>fetches.
     sum_bind (require (isInteger (Finite fetches) \<and> fetches \<le> MAX_CONCURRENT_FETCHES) MaxConcurrentFetchesInvalid ()) (\<lambda>_.
     sum_bind (normalizeBindingKeys (lo_bindingKeys options)) (\<lambda>keys.
     sum_bind (loader_positiveFinite (case lo_acknowledgementTimeoutMs options of None \<Rightarrow> Finite 5000 | Some n \<Rightarrow> n)) (\<lambda>timeout.
       Inr \<lparr>no_namespace = \<lparr>ns_env = ns_env ns, ns_app = ns_app ns\<rparr>, no_name = name, no_clientName = clientName,
         no_schemaVersion = schemaVersion,
         no_instanceId = (case lo_instanceId options of None \<Rightarrow> uuid | Some i \<Rightarrow> if js_trim i = [] then uuid else js_trim i),
         no_reconcileIntervalMs = (if 0 < requested then requested else LOADER_RECONCILE_INTERVAL_MS),
         no_maxConcurrentFetches = nat \<lfloor>fetches\<rfloor>, no_bindingKeys = keys,
         no_validateManifest = lo_validateManifest options, no_acknowledgementTimeoutMs = timeout\<rparr>))))))))))"

text \<open>The full-jitter reconnect delay; \<open>random\<close> is what the generator returned.\<close>

definition releaseReconnectBackoff :: "nat \<Rightarrow> real \<Rightarrow> real" where
  "releaseReconnectBackoff attempt random =
     (let ceiling = min BACKOFF_CAP_MS (BACKOFF_BASE_MS * 2 ^ min (max 0 attempt) 30)
      in max BACKOFF_MIN_MS (real_of_int \<lfloor>random * ceiling\<rfloor>))"

section \<open>Candidates\<close>

datatype candidate_source = Activation | Reconciliation

record candidate =
  cd_fleetRevision :: int
  cd_release :: configuration_release
  cd_revision :: int
  cd_source :: candidate_source
  cd_sequence :: int

text \<open>The code outside the sources: the hash, and the protobuf codec of a release.\<close>

record release_env =
  env_sha256 :: "string \<Rightarrow> string"
  env_encode :: "configuration_release \<Rightarrow> string"
  env_decode :: "string \<Rightarrow> configuration_release"

definition cloneRelease :: "release_env \<Rightarrow> configuration_release \<Rightarrow> configuration_release" where
  "cloneRelease env r = env_decode env (env_encode env r)"

definition makeCandidate :: "release_env \<Rightarrow> configuration_release \<Rightarrow> int \<Rightarrow> candidate_source \<Rightarrow> int \<Rightarrow> int \<Rightarrow> candidate" where
  "makeCandidate env r revision source sequence fleetRevision =
     \<lparr>cd_fleetRevision = fleetRevision, cd_release = cloneRelease env r, cd_revision = revision,
      cd_source = source, cd_sequence = sequence\<rparr>"

definition loader_cloneRef :: "wire_ref \<Rightarrow> wire_ref" where
  "loader_cloneRef ref =
     \<lparr>wr_namespace = map_option (\<lambda>ns. \<lparr>ns_env = ns_env ns, ns_app = ns_app ns\<rparr>) (wr_namespace ref), wr_key = wr_key ref\<rparr>"

definition sameResourceRef :: "wire_ref option \<Rightarrow> wire_ref option \<Rightarrow> bool" where
  "sameResourceRef left right =
     (case left of None \<Rightarrow> False | Some l \<Rightarrow> (case right of None \<Rightarrow> False | Some r \<Rightarrow>
        (case wr_namespace l of None \<Rightarrow> False | Some nl \<Rightarrow> (case wr_namespace r of None \<Rightarrow> False | Some nr \<Rightarrow>
           ns_env nl = ns_env nr \<and> ns_app nl = ns_app nr \<and> wr_key l = wr_key r))))"

definition sameNamespace :: "namespace_ref option \<Rightarrow> namespace_ref \<Rightarrow> bool" where
  "sameNamespace left right = (case left of None \<Rightarrow> False | Some l \<Rightarrow> ns_env l = ns_env right \<and> ns_app l = ns_app right)"

definition releaseMatchesTrack :: "configuration_release \<Rightarrow> normalized_options \<Rightarrow> bool" where
  "releaseMatchesTrack r track \<longleftrightarrow> sameNamespace (cr_namespace r) (no_namespace track) \<and>
     cr_name r = no_name track \<and> cr_schemaVersion r = no_schemaVersion track"

definition sameQueuedCandidate :: "candidate \<Rightarrow> candidate \<Rightarrow> bool" where
  "sameQueuedCandidate l r \<longleftrightarrow> cd_revision l = cd_revision r \<and>
     cr_schemaVersion (cd_release l) = cr_schemaVersion (cd_release r) \<and>
     cr_version (cd_release l) = cr_version (cd_release r) \<and> cr_digest (cd_release l) = cr_digest (cd_release r)"

definition sameActiveCandidate :: "candidate \<Rightarrow> candidate \<Rightarrow> bool" where
  "sameActiveCandidate l r \<longleftrightarrow> cd_revision l = cd_revision r \<and>
     (case cr_namespace (cd_release r) of None \<Rightarrow> False | Some ns \<Rightarrow> sameNamespace (cr_namespace (cd_release l)) ns) \<and>
     cr_name (cd_release l) = cr_name (cd_release r) \<and>
     cr_schemaVersion (cd_release l) = cr_schemaVersion (cd_release r) \<and>
     cr_version (cd_release l) = cr_version (cd_release r) \<and> cr_digest (cd_release l) = cr_digest (cd_release r)"

definition namespacePath :: "namespace_ref \<Rightarrow> string" where
  "namespacePath ns = ns_env ns @ ''/'' @ ns_app ns"

definition resourcePath :: "wire_ref \<Rightarrow> string option" where
  "resourcePath ref = map_option (\<lambda>ns. ''/'' @ ns_env ns @ ''/'' @ ns_app ns @ ''/'' @ wr_key ref) (wr_namespace ref)"

section \<open>Divergence reports\<close>

text \<open>
  What calling \<open>releaseDivergence\<close> of a prepared release does: there is none, it throws, it returns
  no object, or an object whose \<open>divergent\<close> is \<open>true\<close> or not and whose \<open>fieldCount\<close> is a number or not.
\<close>

datatype divergence_report = NoReporter | ReporterThrows | ReportNotObject | Report bool "js_number option"

record ack_divergence =
  ad_divergent :: bool
  ad_fieldCount :: int

definition NO_DIVERGENCE :: ack_divergence where
  "NO_DIVERGENCE = \<lparr>ad_divergent = False, ad_fieldCount = 0\<rparr>"

fun divergenceOf :: "divergence_report \<Rightarrow> ack_divergence" where
  "divergenceOf (Report divergent fieldCount) =
     (if \<not> divergent then NO_DIVERGENCE
      else let cnt = (case fieldCount of Some (Finite r) \<Rightarrow> js_trunc r | _ \<Rightarrow> 0)
           in \<lparr>ad_divergent = True, ad_fieldCount = min (max cnt 0) MAX_ACK_DIVERGENT_FIELD_COUNT\<rparr>)"
| "divergenceOf _ = NO_DIVERGENCE"

section \<open>The manifest of a candidate\<close>

definition metadataForEntry :: "release_entry \<Rightarrow> release_category + entry_metadata" where
  "metadataForEntry e =
     (if re_alias e = [] \<or> re_version e \<le> 0 then Inl ResolutionFailed
      else case re_ref e of None \<Rightarrow> Inl ResolutionFailed
        | Some ref \<Rightarrow>
          (case resourcePath ref of None \<Rightarrow> Inl ResolutionFailed
           | Some path \<Rightarrow>
             (case (if re_kind e = ''parameter'' then Some ParameterEntry
                    else if re_kind e = ''secret'' then Some SecretEntry else None) of
                None \<Rightarrow> Inl ResolutionFailed
              | Some kind \<Rightarrow>
                (case newReleaseEntryMetadata (re_alias e) kind path (re_version e) (Some (re_contentType e))
                        (Some (re_metadataJson e)) (Some (re_parameterDigest e)) of
                   None \<Rightarrow> Inl ResolutionFailed | Some m \<Rightarrow> Inr m))))"

text \<open>The loop that builds the alias map; a duplicate alias or a foreign entry is refused.\<close>

fun manifest_entries ::
  "namespace_ref \<Rightarrow> (string, entry_metadata) jsmap \<Rightarrow> release_entry list \<Rightarrow> release_category + (string, entry_metadata) jsmap" where
  "manifest_entries ns m [] = Inr m"
| "manifest_entries ns m (e # es) =
     (if \<not> sameNamespace (case re_ref e of None \<Rightarrow> None | Some ref \<Rightarrow> wr_namespace ref) ns then Inl ResolutionFailed
      else case metadataForEntry e of Inl c \<Rightarrow> Inl c
        | Inr md \<Rightarrow> if map_has m (em_alias md) then Inl ResolutionFailed
            else manifest_entries ns (map_set (em_alias md) md m) es)"

text \<open>Everything \<open>resolveCandidate\<close> does before its first \<open>await\<close>, up to the manifest.\<close>

definition candidate_manifest :: "release_env \<Rightarrow> normalized_options \<Rightarrow> candidate \<Rightarrow> release_category + release_identity" where
  "candidate_manifest env opts c =
     (let r = cd_release c
      in case cr_namespace r of None \<Rightarrow> Inl ResolutionFailed
      | Some ns \<Rightarrow>
        if \<not> releaseMatchesTrack r opts then Inl VersionMismatch
        else if releaseDigestMatches (env_sha256 env) (env_encode env) r \<noteq> Inr True then Inl DigestMismatch
        else if cr_entries r = [] then Inl ResolutionFailed
        else case manifest_entries ns [] (cr_entries r) of Inl e \<Rightarrow> Inl e
          | Inr entries \<Rightarrow>
            (case newReleaseIdentity (namespacePath ns) (cr_name r) (cr_version r) (cd_fleetRevision c)
                    (Some (cd_revision c)) (Some (cr_schemaVersion r)) (cr_digest r) (Some (cr_metadataJson r)) entries of
               None \<Rightarrow> Inl ResolutionFailed | Some ident \<Rightarrow> Inr ident))"

section \<open>Resolving one entry\<close>

record wire_parameter =
  wp_ref :: "wire_ref option"
  wp_value :: string
  wp_contentType :: string
  wp_version :: int

record secret_version_info =
  sv_version :: int
  sv_state :: string
  sv_destroyedAtUnixMs :: int
  sv_expiresAtUnixMs :: int
  sv_bound :: bool

record secret_metadata =
  sm_ref :: "wire_ref option"
  sm_versions :: "secret_version_info list"

record fetched_secret =
  fs_ref :: "wire_ref option"
  fs_version :: int
  fs_value :: string
  fs_contentType :: string

text \<open>
  What the transport answers to the calls of one \<open>resolveEntry\<close>: \<open>None\<close> is a rejected call. The
  secret is asked for with a binding key, so that answer is a function of the key.
\<close>

record entry_replies =
  er_parameter :: "wire_parameter option"
  er_metadata :: "secret_metadata option"
  er_secret :: "string \<Rightarrow> fetched_secret option"

record resolved_entry =
  rv_metadata :: entry_metadata
  rv_parameter :: "release_parameter option"
  rv_secret :: "release_secret option"

definition fetch_failure :: "bool \<Rightarrow> release_category" where
  "fetch_failure aborted = (if aborted then Superseded else ResolutionFailed)"

definition resolve_parameter ::
  "(string \<Rightarrow> string) \<Rightarrow> bool \<Rightarrow> release_entry \<Rightarrow> entry_metadata \<Rightarrow> wire_parameter option \<Rightarrow> release_category + resolved_entry" where
  "resolve_parameter sha256 aborted e md reply =
     (case reply of None \<Rightarrow> Inl (fetch_failure aborted)
      | Some p \<Rightarrow>
        if \<not> sameResourceRef (wp_ref p) (re_ref e) \<or> wp_version p \<noteq> re_version e then Inl VersionMismatch
        else if \<not> hex64 (re_parameterDigest e) \<or>
          map ascii_lower (sha256 (wp_value p)) \<noteq> map ascii_lower (re_parameterDigest e) then Inl DigestMismatch
        else if wp_contentType p \<noteq> re_contentType e then Inl DigestMismatch
        else Inr \<lparr>rv_metadata = md, rv_parameter = Some \<lparr>rp_value = wp_value p, rp_entry = md\<rparr>, rv_secret = None\<rparr>)"

text \<open>The checks between the metadata and the secret itself: the binding key to ask with.\<close>

definition secret_binding ::
  "(string, string) jsmap \<Rightarrow> real \<Rightarrow> release_entry \<Rightarrow> secret_metadata \<Rightarrow> release_category + string" where
  "secret_binding keys now e live =
     (if \<not> sameResourceRef (sm_ref live) (re_ref e) then Inl VersionMismatch
      else case filter (\<lambda>v. sv_version v = re_version e) (sm_versions live) of
        [exact] \<Rightarrow>
          if sv_state exact \<noteq> ''enabled'' \<or> sv_destroyedAtUnixMs exact \<noteq> 0 then Inl ResolutionFailed
          else if 0 < sv_expiresAtUnixMs exact \<and> sv_expiresAtUnixMs exact \<le> js_trunc now then Inl ResolutionFailed
          else let key = (if sv_bound exact then map_get_or [] keys (re_alias e) else [])
               in if sv_bound exact \<and> key = [] then Inl BindingKeyUnavailable else Inr key
      | _ \<Rightarrow> Inl ResolutionFailed)"

definition resolve_secret ::
  "(string, string) jsmap \<Rightarrow> real \<Rightarrow> bool \<Rightarrow> release_entry \<Rightarrow> entry_metadata \<Rightarrow> secret_metadata option \<Rightarrow>
     (string \<Rightarrow> fetched_secret option) \<Rightarrow> release_category + resolved_entry" where
  "resolve_secret keys now aborted e md metadata fetch =
     (case metadata of None \<Rightarrow> Inl (fetch_failure aborted)
      | Some live \<Rightarrow> (case secret_binding keys now e live of Inl c \<Rightarrow> Inl c
        | Inr key \<Rightarrow> (case fetch key of None \<Rightarrow> Inl (fetch_failure aborted)
          | Some s \<Rightarrow>
            if \<not> sameResourceRef (fs_ref s) (re_ref e) \<or> fs_version s \<noteq> re_version e then Inl VersionMismatch
            else if fs_contentType s \<noteq> re_contentType e then Inl VersionMismatch
            else Inr \<lparr>rv_metadata = md, rv_parameter = None, rv_secret = Some \<lparr>rs_value = fs_value s, rs_entry = md\<rparr>\<rparr>)))"

definition resolveEntry ::
  "release_env \<Rightarrow> normalized_options \<Rightarrow> real \<Rightarrow> bool \<Rightarrow> release_entry \<Rightarrow> entry_metadata \<Rightarrow> entry_replies \<Rightarrow>
     release_category + resolved_entry" where
  "resolveEntry env opts now aborted e md replies =
     (if (case re_ref e of None \<Rightarrow> None | Some ref \<Rightarrow> wr_namespace ref) = None then Inl ResolutionFailed
      else if re_kind e = ''parameter'' then resolve_parameter (env_sha256 env) aborted e md (er_parameter replies)
      else if re_kind e = ''secret'' then
        resolve_secret (no_bindingKeys opts) now aborted e md (er_metadata replies) (er_secret replies)
      else Inl ResolutionFailed)"

text \<open>The end of \<open>resolveCandidate\<close>: the snapshot of the resolved entries.\<close>

definition put_resolved :: "resolved_entry \<Rightarrow> (string, release_parameter) jsmap \<times> (string, release_secret) jsmap \<Rightarrow>
    (string, release_parameter) jsmap \<times> (string, release_secret) jsmap" where
  "put_resolved v acc =
     ((case rv_parameter v of None \<Rightarrow> fst acc | Some p \<Rightarrow> map_set (em_alias (rv_metadata v)) p (fst acc)),
      (case rv_secret v of None \<Rightarrow> snd acc | Some s \<Rightarrow> map_set (em_alias (rv_metadata v)) s (snd acc)))"

definition resolved_snapshot :: "release_identity \<Rightarrow> resolved_entry list \<Rightarrow> release_snapshot" where
  "resolved_snapshot ident vs = (case fold put_resolved vs ([], []) of (ps, ss) \<Rightarrow> newReleaseSnapshot ident ps ss)"

definition resolutionCategory :: "release_category \<Rightarrow> bool \<Rightarrow> release_category" where
  "resolutionCategory c aborted = (if aborted then Superseded else c)"

section \<open>Options\<close>

definition options_ok :: "normalized_options \<Rightarrow> bool" where
  "options_ok opts \<longleftrightarrow> js_trim (ns_env (no_namespace opts)) \<noteq> [] \<and> js_trim (ns_app (no_namespace opts)) \<noteq> [] \<and>
     no_name opts \<noteq> [] \<and> no_clientName opts \<noteq> [] \<and> in_uint64 (no_schemaVersion opts) \<and>
     0 < no_reconcileIntervalMs opts \<and> 0 < no_maxConcurrentFetches opts \<and>
     real (no_maxConcurrentFetches opts) \<le> MAX_CONCURRENT_FETCHES \<and> 0 < no_acknowledgementTimeoutMs opts"

lemma positive_or_Finite: "0 < d \<Longrightarrow> positive_or n d = Finite r \<Longrightarrow> 0 < r"
  by (auto simp: positive_or_def split: option.splits js_number.splits non_finite.splits if_splits)

lemma fetches_bounds:
  assumes "positive_or n DEFAULT_MAX_CONCURRENT_FETCHES = Finite r" "isInteger (Finite r)"
  shows "0 < nat \<lfloor>r\<rfloor> \<and> real (nat \<lfloor>r\<rfloor>) = r"
proof -
  have "0 < r" by (rule positive_or_Finite [OF _ assms(1)]) (simp add: DEFAULT_MAX_CONCURRENT_FETCHES_def)
  then show ?thesis using assms(2) by (auto simp: isInteger_def)
qed

lemma finite_or_Inr [simp]: "finite_or e v = Inr r \<longleftrightarrow> v = Finite r"
  by (auto simp: finite_or_def split: js_number.split)

lemma loader_positiveFinite_Inr [simp]: "loader_positiveFinite v = Inr r \<longleftrightarrow> v = Finite r \<and> 0 < r"
  by (auto simp: loader_positiveFinite_def split: js_number.split)

lemma loader_assertUint64_Inr [simp]: "loader_assertUint64 v = Inr i \<longleftrightarrow> v = Some i \<and> in_uint64 i"
  by (auto simp: loader_assertUint64_def in_uint64_def UINT64_MAX_def split: option.split)

text \<open>Options that pass normalization are well-formed: the names are not blank, the schema version is
  a uint64, the timers are positive, and between 1 and 256 fetches run at a time.\<close>

theorem normalizeOptions_well_formed:
  assumes "normalizeOptions options uuid = Inr opts"
  shows "options_ok opts"
  using assms fetches_bounds unfolding normalizeOptions_def sum_bind_Inr
  by (auto simp: options_ok_def LOADER_RECONCILE_INTERVAL_MS_def)

definition demo_options :: loader_options where
  "demo_options = \<lparr>lo_namespace = Some \<lparr>ns_env = ''e'', ns_app = ''a''\<rparr>, lo_name = ''r'', lo_clientName = ''c'',
     lo_schemaVersion = Some 0, lo_instanceId = None, lo_reconcileIntervalMs = Some (Finite (-1)),
     lo_maxConcurrentFetches = Some (NonFinite NaN), lo_bindingKeys = NoBindings, lo_validateManifest = False,
     lo_acknowledgementTimeoutMs = None\<rparr>"

definition demo_opts :: normalized_options where
  "demo_opts = \<lparr>no_namespace = \<lparr>ns_env = ''e'', ns_app = ''a''\<rparr>, no_name = ''r'', no_clientName = ''c'',
     no_schemaVersion = 0, no_instanceId = ''u'', no_reconcileIntervalMs = 60000, no_maxConcurrentFetches = 16,
     no_bindingKeys = [], no_validateManifest = False, no_acknowledgementTimeoutMs = 5000\<rparr>"

lemma trim_demo: "js_trim ''e'' = ''e''" "js_trim ''a'' = ''a''" "js_trim ''r'' = ''r''" "js_trim ''c'' = ''c''"
  by code_simp+

lemma demo_opts_normalized: "normalizeOptions demo_options ''u'' = Inr demo_opts"
  unfolding normalizeOptions_def sum_bind_Inr
  by (simp add: demo_options_def demo_opts_def trim_demo in_uint64_def UINT64_MAX_def positive_or_def
      isInteger_def DEFAULT_MAX_CONCURRENT_FETCHES_def MAX_CONCURRENT_FETCHES_def LOADER_RECONCILE_INTERVAL_MS_def)

theorem normalizeOptions_well_formed_witness: "options_ok demo_opts"
  by (rule normalizeOptions_well_formed [OF demo_opts_normalized])

lemma releaseReconnectBackoff_bounds:
  assumes "0 \<le> random" "random < 1"
  shows "10 \<le> releaseReconnectBackoff attempt random \<and> releaseReconnectBackoff attempt random \<le> 30000 \<and>
    releaseReconnectBackoff attempt random \<le> max 10 (250 * 2 ^ attempt)"
proof -
  let ?c = "min BACKOFF_CAP_MS (BACKOFF_BASE_MS * 2 ^ min attempt 30)"
  have c: "0 \<le> ?c" "?c \<le> 30000" by (simp_all add: BACKOFF_CAP_MS_def BACKOFF_BASE_MS_def)
  have "(2::real) ^ min attempt 30 \<le> 2 ^ attempt" by (rule power_increasing) simp_all
  then have c3: "?c \<le> 250 * 2 ^ attempt" by (simp add: BACKOFF_BASE_MS_def min.coboundedI2)
  have "real_of_int \<lfloor>random * ?c\<rfloor> \<le> random * ?c" by simp
  also have "\<dots> \<le> ?c" by (rule mult_left_le_one_le) (use assms c(1) in simp_all)
  finally obtain x where "releaseReconnectBackoff attempt random = max 10 x" "x \<le> ?c"
    by (simp add: releaseReconnectBackoff_def Let_def BACKOFF_MIN_MS_def)
  with order_trans [OF this(2) c(2)] order_trans [OF this(2) c3] show ?thesis by auto
qed

section \<open>Manifests\<close>

lemma metadataForEntry_Inr:
  "metadataForEntry e = Inr md \<Longrightarrow> em_alias md = re_alias e \<and> re_alias e \<noteq> [] \<and> em_version md = re_version e \<and>
     entry_kind_name (em_kind md) = re_kind e \<and> em_contentType md = re_contentType e \<and>
     em_parameterDigest md = re_parameterDigest e"
  by (auto simp: metadataForEntry_def newReleaseEntryMetadata_def split: if_splits option.splits)

lemma manifest_entries_Inr:
  "manifest_entries ns m es = Inr m' \<Longrightarrow> map_ok m \<Longrightarrow> map_ok m' \<and>
     map_keys m' = map_keys m @ map re_alias es \<and>
     (\<forall>e \<in> set es. \<exists>md. metadataForEntry e = Inr md \<and> map_get m' (re_alias e) = Some md) \<and>
     (\<forall>a. a \<in> set (map_keys m) \<longrightarrow> map_get m' a = map_get m a)"
proof (induction es arbitrary: m)
  case (Cons e es)
  then obtain md where md: "metadataForEntry e = Inr md" "\<not> map_has m (em_alias md)"
    and rest: "manifest_entries ns (map_set (em_alias md) md m) es = Inr m'"
    by (auto split: if_splits sum.splits)
  have fresh: "map_keys (map_set (em_alias md) md m) = map_keys m @ [em_alias md]"
    using md(2) by (induction m) (auto simp: map_has_def)
  have al: "em_alias md = re_alias e" using metadataForEntry_Inr [OF md(1)] by simp
  from Cons.IH [OF rest] Cons.prems(2) have ih: "map_ok m'" "map_keys m' = map_keys m @ em_alias md # map re_alias es"
    "\<forall>e \<in> set es. \<exists>md. metadataForEntry e = Inr md \<and> map_get m' (re_alias e) = Some md"
    "\<forall>a \<in> set (map_keys m @ [em_alias md]). map_get m' a = map_get (map_set (em_alias md) md m) a"
    unfolding fresh by auto
  moreover have "map_get m' (re_alias e) = Some md" using ih(4) al by simp
  moreover have "map_get m' a = map_get m a" if "a \<in> set (map_keys m)" for a
  proof -
    have "a \<noteq> em_alias md" using that md(2) unfolding map_has_def by metis
    then show ?thesis using bspec [OF ih(4), of a] that by simp
  qed
  ultimately show ?case using md(1) al by auto
qed simp

text \<open>What a manifest guarantees of its candidate.\<close>

definition manifest_ok :: "release_env \<Rightarrow> normalized_options \<Rightarrow> candidate \<Rightarrow> release_identity \<Rightarrow> bool" where
  "manifest_ok env opts c ident \<longleftrightarrow> releaseMatchesTrack (cd_release c) opts \<and>
     releaseDigestMatches (env_sha256 env) (env_encode env) (cd_release c) = Inr True \<and>
     ri_version ident = cr_version (cd_release c) \<and> ri_targetRevision ident = cd_revision c \<and>
     map_keys (ri_entries ident) = map re_alias (cr_entries (cd_release c)) \<and>
     distinct (map re_alias (cr_entries (cd_release c))) \<and>
     (\<forall>e \<in> set (cr_entries (cd_release c)). \<exists>md. metadataForEntry e = Inr md \<and> map_get (ri_entries ident) (re_alias e) = Some md)"

lemma candidate_manifest_ok:
  assumes "candidate_manifest env opts c = Inr ident"
  shows "manifest_ok env opts c ident"
proof -
  from assms obtain ns entries where e: "manifest_entries ns [] (cr_entries (cd_release c)) = Inr entries"
    and i: "ri_entries ident = entries" "ri_version ident = cr_version (cd_release c)" "ri_targetRevision ident = cd_revision c"
    and ok: "releaseMatchesTrack (cd_release c) opts"
      "releaseDigestMatches (env_sha256 env) (env_encode env) (cd_release c) = Inr True"
    by (auto simp: candidate_manifest_def newReleaseIdentity_def Let_def split: option.splits if_splits sum.splits)
  from manifest_entries_Inr [OF e] i ok show ?thesis by (auto simp: manifest_ok_def map_ok_def)
qed

section \<open>Resolved entries\<close>

text \<open>
  What is known of a resolved entry: it carries the metadata of its pin, its value is of the pinned
  kind, and a parameter hashes to the pinned digest. A secret has no hash in the release; the
  transport vouched for it.
\<close>

definition secret_vouched :: "real \<Rightarrow> release_entry \<Rightarrow> entry_replies \<Rightarrow> string \<Rightarrow> bool" where
  "secret_vouched now e replies v \<longleftrightarrow> (\<exists>live exact key s. er_metadata replies = Some live \<and>
     filter (\<lambda>v. sv_version v = re_version e) (sm_versions live) = [exact] \<and> sv_state exact = ''enabled'' \<and>
     sv_destroyedAtUnixMs exact = 0 \<and> (sv_expiresAtUnixMs exact \<le> 0 \<or> js_trunc now < sv_expiresAtUnixMs exact) \<and>
     (sv_bound exact \<longleftrightarrow> key \<noteq> []) \<and> er_secret replies key = Some s \<and> fs_value s = v \<and>
     sameResourceRef (fs_ref s) (re_ref e) \<and> fs_version s = re_version e \<and> fs_contentType s = re_contentType e)"

definition parameter_pinned :: "release_env \<Rightarrow> release_entry \<Rightarrow> string \<Rightarrow> bool" where
  "parameter_pinned env e v \<longleftrightarrow> hex64 (re_parameterDigest e) \<and>
     map ascii_lower (env_sha256 env v) = map ascii_lower (re_parameterDigest e)"

definition entry_verified :: "release_env \<Rightarrow> release_entry \<Rightarrow> resolved_entry \<Rightarrow> bool" where
  "entry_verified env e v \<longleftrightarrow> metadataForEntry e = Inr (rv_metadata v) \<and>
     (if re_kind e = ''parameter'' then
        rv_secret v = None \<and> (\<exists>p. rv_parameter v = Some p \<and> rp_entry p = rv_metadata v \<and> parameter_pinned env e (rp_value p))
      else rv_parameter v = None \<and> (\<exists>s. rv_secret v = Some s \<and> rs_entry s = rv_metadata v))"

lemma resolveEntry_verified:
  "resolveEntry env opts now aborted e md replies = Inr v \<Longrightarrow> metadataForEntry e = Inr md \<Longrightarrow> entry_verified env e v"
  by (auto simp: resolveEntry_def resolve_parameter_def resolve_secret_def entry_verified_def parameter_pinned_def
      split: if_splits option.splits sum.splits)

lemma secret_binding_Inr:
  assumes "secret_binding keys now e live = Inr key"
  obtains exact where "filter (\<lambda>v. sv_version v = re_version e) (sm_versions live) = [exact]"
    "sv_state exact = ''enabled''" "sv_destroyedAtUnixMs exact = 0"
    "sv_expiresAtUnixMs exact \<le> 0 \<or> js_trunc now < sv_expiresAtUnixMs exact" "sv_bound exact \<longleftrightarrow> key \<noteq> []"
  using assms unfolding secret_binding_def
  by (auto simp: Let_def not_less not_le split: if_splits list.splits)

lemma resolveEntry_vouched:
  assumes "resolveEntry env opts now aborted e md replies = Inr v" "rv_secret v = Some s"
  shows "secret_vouched now e replies (rs_value s)"
proof -
  from assms obtain live key x where r: "er_metadata replies = Some live"
    "secret_binding (no_bindingKeys opts) now e live = Inr key" "er_secret replies key = Some x"
    "fs_value x = rs_value s" "sameResourceRef (fs_ref x) (re_ref e)" "fs_version x = re_version e" "fs_contentType x = re_contentType e"
    by (auto simp: resolveEntry_def resolve_parameter_def resolve_secret_def split: if_splits option.splits sum.splits)
  from r(2) show ?thesis
    by (rule secret_binding_Inr) (use r in \<open>auto simp: secret_vouched_def\<close>)
qed

lemma entry_verified_alias: "entry_verified env e v \<Longrightarrow> em_alias (rv_metadata v) = re_alias e"
  by (auto simp: entry_verified_def dest: metadataForEntry_Inr)

text \<open>A snapshot serves each pinned entry under its alias, by its kind, and nothing else.\<close>

definition snapshot_exact :: "release_env \<Rightarrow> candidate \<Rightarrow> release_snapshot \<Rightarrow> bool" where
  "snapshot_exact env c s \<longleftrightarrow>
     (\<forall>a. snapshot_parameter_of a s \<noteq> None \<longleftrightarrow> (\<exists>e \<in> set (cr_entries (cd_release c)). re_alias e = a \<and> re_kind e = ''parameter'')) \<and>
     (\<forall>a. snapshot_secret_of a s \<noteq> None \<longleftrightarrow> (\<exists>e \<in> set (cr_entries (cd_release c)). re_alias e = a \<and> re_kind e = ''secret'')) \<and>
     (\<forall>e \<in> set (cr_entries (cd_release c)). \<forall>p. snapshot_parameter_of (re_alias e) s = Some p \<longrightarrow>
        parameter_pinned env e (rp_value p) \<and> metadataForEntry e = Inr (rp_entry p)) \<and>
     (\<forall>e \<in> set (cr_entries (cd_release c)). \<forall>x. snapshot_secret_of (re_alias e) s = Some x \<longrightarrow>
        metadataForEntry e = Inr (rs_entry x))"

lemma fold_put_resolved:
  assumes "list_all2 (entry_verified env) es vs" "distinct (map re_alias es)"
    and "\<forall>e \<in> set es. map_get (fst acc) (re_alias e) = None \<and> map_get (snd acc) (re_alias e) = None"
  shows "(\<forall>(e, v) \<in> set (zip es vs). map_get (fst (fold put_resolved vs acc)) (re_alias e) = rv_parameter v \<and>
        map_get (snd (fold put_resolved vs acc)) (re_alias e) = rv_secret v) \<and>
     (\<forall>a. a \<notin> re_alias ` set es \<longrightarrow> map_get (fst (fold put_resolved vs acc)) a = map_get (fst acc) a \<and>
        map_get (snd (fold put_resolved vs acc)) a = map_get (snd acc) a)"
  using assms
proof (induction es vs arbitrary: acc rule: list_all2_induct)
  case (Cons e es v vs)
  have al: "em_alias (rv_metadata v) = re_alias e" using Cons.hyps(1) by (rule entry_verified_alias)
  have put: "map_get (fst (put_resolved v acc)) a = (if a = re_alias e \<and> rv_parameter v \<noteq> None then rv_parameter v else map_get (fst acc) a)"
    "map_get (snd (put_resolved v acc)) a = (if a = re_alias e \<and> rv_secret v \<noteq> None then rv_secret v else map_get (snd acc) a)" for a
    using al by (auto simp: put_resolved_def split: option.split)
  have ne: "re_alias e' \<noteq> re_alias e" if "e' \<in> set es" for e' using Cons.prems(1) imageI [OF that, of re_alias] by auto
  have "distinct (map re_alias es)" "\<forall>e' \<in> set es. map_get (fst (put_resolved v acc)) (re_alias e') = None \<and>
      map_get (snd (put_resolved v acc)) (re_alias e') = None"
    using Cons.prems ne unfolding put by simp_all
  from Cons.IH [OF this] have ih: "\<forall>(e, x) \<in> set (zip es vs). map_get (fst (fold put_resolved vs (put_resolved v acc))) (re_alias e) = rv_parameter x \<and>
      map_get (snd (fold put_resolved vs (put_resolved v acc))) (re_alias e) = rv_secret x"
    "\<And>a. a \<notin> re_alias ` set es \<Longrightarrow> map_get (fst (fold put_resolved vs (put_resolved v acc))) a = map_get (fst (put_resolved v acc)) a \<and>
      map_get (snd (fold put_resolved vs (put_resolved v acc))) a = map_get (snd (put_resolved v acc)) a"
    by blast+
  have "re_alias e \<notin> re_alias ` set es" using Cons.prems(1) by simp
  with ih(2) Cons.prems(2) have "map_get (fst (fold put_resolved vs (put_resolved v acc))) (re_alias e) = rv_parameter v"
    "map_get (snd (fold put_resolved vs (put_resolved v acc))) (re_alias e) = rv_secret v"
    by (simp_all add: put)
  with ih show ?case by (simp add: put)
qed simp

lemma kind_cases: "metadataForEntry e = Inr md \<Longrightarrow> re_kind e = ''parameter'' \<or> re_kind e = ''secret''"
  by (auto simp: metadataForEntry_def split: if_splits option.splits)

lemma resolved_snapshot_exact:
  assumes "list_all2 (entry_verified env) (cr_entries (cd_release c)) vs" "distinct (map re_alias (cr_entries (cd_release c)))"
  shows "snapshot_exact env c (resolved_snapshot ident vs)"
proof -
  let ?es = "cr_entries (cd_release c)" and ?s = "resolved_snapshot ident vs"
  note get = fold_put_resolved [OF assms, of "([], [])", simplified]
  have read: "snapshot_parameter_of a ?s = map_get (fst (fold put_resolved vs ([], []))) a"
    "snapshot_secret_of a ?s = map_option secret_clone (map_option secret_clone (map_get (snd (fold put_resolved vs ([], []))) a))" for a
  proof -
    have "map_get (map (\<lambda>e. (fst e, secret_clone (snd e))) m) a = map_option secret_clone (map_get m a)" for m
      by (induction m) (auto simp: map_get_def)
    then show "snapshot_parameter_of a ?s = map_get (fst (fold put_resolved vs ([], []))) a"
      "snapshot_secret_of a ?s = map_option secret_clone (map_option secret_clone (map_get (snd (fold put_resolved vs ([], []))) a))"
      by (simp_all add: snapshot_parameter_of_def snapshot_secret_of_def resolved_snapshot_def newReleaseSnapshot_def split_beta)
  qed
  have at: "\<exists>v. entry_verified env e v \<and> snapshot_parameter_of (re_alias e) ?s = rv_parameter v \<and>
      snapshot_secret_of (re_alias e) ?s = rv_secret v" if "e \<in> set ?es" for e
  proof -
    from that assms(1) obtain v where v: "(e, v) \<in> set (zip ?es vs)" "entry_verified env e v"
      by (metis in_set_conv_nth list_all2_conv_all_nth in_set_zip fst_conv snd_conv)
    have "map_option secret_clone x = x" for x by (cases x) (auto simp: secret_clone_def)
    with v get show ?thesis unfolding read by (intro exI [of _ v]) auto
  qed
  have none: "snapshot_parameter_of a ?s = None \<and> snapshot_secret_of a ?s = None" if "a \<notin> re_alias ` set ?es" for a
    using get that unfolding read by auto
  have v: "(snapshot_parameter_of (re_alias e) ?s \<noteq> None \<longleftrightarrow> re_kind e = ''parameter'') \<and>
      (snapshot_secret_of (re_alias e) ?s \<noteq> None \<longleftrightarrow> re_kind e = ''secret'') \<and>
      (\<forall>p. snapshot_parameter_of (re_alias e) ?s = Some p \<longrightarrow> parameter_pinned env e (rp_value p) \<and> metadataForEntry e = Inr (rp_entry p)) \<and>
      (\<forall>x. snapshot_secret_of (re_alias e) ?s = Some x \<longrightarrow> metadataForEntry e = Inr (rs_entry x))" if "e \<in> set ?es" for e
    using at [OF that] kind_cases [of e] by (auto simp: entry_verified_def split: if_splits)
  have doms: "snapshot_parameter_of a ?s \<noteq> None \<longleftrightarrow> (\<exists>e \<in> set ?es. re_alias e = a \<and> re_kind e = ''parameter'')"
    "snapshot_secret_of a ?s \<noteq> None \<longleftrightarrow> (\<exists>e \<in> set ?es. re_alias e = a \<and> re_kind e = ''secret'')" for a
  proof -
    have uniq: "e = e'" if "e \<in> set ?es" "e' \<in> set ?es" "re_alias e = re_alias e'" for e e'
      using that assms(2) by (auto simp: distinct_map inj_on_def)
    have "(snapshot_parameter_of a ?s \<noteq> None \<longleftrightarrow> (\<exists>e \<in> set ?es. re_alias e = a \<and> re_kind e = ''parameter'')) \<and>
      (snapshot_secret_of a ?s \<noteq> None \<longleftrightarrow> (\<exists>e \<in> set ?es. re_alias e = a \<and> re_kind e = ''secret''))"
    proof (cases "a \<in> re_alias ` set ?es")
      case True
      then obtain e where e: "e \<in> set ?es" "a = re_alias e" by auto
      have "e' = e" if "e' \<in> set ?es" "re_alias e' = a" for e' using uniq that e by blast
      with v [OF e(1)] e show ?thesis by metis
    qed (use none [of a] in auto)
    then show "snapshot_parameter_of a ?s \<noteq> None \<longleftrightarrow> (\<exists>e \<in> set ?es. re_alias e = a \<and> re_kind e = ''parameter'')"
      "snapshot_secret_of a ?s \<noteq> None \<longleftrightarrow> (\<exists>e \<in> set ?es. re_alias e = a \<and> re_kind e = ''secret'')"
      by (fact conjunct1, fact conjunct2)
  qed
  show ?thesis unfolding snapshot_exact_def using doms v by blast
qed

end
