(* ===== verification/Loader_Acks.thy ===== *)
theory Loader_Acks
  imports Loader_Resolve
begin

text \<open>
  The acknowledgements of the release loader (\<^verbatim>\<open>sdk/typescript/src/releases/loader.ts\<close>,
  \<open>#ack\<close> to \<open>#waitForAcknowledgement\<close>). For each lifecycle state the loader retains the latest
  acknowledgement; a flush sends the retained ones in the order they were made, one \<open>send\<close> after the
  other. Flushes of the current stream are chained: a job starts when its predecessor has settled. A
  new stream first replays everything. A task may wait until its acknowledgement has been sent.

  A stream is a number. \<open>ak_settled\<close> holds the waits whose promise is settled, \<open>ak_jobDone\<close> the chained
  jobs that are, and \<open>ak_sent\<close> what the streams accepted, oldest first. The theory holds
  the definitions; what the coordination of candidates needs of them, that a wait is rejected
  only by an abort of the run, is proved with the loader, and that what is sent is true in \<open>Loader_Told\<close>.
\<close>

section \<open>Data\<close>

record release_ack =
  ra_namespace :: namespace_ref
  ra_name :: string
  ra_version :: int
  ra_activationRevision :: int
  ra_clientName :: string
  ra_instanceId :: string
  ra_sessionId :: string
  ra_targetRevision :: int
  ra_state :: release_state
  ra_rejectionCategory :: string
  ra_diagnostic :: string
  ra_timestampUnixMs :: int
  ra_appliedDivergent :: bool
  ra_divergentFieldCount :: int
  ra_schemaVersion :: int
  ra_sequence :: int

record pending_ack =
  pa_ack :: release_ack
  pa_generation :: int
  pa_dirty :: bool
  pa_flushedOn :: "nat option"

datatype wait_result = WaitStream "nat option" | WaitAborted

record ack_job =
  aj_id :: nat
  aj_stream :: nat
  aj_items :: "(release_state \<times> pending_ack) list option"

record ack_state =
  ak_pending :: "(release_state, pending_ack) jsmap"
  ak_waiters :: "(int, nat) jsmap"
  ak_settled :: "(nat, wait_result) jsmap"
  ak_currentStream :: "nat option"
  ak_generation :: int
  ak_chain :: "ack_job list"
  ak_nextJob :: nat
  ak_jobDone :: "(nat, bool) jsmap"
  ak_sent :: "(nat \<times> release_ack) list"

definition no_acks :: ack_state where
  "no_acks = \<lparr>ak_pending = [], ak_waiters = [], ak_settled = [], ak_currentStream = None, ak_generation = 0,
     ak_chain = [], ak_nextJob = 0, ak_jobDone = [], ak_sent = []\<rparr>"

section \<open>Making acknowledgements\<close>

text \<open>The identity of a run on the wire: the session is empty until it is registered.\<close>

record session_view =
  se_sessionId :: string
  se_registered :: bool

definition wire_session :: "session_view \<Rightarrow> string" where
  "wire_session se = (if se_registered se then se_sessionId se else [])"

definition scheduleAckFlush :: "ack_state \<Rightarrow> ack_state" where
  "scheduleAckFlush ak =
     (case ak_currentStream ak of None \<Rightarrow> ak
      | Some stream \<Rightarrow> ak\<lparr>ak_chain := ak_chain ak @ [\<lparr>aj_id = ak_nextJob ak, aj_stream = stream, aj_items = None\<rparr>],
          ak_nextJob := ak_nextJob ak + 1\<rparr>)"

definition make_ack ::
  "normalized_options \<Rightarrow> session_view \<Rightarrow> real \<Rightarrow> candidate \<Rightarrow> release_state \<Rightarrow> release_category option \<Rightarrow>
     ack_divergence \<Rightarrow> int \<Rightarrow> release_ack" where
  "make_ack opts se now c state category divergence sequence =
     (let applied = state = Applied \<and> ad_divergent divergence
      in \<lparr>ra_namespace = no_namespace opts, ra_name = no_name opts, ra_version = cr_version (cd_release c),
          ra_activationRevision = cd_fleetRevision c, ra_clientName = no_clientName opts,
          ra_instanceId = no_instanceId opts, ra_sessionId = wire_session se,
          ra_targetRevision = (if se_registered se then cd_revision c else 0), ra_state = state,
          ra_rejectionCategory = (case category of None \<Rightarrow> [] | Some k \<Rightarrow> release_category_name k),
          ra_diagnostic = [], ra_timestampUnixMs = js_trunc now, ra_appliedDivergent = applied,
          ra_divergentFieldCount = (if applied then ad_fieldCount divergence else 0),
          ra_schemaVersion = no_schemaVersion opts, ra_sequence = sequence\<rparr>)"

definition ack ::
  "normalized_options \<Rightarrow> session_view \<Rightarrow> real \<Rightarrow> candidate \<Rightarrow> release_state \<Rightarrow> release_category option \<Rightarrow>
     ack_divergence \<Rightarrow> ack_state \<Rightarrow> int \<times> ack_state" where
  "ack opts se now c state category divergence ak =
     (let sequence = ak_generation ak + 1;
          item = \<lparr>pa_ack = make_ack opts se now c state category divergence sequence, pa_generation = sequence,
                  pa_dirty = True, pa_flushedOn = None\<rparr>;
          replace = (case map_get (ak_pending ak) state of None \<Rightarrow> True
                     | Some current \<Rightarrow> ra_targetRevision (pa_ack current) \<le> cd_revision c)
      in (sequence, scheduleAckFlush (ak\<lparr>ak_generation := sequence,
            ak_pending := (if replace then map_set state item (ak_pending ak) else ak_pending ak)\<rparr>)))"

section \<open>Flushing\<close>

text \<open>What one \<open>flushAcknowledgements\<close> will send: a sorted copy taken when it starts.\<close>

definition flush_items :: "bool \<Rightarrow> ack_state \<Rightarrow> (release_state \<times> pending_ack) list" where
  "flush_items replay ak =
     sort_key (\<lambda>e. pa_generation (snd e)) (filter (\<lambda>e. replay \<or> pa_dirty (snd e)) (ak_pending ak))"

text \<open>\<open>finish\<close> of a wait; only the first call has an effect.\<close>

definition finish_wait :: "int \<Rightarrow> wait_result \<Rightarrow> ack_state \<Rightarrow> ack_state" where
  "finish_wait gen result ak =
     (case map_get (ak_waiters ak) gen of None \<Rightarrow> ak
      | Some t \<Rightarrow> ak\<lparr>ak_waiters := map_del gen (ak_waiters ak), ak_settled := map_set t result (ak_settled ak)\<rparr>)"

text \<open>The continuation of one \<open>send\<close> that the stream accepted.\<close>

definition flush_sent :: "nat \<Rightarrow> release_state \<times> pending_ack \<Rightarrow> ack_state \<Rightarrow> ack_state" where
  "flush_sent stream item ak =
     (let ak1 = ak\<lparr>ak_sent := ak_sent ak @ [(stream, pa_ack (snd item))]\<rparr>
      in case map_get (ak_pending ak) (fst item) of None \<Rightarrow> ak1
         | Some current \<Rightarrow>
           if pa_generation current \<noteq> pa_generation (snd item) then ak1
           else finish_wait (pa_generation (snd item)) (WaitStream (Some stream))
                  (ak1\<lparr>ak_pending := map_set (fst item) (current\<lparr>pa_dirty := False, pa_flushedOn := Some stream\<rparr>) (ak_pending ak)\<rparr>))"

text \<open>The head of the chain: it starts, a \<open>send\<close> of it settles, or it is through.\<close>

definition chain_start :: "ack_state \<Rightarrow> ack_state" where
  "chain_start ak =
     (case ak_chain ak of [] \<Rightarrow> ak
      | job # rest \<Rightarrow> (case aj_items job of Some _ \<Rightarrow> ak
         | None \<Rightarrow> ak\<lparr>ak_chain := job\<lparr>aj_items := Some (flush_items False ak)\<rparr> # rest\<rparr>))"

definition chain_send :: "bool \<Rightarrow> ack_state \<Rightarrow> ack_state" where
  "chain_send accepted ak =
     (case ak_chain ak of [] \<Rightarrow> ak
      | job # rest \<Rightarrow> (case aj_items job of
          Some (item # items) \<Rightarrow>
            if accepted then flush_sent (aj_stream job) item (ak\<lparr>ak_chain := job\<lparr>aj_items := Some items\<rparr> # rest\<rparr>)
            else ak\<lparr>ak_chain := rest, ak_jobDone := map_set (aj_id job) False (ak_jobDone ak)\<rparr>
        | _ \<Rightarrow> ak))"

definition chain_finish :: "ack_state \<Rightarrow> ack_state" where
  "chain_finish ak =
     (case ak_chain ak of [] \<Rightarrow> ak
      | job # rest \<Rightarrow> (case aj_items job of
          Some [] \<Rightarrow> ak\<lparr>ak_chain := rest, ak_jobDone := map_set (aj_id job) True (ak_jobDone ak)\<rparr>
        | _ \<Rightarrow> ak))"

section \<open>Waiting for an acknowledgement\<close>

definition flushed_item :: "int \<Rightarrow> ack_state \<Rightarrow> (release_state \<times> pending_ack) option" where
  "flushed_item gen ak = find (\<lambda>e. pa_generation (snd e) = gen \<and> \<not> pa_dirty (snd e)) (ak_pending ak)"

definition waitForAcknowledgement :: "nat \<Rightarrow> int \<Rightarrow> bool \<Rightarrow> ack_state \<Rightarrow> ack_state" where
  "waitForAcknowledgement t gen aborted ak =
     (case flushed_item gen ak of
        Some e \<Rightarrow> ak\<lparr>ak_settled := map_set t (WaitStream (pa_flushedOn (snd e))) (ak_settled ak)\<rparr>
      | None \<Rightarrow> (let ak1 = ak\<lparr>ak_waiters := map_set gen t (ak_waiters ak)\<rparr>
                 in if aborted then finish_wait gen WaitAborted ak1 else ak1))"

definition wait_timeout :: "int \<Rightarrow> ack_state \<Rightarrow> ack_state" where
  "wait_timeout gen ak = finish_wait gen (WaitStream None) ak"

definition abort_waits :: "ack_state \<Rightarrow> ack_state" where
  "abort_waits ak = fold (\<lambda>gen. finish_wait gen WaitAborted) (map_keys (ak_waiters ak)) ak"

section \<open>Rejections\<close>

definition isReleaseState :: "string \<Rightarrow> release_state option" where
  "isReleaseState s = find (\<lambda>st. release_state_name st = s) RELEASE_STATES"

record ack_rejection =
  ar_namespace :: "namespace_ref option"
  ar_name :: string
  ar_schemaVersion :: int
  ar_version :: int
  ar_activationRevision :: int
  ar_targetRevision :: "int option"
  ar_sessionId :: "string option"
  ar_clientName :: string
  ar_instanceId :: string
  ar_state :: string
  ar_sequence :: int
  ar_reason :: string

definition handleAcknowledgementRejected :: "normalized_options \<Rightarrow> session_view \<Rightarrow> ack_rejection \<Rightarrow> ack_state \<Rightarrow> ack_state" where
  "handleAcknowledgementRejected opts se event ak =
     (case isReleaseState (ar_state event) of None \<Rightarrow> ak
      | Some state \<Rightarrow>
        if case_option [] id (ar_sessionId event) \<noteq> wire_session se \<or>
           (ar_reason event \<noteq> ''activation_unavailable'' \<and> ar_reason event \<noteq> ''target_unavailable'') \<or>
           ar_sequence event = 0 \<or> \<not> sameNamespace (ar_namespace event) (no_namespace opts) \<or>
           ar_name event \<noteq> no_name opts \<or> ar_schemaVersion event \<noteq> no_schemaVersion opts \<or>
           ar_clientName event \<noteq> no_clientName opts \<or> ar_instanceId event \<noteq> no_instanceId opts then ak
        else (case map_get (ak_pending ak) state of None \<Rightarrow> ak
          | Some retained \<Rightarrow>
            if pa_generation retained \<noteq> ar_sequence event \<or> ra_sequence (pa_ack retained) \<noteq> ar_sequence event \<or>
               ra_version (pa_ack retained) \<noteq> ar_version event \<or>
               Some (ra_targetRevision (pa_ack retained)) \<noteq> ar_targetRevision event \<or>
               ra_activationRevision (pa_ack retained) \<noteq> ar_activationRevision event \<or>
               ra_state (pa_ack retained) \<noteq> state then ak
            else ak\<lparr>ak_pending := map_del state (ak_pending ak)\<rparr>))"

end
