(* ===== verification/Loader.thy ===== *)
theory Loader
  imports Loader_Acks
begin

text \<open>
  The release loader (class \<open>ReleaseLoader\<close> of \<^verbatim>\<open>sdk/typescript/src/releases/loader.ts\<close>).
  \<open>run\<close> registers a session, reads the active target, and then runs three activities side by side:
  the candidate tasks (resolve, prepare, check, commit), the watch loop and the reconcile loop. Each
  asynchronous function is cut at its \<open>await\<close>s; every action below is one synchronous segment, so a
  run of the model is any interleaving of segments with any replies of the transport and the
  application. Local variables that live across an \<open>await\<close> are kept in the program counters.

  Calls that leave the loader are recorded in \<open>ld_log\<close>, oldest first. Clock readings are arguments
  of the actions. Timers fire by actions of their own, at any time.
\<close>

section \<open>Data\<close>

datatype callback_result = ReturnsUndefined | ReturnsValue | CallbackThrows

record prepared_release =
  pr_commit :: callback_result
  pr_abort :: callback_result
  pr_divergence :: divergence_report

text \<open>The outcome of the application's \<open>prepare\<close>: it throws, returns something without the two
  methods, or a prepared release.\<close>

datatype prepare_reply = PrepareThrows thrown | PrepareInvalid | PrepareReturns prepared_release

record instance_target =
  it_release :: "configuration_release option"
  it_targetRevision :: int
  it_activationRevision :: int

record active_release =
  ac_release :: "configuration_release option"
  ac_activationRevision :: int
  ac_previousVersion :: int
  ac_fleetRevision :: int

record candidate_result =
  rt_applied :: bool
  rt_category :: "release_category option"
  rt_acknowledgementGeneration :: "int option"
  rt_fatal :: bool

datatype task_pc =
    TValidating release_identity
  | TFetching release_identity "(release_entry, resolved_entry, release_category) pool"
  | TResolved "release_category + release_snapshot"
  | TPreparing
  | TChecking prepared_release
  | TSettled candidate_result
  | TStartupRead candidate_result
  | TAckWait release_category
  | TClosing release_category
  | TWatchWait release_category
  | TDone

record loader_task =
  tk_candidate :: candidate
  tk_aborted :: bool
  tk_started :: real
  tk_pc :: task_pc

record mutable_status =
  ms_state :: "release_state option"
  ms_observedVersion :: int
  ms_observedRevision :: int
  ms_observedActivationRevision :: int
  ms_appliedVersion :: int
  ms_appliedRevision :: int
  ms_appliedActivationRevision :: int
  ms_lastFailureCategory :: "release_category option"
  ms_lastFailureAt :: "real option"
  ms_lastResolutionDurationMs :: real
  ms_reconnects :: int

record mutable_stats =
  mt_candidates :: int
  mt_applied :: int
  mt_rejected :: "(release_category, int) jsmap"
  mt_reconnects :: int

text \<open>How \<open>run\<close> ends: always by a rejection.\<close>

datatype loader_failure =
    CallbackContract | StartupRejected release_category | WatchTerminal string | RunAborted
  | SessionsRequired | SessionRegistrationFailed | InitialReadFailed

datatype lrun_pc = RIdle | RRegistering | RReading | RRacing | RDraining | RFlushing nat | RClosing | RBackground

datatype lwatch_pc =
    WOff
  | WOpening nat
  | WReplaying nat nat "(release_state \<times> pending_ack) list"
  | WFlushing nat nat nat
  | WStreaming nat nat bool
  | WClosing nat "nat option" bool "string option"
  | WBackoff nat
  | WDone

datatype lrecon_pc = LOff | LSleeping | LReading | LDone

datatype loader_event =
    RegisterSession string bool
  | OpenStream string int
  | PrepareCall nat release_snapshot
  | PrepareReturned nat
  | CommitCall nat candidate callback_result
  | AbortCall nat
  | CloseSend nat
  | CancelStream nat

record loader =
  ld_acks :: ack_state
  ld_session :: session_view
  ld_status :: mutable_status
  ld_stats :: mutable_stats
  ld_running :: bool
  ld_runAborted :: bool
  ld_lastSeenRevision :: int
  ld_sequence :: int
  ld_latest :: "candidate option"
  ld_retryLatest :: bool
  ld_pending :: "candidate option"
  ld_processing :: bool
  ld_appliedOnce :: bool
  ld_gracefulWatchStop :: bool
  ld_finished :: "loader_failure option"
  ld_activeController :: "nat option"
  ld_tasks :: "(nat, loader_task) jsmap"
  ld_nextTask :: nat
  ld_run :: lrun_pc
  ld_watch :: lwatch_pc
  ld_recon :: lrecon_pc
  ld_nextStream :: nat
  ld_outcome :: "loader_failure option"
  ld_log :: "loader_event list"

text \<open>What a loader is built from: its options, the code outside the sources, and whether the
  transport has the two optional session methods.\<close>

record loader_cfg =
  lc_env :: release_env
  lc_opts :: normalized_options
  lc_register :: bool
  lc_instance :: bool

definition idle_status :: mutable_status where
  "idle_status = \<lparr>ms_state = None, ms_observedVersion = 0, ms_observedRevision = 0, ms_observedActivationRevision = 0,
     ms_appliedVersion = 0, ms_appliedRevision = 0, ms_appliedActivationRevision = 0, ms_lastFailureCategory = None,
     ms_lastFailureAt = None, ms_lastResolutionDurationMs = 0, ms_reconnects = 0\<rparr>"

definition newReleaseLoader :: loader where
  "newReleaseLoader = \<lparr>ld_acks = no_acks, ld_session = \<lparr>se_sessionId = [], se_registered = False\<rparr>,
     ld_status = idle_status, ld_stats = \<lparr>mt_candidates = 0, mt_applied = 0, mt_rejected = [], mt_reconnects = 0\<rparr>,
     ld_running = False, ld_runAborted = False, ld_lastSeenRevision = 0, ld_sequence = 0, ld_latest = None,
     ld_retryLatest = False, ld_pending = None, ld_processing = False, ld_appliedOnce = False,
     ld_gracefulWatchStop = False, ld_finished = None, ld_activeController = None, ld_tasks = [], ld_nextTask = 0,
     ld_run = RIdle, ld_watch = WOff, ld_recon = LOff, ld_nextStream = 0, ld_outcome = None, ld_log = []\<rparr>"

section \<open>Status and acknowledgements\<close>

definition log_event :: "loader_event \<Rightarrow> loader \<Rightarrow> loader" where
  "log_event e ld = ld\<lparr>ld_log := ld_log ld @ [e]\<rparr>"

definition observe :: "candidate \<Rightarrow> loader \<Rightarrow> loader" where
  "observe c ld = ld\<lparr>
     ld_status := (ld_status ld)\<lparr>ms_observedVersion := cr_version (cd_release c), ms_observedRevision := cd_revision c,
       ms_observedActivationRevision := cd_fleetRevision c\<rparr>,
     ld_stats := (ld_stats ld)\<lparr>mt_candidates := mt_candidates (ld_stats ld) + 1\<rparr>\<rparr>"

definition recordRejected :: "real \<Rightarrow> release_category \<Rightarrow> loader \<Rightarrow> loader" where
  "recordRejected now category ld = ld\<lparr>
     ld_status := (ld_status ld)\<lparr>ms_state := Some Rejected, ms_lastFailureCategory := Some category, ms_lastFailureAt := Some now\<rparr>,
     ld_stats := (ld_stats ld)\<lparr>mt_rejected :=
       map_set category (map_get_or 0 (mt_rejected (ld_stats ld)) category + 1) (mt_rejected (ld_stats ld))\<rparr>\<rparr>"

definition recordReconnect :: "loader \<Rightarrow> loader" where
  "recordReconnect ld = ld\<lparr>
     ld_status := (ld_status ld)\<lparr>ms_reconnects := ms_reconnects (ld_status ld) + 1\<rparr>,
     ld_stats := (ld_stats ld)\<lparr>mt_reconnects := mt_reconnects (ld_stats ld) + 1\<rparr>\<rparr>"

definition ack_candidate ::
  "loader_cfg \<Rightarrow> real \<Rightarrow> candidate \<Rightarrow> release_state \<Rightarrow> release_category option \<Rightarrow> ack_divergence \<Rightarrow> loader \<Rightarrow> int \<times> loader" where
  "ack_candidate cfg now c state category divergence ld =
     (case ack (lc_opts cfg) (ld_session ld) now c state category divergence (ld_acks ld) of
        (gen, ak) \<Rightarrow> (gen, ld\<lparr>ld_acks := ak\<rparr>))"

definition reject :: "loader_cfg \<Rightarrow> real \<Rightarrow> candidate \<Rightarrow> release_category \<Rightarrow> loader \<Rightarrow> int \<times> loader" where
  "reject cfg now c category ld =
     (case ack_candidate cfg now c Rejected (Some category) NO_DIVERGENCE ld of
        (gen, ld1) \<Rightarrow> (gen, recordRejected now category ld1))"

definition set_state :: "release_state \<Rightarrow> loader \<Rightarrow> loader" where
  "set_state st ld = ld\<lparr>ld_status := (ld_status ld)\<lparr>ms_state := Some st\<rparr>\<rparr>"

definition finish_reject :: "loader_failure \<Rightarrow> loader \<Rightarrow> loader" where
  "finish_reject f ld = (case ld_finished ld of None \<Rightarrow> ld\<lparr>ld_finished := Some f\<rparr> | Some _ \<Rightarrow> ld)"

definition getActive :: "loader_cfg \<Rightarrow> loader \<Rightarrow> instance_target option \<Rightarrow> active_release option" where
  "getActive cfg ld reply =
     (if se_registered (ld_session ld) \<and> lc_instance cfg then
        (case reply of None \<Rightarrow> None
         | Some target \<Rightarrow>
           if (case it_release target of None \<Rightarrow> False | Some r \<Rightarrow> \<not> releaseMatchesTrack r (lc_opts cfg)) then None
           else Some \<lparr>ac_release = it_release target, ac_activationRevision = it_targetRevision target,
             ac_previousVersion = 0, ac_fleetRevision = it_activationRevision target\<rparr>)
      else None)"

definition active_candidate :: "loader_cfg \<Rightarrow> active_release \<Rightarrow> candidate option" where
  "active_candidate cfg a =
     map_option (\<lambda>r. makeCandidate (lc_env cfg) r (ac_activationRevision a) Reconciliation 0 (ac_fleetRevision a)) (ac_release a)"

section \<open>Offering and starting candidates\<close>

definition set_task :: "nat \<Rightarrow> loader_task \<Rightarrow> loader \<Rightarrow> loader" where
  "set_task t task ld = ld\<lparr>ld_tasks := map_set t task (ld_tasks ld)\<rparr>"

definition set_pc :: "nat \<Rightarrow> task_pc \<Rightarrow> loader \<Rightarrow> loader" where
  "set_pc t pc ld = (case map_get (ld_tasks ld) t of None \<Rightarrow> ld | Some task \<Rightarrow> set_task t (task\<lparr>tk_pc := pc\<rparr>) ld)"

text \<open>Aborting a candidate's controller also aborts the controller of its fetch pool.\<close>

definition abort_pc :: "task_pc \<Rightarrow> task_pc" where
  "abort_pc pc = (case pc of TFetching ident p \<Rightarrow> TFetching ident (pool_abort p) | _ \<Rightarrow> pc)"

definition abort_task :: "loader_task \<Rightarrow> loader_task" where
  "abort_task task = task\<lparr>tk_aborted := True, tk_pc := abort_pc (tk_pc task)\<rparr>"

definition abort_active :: "loader \<Rightarrow> loader" where
  "abort_active ld =
     (case ld_activeController ld of None \<Rightarrow> ld
      | Some t \<Rightarrow> (case map_get (ld_tasks ld) t of None \<Rightarrow> ld | Some task \<Rightarrow> set_task t (abort_task task) ld))"

definition fetch_pool :: "loader_cfg \<Rightarrow> candidate \<Rightarrow> (release_entry, resolved_entry, release_category) pool" where
  "fetch_pool cfg c = mapConcurrent (cr_entries (cd_release c)) (no_maxConcurrentFetches (lc_opts cfg)) False"

text \<open>\<open>resolveCandidate\<close> up to its first \<open>await\<close>.\<close>

definition resolveCandidate :: "loader_cfg \<Rightarrow> candidate \<Rightarrow> bool \<Rightarrow> task_pc" where
  "resolveCandidate cfg c aborted =
     (if aborted then TResolved (Inl Superseded)
      else case candidate_manifest (lc_env cfg) (lc_opts cfg) c of Inl category \<Rightarrow> TResolved (Inl category)
        | Inr ident \<Rightarrow> if no_validateManifest (lc_opts cfg) then TValidating ident else TFetching ident (fetch_pool cfg c))"

definition start :: "loader_cfg \<Rightarrow> real \<Rightarrow> candidate \<Rightarrow> loader \<Rightarrow> loader" where
  "start cfg now c ld =
     (let t = ld_nextTask ld; aborted = ld_runAborted ld
      in ld\<lparr>ld_activeController := Some t, ld_processing := True, ld_nextTask := t + 1,
            ld_tasks := map_set t \<lparr>tk_candidate = c, tk_aborted = aborted, tk_started = now,
              tk_pc = resolveCandidate cfg c aborted\<rparr> (ld_tasks ld)\<rparr>)"

definition offer_ignored :: "loader_cfg \<Rightarrow> candidate \<Rightarrow> loader \<Rightarrow> bool" where
  "offer_ignored cfg incoming ld \<longleftrightarrow> ld_runAborted ld \<or> \<not> releaseMatchesTrack (cd_release incoming) (lc_opts cfg) \<or>
     (case ld_latest ld of None \<Rightarrow> False
      | Some latest \<Rightarrow> cd_revision incoming < cd_revision latest \<or>
          (sameQueuedCandidate incoming latest \<and> \<not> (ld_retryLatest ld \<and> cd_source incoming = Reconciliation)))"

definition offer :: "loader_cfg \<Rightarrow> real \<Rightarrow> candidate \<Rightarrow> loader \<Rightarrow> loader" where
  "offer cfg now incoming ld =
     (if offer_ignored cfg incoming ld then ld
      else let sequence = ld_sequence ld + 1; c = incoming\<lparr>cd_sequence := sequence\<rparr>;
               ld1 = observe c (ld\<lparr>ld_sequence := sequence, ld_latest := Some c, ld_retryLatest := False\<rparr>)
           in if ld_processing ld then (abort_active ld1)\<lparr>ld_pending := Some c\<rparr> else start cfg now c ld1)"

definition start_pending :: "loader_cfg \<Rightarrow> real \<Rightarrow> loader \<Rightarrow> loader" where
  "start_pending cfg now ld =
     (case ld_pending ld of None \<Rightarrow> ld
      | Some next \<Rightarrow> if ld_runAborted ld then ld else start cfg now next (ld\<lparr>ld_pending := None\<rparr>))"

section \<open>Processing one candidate\<close>

text \<open>The continuation of \<open>validateManifest\<close>: \<open>Some\<close> is what it threw.\<close>

definition validate_reply :: "loader_cfg \<Rightarrow> nat \<Rightarrow> thrown option \<Rightarrow> loader \<Rightarrow> loader" where
  "validate_reply cfg t reply ld =
     (case map_get (ld_tasks ld) t of None \<Rightarrow> ld
      | Some task \<Rightarrow> (case tk_pc task of
          TValidating ident \<Rightarrow>
            set_pc t (if tk_aborted task then TResolved (Inl Superseded)
              else case reply of
                Some err \<Rightarrow> TResolved (Inl (case classifiedReleaseCategory err of None \<Rightarrow> PrepareFailed | Some k \<Rightarrow> k))
              | None \<Rightarrow> TFetching ident (fetch_pool cfg (tk_candidate task))) ld
        | _ \<Rightarrow> ld))"

text \<open>The call of one fetch worker settles: \<open>resolveEntry\<close> of the entry it holds.\<close>

definition entry_reply :: "loader_cfg \<Rightarrow> real \<Rightarrow> nat \<Rightarrow> nat \<Rightarrow> entry_replies \<Rightarrow> loader \<Rightarrow> loader" where
  "entry_reply cfg now t w replies ld =
     (case map_get (ld_tasks ld) t of None \<Rightarrow> ld
      | Some task \<Rightarrow> (case tk_pc task of
          TFetching ident p \<Rightarrow>
            if w < length (po_workers p) then
              (case po_workers p ! w of Finished \<Rightarrow> ld
               | Busy i \<Rightarrow>
                 (let e = po_values p ! i
                  in case map_get (ri_entries ident) (re_alias e) of None \<Rightarrow> ld
                     | Some md \<Rightarrow> set_pc t (TFetching ident (pool_settle w
                         (resolveEntry (lc_env cfg) (lc_opts cfg) now (po_aborted p) e md replies) p)) ld))
            else ld
        | _ \<Rightarrow> ld))"

text \<open>All workers have ended: \<open>resolveCandidate\<close> returns or throws.\<close>

definition pool_end :: "nat \<Rightarrow> loader \<Rightarrow> loader" where
  "pool_end t ld =
     (case map_get (ld_tasks ld) t of None \<Rightarrow> ld
      | Some task \<Rightarrow> (case tk_pc task of
          TFetching ident p \<Rightarrow>
            if \<not> pool_ended p then ld
            else set_pc t (TResolved (case pool_result (tk_aborted task) p of
                Inl None \<Rightarrow> Inl Superseded
              | Inl (Some category) \<Rightarrow> Inl category
              | Inr results \<Rightarrow> if None \<in> set results then Inl ResolutionFailed
                  else Inr (resolved_snapshot ident (map the results)))) ld
        | _ \<Rightarrow> ld))"

definition rejected_result :: "release_category \<Rightarrow> int \<Rightarrow> bool \<Rightarrow> candidate_result" where
  "rejected_result category gen fatal =
     \<lparr>rt_applied = False, rt_category = Some category, rt_acknowledgementGeneration = Some gen, rt_fatal = fatal\<rparr>"

definition settle_rejected :: "loader_cfg \<Rightarrow> real \<Rightarrow> nat \<Rightarrow> candidate \<Rightarrow> release_category \<Rightarrow> bool \<Rightarrow> loader \<Rightarrow> loader" where
  "settle_rejected cfg now t c category fatal ld =
     (case reject cfg now c category ld of (gen, ld1) \<Rightarrow> set_pc t (TSettled (rejected_result category gen fatal)) ld1)"

definition resolve_settled :: "loader_cfg \<Rightarrow> real \<Rightarrow> nat \<Rightarrow> loader \<Rightarrow> loader" where
  "resolve_settled cfg now t ld =
     (case map_get (ld_tasks ld) t of None \<Rightarrow> ld
      | Some task \<Rightarrow> (case tk_pc task of
          TResolved outcome \<Rightarrow>
            (let c = tk_candidate task;
                 ld1 = ld\<lparr>ld_status := (ld_status ld)\<lparr>ms_lastResolutionDurationMs := max 0 (now - tk_started task)\<rparr>\<rparr>
             in case outcome of
                  Inl category \<Rightarrow> settle_rejected cfg now t c (resolutionCategory category (tk_aborted task)) False ld1
                | Inr snapshot \<Rightarrow>
                    log_event (PrepareCall t snapshot) (set_pc t TPreparing
                      (set_state Received (snd (ack_candidate cfg now c Received None NO_DIVERGENCE ld1)))))
        | _ \<Rightarrow> ld))"

text \<open>\<open>abortPrepared\<close> reports a fatal error unless \<open>abort\<close> returned undefined.\<close>

definition settle_aborting ::
  "loader_cfg \<Rightarrow> real \<Rightarrow> nat \<Rightarrow> candidate \<Rightarrow> prepared_release \<Rightarrow> release_category \<Rightarrow> loader \<Rightarrow> loader" where
  "settle_aborting cfg now t c prepared category ld =
     (let fatal = pr_abort prepared \<noteq> ReturnsUndefined
      in settle_rejected cfg now t c (if fatal then Internal else category) fatal (log_event (AbortCall t) ld))"

definition prepare_settled :: "loader_cfg \<Rightarrow> real \<Rightarrow> nat \<Rightarrow> prepare_reply \<Rightarrow> loader \<Rightarrow> loader" where
  "prepare_settled cfg now t reply ld =
     (case map_get (ld_tasks ld) t of None \<Rightarrow> ld
      | Some task \<Rightarrow> (case tk_pc task of
          TPreparing \<Rightarrow>
            (let c = tk_candidate task;
                 failed = (\<lambda>err. settle_rejected cfg now t c (if tk_aborted task then Superseded
                   else case classifiedReleaseCategory err of None \<Rightarrow> PrepareFailed | Some k \<Rightarrow> k) False ld)
             in case reply of
                  PrepareThrows err \<Rightarrow> failed err
                | PrepareInvalid \<Rightarrow> failed None
                | PrepareReturns prepared \<Rightarrow>
                    (let ld1 = log_event (PrepareReturned t) ld
                     in if tk_aborted task then settle_aborting cfg now t c prepared Superseded ld1
                        else set_pc t (TChecking prepared)
                          (set_state Prepared (snd (ack_candidate cfg now c Prepared None NO_DIVERGENCE ld1)))))
        | _ \<Rightarrow> ld))"

definition applied_result :: candidate_result where
  "applied_result = \<lparr>rt_applied = True, rt_category = None, rt_acknowledgementGeneration = None, rt_fatal = False\<rparr>"

definition broken_commit :: candidate_result where
  "broken_commit = \<lparr>rt_applied = False, rt_category = Some Internal, rt_acknowledgementGeneration = None, rt_fatal = True\<rparr>"

definition commit :: "loader_cfg \<Rightarrow> real \<Rightarrow> nat \<Rightarrow> candidate \<Rightarrow> prepared_release \<Rightarrow> loader \<Rightarrow> loader" where
  "commit cfg now t c prepared ld =
     (let ld1 = log_event (CommitCall t c (pr_commit prepared)) ld
      in if pr_commit prepared \<noteq> ReturnsUndefined then set_pc t (TSettled broken_commit) (recordRejected now Internal ld1)
         else let ld2 = snd (ack_candidate cfg now c Applied None (divergenceOf (pr_divergence prepared)) ld1)
              in set_pc t (TSettled applied_result) (ld2\<lparr>
                   ld_status := (ld_status ld2)\<lparr>ms_state := Some Applied, ms_appliedVersion := cr_version (cd_release c),
                     ms_appliedRevision := cd_revision c, ms_appliedActivationRevision := cd_fleetRevision c,
                     ms_lastFailureCategory := None\<rparr>,
                   ld_stats := (ld_stats ld2)\<lparr>mt_applied := mt_applied (ld_stats ld2) + 1\<rparr>\<rparr>))"

definition active_settled :: "loader_cfg \<Rightarrow> real \<Rightarrow> nat \<Rightarrow> instance_target option \<Rightarrow> loader \<Rightarrow> loader" where
  "active_settled cfg now t reply ld =
     (case map_get (ld_tasks ld) t of None \<Rightarrow> ld
      | Some task \<Rightarrow> (case tk_pc task of
          TChecking prepared \<Rightarrow>
            (let c = tk_candidate task
             in case Option.bind (getActive cfg ld reply) (active_candidate cfg) of
                  None \<Rightarrow> settle_aborting cfg now t c prepared (if tk_aborted task then Superseded else ActiveCheckFailed) ld
                | Some active \<Rightarrow>
                    if tk_aborted task \<or> \<not> sameActiveCandidate c active then settle_aborting cfg now t c prepared Superseded ld
                    else commit cfg now t c prepared ld)
        | _ \<Rightarrow> ld))"

section \<open>After a candidate has settled\<close>

text \<open>The \<open>then\<close> callback of a task, up to its first \<open>await\<close>.\<close>

definition task_settled :: "loader_cfg \<Rightarrow> real \<Rightarrow> nat \<Rightarrow> loader \<Rightarrow> loader" where
  "task_settled cfg now t ld =
     (case map_get (ld_tasks ld) t of None \<Rightarrow> ld
      | Some task \<Rightarrow> (case tk_pc task of
          TSettled result \<Rightarrow>
            (let ld1 = (set_pc t TDone ld)\<lparr>ld_processing := False, ld_activeController := None,
                   ld_appliedOnce := ld_appliedOnce ld \<or> rt_applied result\<rparr>;
                 failed = (case rt_category result of None \<Rightarrow> False | Some k \<Rightarrow> k \<noteq> Superseded)
             in if rt_fatal result then finish_reject CallbackContract ld1
                else if Some (cd_sequence (tk_candidate task)) \<noteq> map_option cd_sequence (ld_latest ld1) then start_pending cfg now ld1
                else if failed \<and> \<not> ld_appliedOnce ld1 then set_pc t (TStartupRead result) ld1
                else start_pending cfg now (if failed then ld1\<lparr>ld_retryLatest := True\<rparr> else ld1))
        | _ \<Rightarrow> ld))"

text \<open>The fresh read after a startup rejection, and the wait for its acknowledgement.\<close>

definition startup_read :: "loader_cfg \<Rightarrow> real \<Rightarrow> nat \<Rightarrow> instance_target option \<Rightarrow> loader \<Rightarrow> loader" where
  "startup_read cfg now t reply ld =
     (case map_get (ld_tasks ld) t of None \<Rightarrow> ld
      | Some task \<Rightarrow> (case tk_pc task of
          TStartupRead result \<Rightarrow>
            (let category = (case rt_category result of None \<Rightarrow> Internal | Some k \<Rightarrow> k);
                 keep = (case rt_acknowledgementGeneration result of
                     None \<Rightarrow> finish_reject (StartupRejected category) (set_pc t TDone ld)
                   | Some gen \<Rightarrow> set_pc t (TAckWait category)
                       (ld\<lparr>ld_acks := waitForAcknowledgement t gen (ld_runAborted ld) (ld_acks ld)\<rparr>))
             in case Option.bind (getActive cfg ld reply) (active_candidate cfg) of
                  None \<Rightarrow> keep
                | Some fresh \<Rightarrow> if sameActiveCandidate (tk_candidate task) fresh then keep
                    else offer cfg now fresh (set_pc t TDone ld))
        | _ \<Rightarrow> ld))"

text \<open>The \<open>catch\<close> handler of a task.\<close>

definition task_catch :: "nat \<Rightarrow> loader \<Rightarrow> loader" where
  "task_catch t ld =
     finish_reject RunAborted ((set_pc t TDone ld)\<lparr>ld_processing := False, ld_activeController := None\<rparr>)"

definition ack_waited :: "nat \<Rightarrow> loader \<Rightarrow> loader" where
  "ack_waited t ld =
     (case map_get (ld_tasks ld) t of None \<Rightarrow> ld
      | Some task \<Rightarrow> (case tk_pc task of
          TAckWait category \<Rightarrow>
            (case map_get (ak_settled (ld_acks ld)) t of None \<Rightarrow> ld
             | Some WaitAborted \<Rightarrow> task_catch t ld
             | Some (WaitStream None) \<Rightarrow> finish_reject (StartupRejected category) (set_pc t TDone ld)
             | Some (WaitStream (Some stream)) \<Rightarrow>
                 (let ld1 = log_event (CloseSend stream) (ld\<lparr>ld_gracefulWatchStop := True\<rparr>)
                  in set_pc t (TClosing category) ld1))
        | _ \<Rightarrow> ld))"

text \<open>
  \<open>settleWithin\<close> on closing the stream and then on the watch loop. It resolves when its task settles
  or its timer fires, and rejects only when the run is aborted.
\<close>

definition settle_within :: "nat \<Rightarrow> bool \<Rightarrow> loader \<Rightarrow> loader" where
  "settle_within t rejects ld =
     (case map_get (ld_tasks ld) t of None \<Rightarrow> ld
      | Some task \<Rightarrow> (case tk_pc task of
          TClosing category \<Rightarrow>
            if rejects then (if ld_runAborted ld then task_catch t ld else ld)
            else set_pc t (TWatchWait category) ld
        | TWatchWait category \<Rightarrow>
            if rejects then (if ld_runAborted ld then task_catch t ld else ld)
            else finish_reject (StartupRejected category) (set_pc t TDone ld)
        | _ \<Rightarrow> ld))"

section \<open>The watch loop\<close>

definition terminalReleaseWatchError :: "string option \<Rightarrow> string option" where
  "terminalReleaseWatchError code =
     (case code of None \<Rightarrow> None
      | Some c \<Rightarrow> if c \<in> {''not_found'', ''invalid_argument'', ''permission_denied'', ''failed_precondition'', ''unauthenticated''}
          then Some c else None)"

text \<open>The loop head: a registration resumes from the last revision seen.\<close>

definition watch_loop_head :: "nat \<Rightarrow> loader \<Rightarrow> loader" where
  "watch_loop_head attempt ld =
     (if ld_runAborted ld \<or> ld_gracefulWatchStop ld then ld\<lparr>ld_watch := WDone\<rparr>
      else (log_event (OpenStream (wire_session (ld_session ld)) (ld_lastSeenRevision ld)) ld)\<lparr>ld_watch := WOpening attempt\<rparr>)"

text \<open>
  Leaving the \<open>try\<close> block, with what was thrown there, if anything. The \<open>finally\<close> block forgets the
  stream and closes it.
\<close>

definition leave_stream :: "nat \<Rightarrow> nat option \<Rightarrow> bool \<Rightarrow> string option option \<Rightarrow> loader \<Rightarrow> loader" where
  "leave_stream attempt stream received thrown ld =
     (let ak = ld_acks ld;
          ld1 = ld\<lparr>ld_acks := (if ak_currentStream ak = stream then ak\<lparr>ak_currentStream := None\<rparr> else ak),
            ld_watch := WClosing attempt stream received (case thrown of None \<Rightarrow> None | Some code \<Rightarrow> terminalReleaseWatchError code)\<rparr>
      in case stream of None \<Rightarrow> ld1 | Some s \<Rightarrow> log_event (CloseSend s) ld1)"

text \<open>\<open>watchRelease\<close> settles: a new stream, or an error with its mapped code.\<close>

definition watch_opened :: "string option option \<Rightarrow> loader \<Rightarrow> loader" where
  "watch_opened thrown ld =
     (case ld_watch ld of
        WOpening attempt \<Rightarrow>
          (case thrown of Some code \<Rightarrow> leave_stream attempt None False (Some code) ld
           | None \<Rightarrow> ld\<lparr>ld_watch := WReplaying attempt (ld_nextStream ld) (flush_items True (ld_acks ld)),
               ld_nextStream := ld_nextStream ld + 1\<rparr>)
      | _ \<Rightarrow> ld)"

definition watch_replay :: "string option option \<Rightarrow> loader \<Rightarrow> loader" where
  "watch_replay thrown ld =
     (case ld_watch ld of
        WReplaying attempt stream [] \<Rightarrow>
          (let ak = scheduleAckFlush ((ld_acks ld)\<lparr>ak_currentStream := Some stream\<rparr>)
           in ld\<lparr>ld_acks := ak, ld_watch := WFlushing attempt stream (ak_nextJob (ld_acks ld))\<rparr>)
      | WReplaying attempt stream (item # items) \<Rightarrow>
          (case thrown of Some code \<Rightarrow> leave_stream attempt (Some stream) False (Some code) ld
           | None \<Rightarrow> ld\<lparr>ld_acks := flush_sent stream item (ld_acks ld), ld_watch := WReplaying attempt stream items\<rparr>)
      | _ \<Rightarrow> ld)"

text \<open>The chained flush the loop awaits has settled; \<open>code\<close> is its error when it failed.\<close>

definition watch_flushed :: "string option \<Rightarrow> loader \<Rightarrow> loader" where
  "watch_flushed code ld =
     (case ld_watch ld of
        WFlushing attempt stream job \<Rightarrow>
          (case map_get (ak_jobDone (ld_acks ld)) job of None \<Rightarrow> ld
           | Some True \<Rightarrow> ld\<lparr>ld_watch := WStreaming attempt stream False\<rparr>
           | Some False \<Rightarrow> leave_stream attempt (Some stream) False (Some code) ld)
      | _ \<Rightarrow> ld)"

datatype release_watch_event = AcknowledgementRejected ack_rejection | HeartbeatEvent | TargetEvent instance_target | OtherEvent

definition see_revision :: "int \<Rightarrow> loader \<Rightarrow> loader" where
  "see_revision revision ld = (if ld_lastSeenRevision ld < revision then ld\<lparr>ld_lastSeenRevision := revision\<rparr> else ld)"

definition watch_event_received :: "loader_cfg \<Rightarrow> real \<Rightarrow> release_watch_event \<Rightarrow> int \<Rightarrow> loader \<Rightarrow> loader" where
  "watch_event_received cfg now ev revision ld =
     (case ld_watch ld of
        WStreaming attempt stream received \<Rightarrow>
          if ld_runAborted ld then leave_stream attempt (Some stream) received None ld
          else (case ev of
              AcknowledgementRejected r \<Rightarrow>
                ld\<lparr>ld_watch := WStreaming attempt stream True,
                   ld_acks := handleAcknowledgementRejected (lc_opts cfg) (ld_session ld) r (ld_acks ld)\<rparr>
            | HeartbeatEvent \<Rightarrow> see_revision revision (ld\<lparr>ld_watch := WStreaming attempt stream True\<rparr>)
            | TargetEvent target \<Rightarrow>
                (case it_release target of None \<Rightarrow> ld
                 | Some r \<Rightarrow>
                   if se_registered (ld_session ld) \<and> releaseMatchesTrack r (lc_opts cfg) then
                     offer cfg now (makeCandidate (lc_env cfg) r (it_targetRevision target) Reconciliation 0 (it_activationRevision target))
                       (see_revision revision (ld\<lparr>ld_watch := WStreaming attempt stream True\<rparr>))
                   else ld)
            | OtherEvent \<Rightarrow> ld)
      | _ \<Rightarrow> ld)"

text \<open>The stream ends or throws.\<close>

definition watch_ended :: "string option option \<Rightarrow> loader \<Rightarrow> loader" where
  "watch_ended thrown ld =
     (case ld_watch ld of
        WStreaming attempt stream received \<Rightarrow> leave_stream attempt (Some stream) received thrown ld
      | _ \<Rightarrow> ld)"

definition watch_closed :: "loader \<Rightarrow> loader" where
  "watch_closed ld =
     (case ld_watch ld of
        WClosing attempt _ received terminal \<Rightarrow>
          (case terminal of Some code \<Rightarrow> finish_reject (WatchTerminal code) (ld\<lparr>ld_watch := WDone\<rparr>)
           | None \<Rightarrow>
             if ld_runAborted ld \<or> ld_gracefulWatchStop ld then ld\<lparr>ld_watch := WDone\<rparr>
             else (recordReconnect ld)\<lparr>ld_watch := WBackoff ((if received then 0 else attempt) + 1)\<rparr>)
      | _ \<Rightarrow> ld)"

text \<open>The reconnect delay ends; an abort makes it reject, which ends the loop.\<close>

definition watch_backoff_done :: "loader \<Rightarrow> loader" where
  "watch_backoff_done ld =
     (case ld_watch ld of
        WBackoff attempt \<Rightarrow> if ld_runAborted ld then finish_reject RunAborted (ld\<lparr>ld_watch := WDone\<rparr>)
          else watch_loop_head attempt ld
      | _ \<Rightarrow> ld)"

section \<open>The reconcile loop\<close>

definition recon_wake :: "loader \<Rightarrow> loader" where
  "recon_wake ld =
     (case ld_recon ld of
        LSleeping \<Rightarrow> ld\<lparr>ld_recon := (if ld_runAborted ld then LDone else LReading)\<rparr>
      | _ \<Rightarrow> ld)"

definition recon_read :: "loader_cfg \<Rightarrow> real \<Rightarrow> instance_target option \<Rightarrow> loader \<Rightarrow> loader" where
  "recon_read cfg now reply ld =
     (case ld_recon ld of
        LReading \<Rightarrow>
          (let ld1 = ld\<lparr>ld_recon := (if ld_runAborted ld then LDone else LSleeping)\<rparr>
           in case Option.bind (getActive cfg ld reply) (active_candidate cfg) of None \<Rightarrow> ld1 | Some c \<Rightarrow> offer cfg now c ld1)
      | _ \<Rightarrow> ld)"

section \<open>Running the loader\<close>

text \<open>Aborting the run reaches the candidates still linked to it and the waits.\<close>

definition abort_run :: "loader \<Rightarrow> loader" where
  "abort_run ld =
     (if ld_runAborted ld then ld
      else ld\<lparr>ld_runAborted := True, ld_tasks := map_upd_all (\<lambda>_. abort_task) (ld_tasks ld),
             ld_acks := abort_waits (ld_acks ld)\<rparr>)"

definition stop_loader :: "loader \<Rightarrow> loader" where
  "stop_loader ld = (if ld_running ld then abort_run ld else ld)"

text \<open>The \<open>finally\<close> block up to its first \<open>await\<close>, with the error that \<open>run\<close> will throw.\<close>

definition run_finally :: "loader_failure \<Rightarrow> loader \<Rightarrow> loader" where
  "run_finally failure ld = (abort_run (abort_active ld))\<lparr>ld_outcome := Some failure, ld_run := RDraining\<rparr>"

text \<open>
  \<open>run\<close> up to its first \<open>await\<close>. It throws at once when the loader is running, \<open>prepare\<close> is no
  function or the caller's signal is aborted. \<open>uuid\<close> is the fresh session id. The local variables of
  the new execution start here.
\<close>

definition run_begin :: "loader_cfg \<Rightarrow> bool \<Rightarrow> bool \<Rightarrow> string \<Rightarrow> loader \<Rightarrow> loader" where
  "run_begin cfg prepareCallable signalAborted uuid ld =
     (if ld_running ld \<or> \<not> prepareCallable \<or> signalAborted then ld
      else let ld1 = ld\<lparr>ld_running := True, ld_session := \<lparr>se_sessionId = uuid, se_registered = False\<rparr>,
             ld_acks := no_acks\<lparr>ak_currentStream := ak_currentStream (ld_acks ld)\<rparr>, ld_lastSeenRevision := 0,
             ld_status := (ld_status ld)\<lparr>ms_state := None, ms_observedVersion := 0, ms_observedRevision := 0,
               ms_observedActivationRevision := 0, ms_appliedVersion := 0, ms_appliedRevision := 0,
               ms_appliedActivationRevision := 0, ms_lastFailureCategory := None, ms_lastFailureAt := None\<rparr>,
             ld_runAborted := False, ld_activeController := None, ld_tasks := [], ld_sequence := 0, ld_latest := None,
             ld_retryLatest := False, ld_pending := None, ld_processing := False, ld_appliedOnce := False,
             ld_gracefulWatchStop := False, ld_finished := None, ld_outcome := None, ld_watch := WOff, ld_recon := LOff,
             ld_log := []\<rparr>
           in if lc_register cfg \<and> lc_instance cfg
              then (log_event (RegisterSession uuid False) ld1)\<lparr>ld_run := RRegistering\<rparr>
              else run_finally SessionsRequired ld1)"

text \<open>\<open>registerReleaseSession\<close> settles: it failed, or returned whether the server is capable.\<close>

definition run_registered :: "bool option \<Rightarrow> loader \<Rightarrow> loader" where
  "run_registered reply ld =
     (case ld_run ld of
        RRegistering \<Rightarrow>
          (case reply of None \<Rightarrow> run_finally SessionRegistrationFailed ld
           | Some False \<Rightarrow> run_finally SessionsRequired ld
           | Some True \<Rightarrow> ld\<lparr>ld_session := (ld_session ld)\<lparr>se_registered := True\<rparr>, ld_run := RReading\<rparr>)
      | _ \<Rightarrow> ld)"

definition run_initial :: "loader_cfg \<Rightarrow> real \<Rightarrow> instance_target option \<Rightarrow> loader \<Rightarrow> loader" where
  "run_initial cfg now reply ld =
     (case ld_run ld of
        RReading \<Rightarrow>
          (case getActive cfg ld reply of None \<Rightarrow> run_finally InitialReadFailed ld
           | Some initial \<Rightarrow>
             (let ld1 = ld\<lparr>ld_lastSeenRevision := ac_activationRevision initial\<rparr>;
                  ld2 = (watch_loop_head 0 ld1)\<lparr>ld_recon := (if ld_runAborted ld then LDone else LSleeping), ld_run := RRacing\<rparr>
              in case active_candidate cfg initial of None \<Rightarrow> ld2 | Some c \<Rightarrow> offer cfg now c ld2))
      | _ \<Rightarrow> ld)"

definition run_race_ends :: "loader \<Rightarrow> loader" where
  "run_race_ends ld =
     (case ld_run ld of
        RRacing \<Rightarrow>
          (case ld_finished ld of Some f \<Rightarrow> run_finally f ld
           | None \<Rightarrow> if ld_runAborted ld then run_finally RunAborted ld else ld)
      | _ \<Rightarrow> ld)"

definition tasks_done :: "loader \<Rightarrow> bool" where
  "tasks_done ld \<longleftrightarrow> list_all (\<lambda>e. tk_pc (snd e) = TDone) (ld_tasks ld)"

definition run_drain :: "loader \<Rightarrow> loader" where
  "run_drain ld =
     (case ld_run ld of
        RDraining \<Rightarrow>
          if tasks_done ld then
            (let ak = scheduleAckFlush (ld_acks ld) in ld\<lparr>ld_acks := ak, ld_run := RFlushing (ak_nextJob ak)\<rparr>)
          else ld
      | RFlushing limit \<Rightarrow>
          if list_all (\<lambda>job. limit \<le> aj_id job) (ak_chain (ld_acks ld)) then
            (let ld1 = ld\<lparr>ld_run := RClosing\<rparr>
             in case ak_currentStream (ld_acks ld) of None \<Rightarrow> ld1 | Some s \<Rightarrow> log_event (CloseSend s) ld1)
          else ld
      | RClosing \<Rightarrow> ld\<lparr>ld_acks := (ld_acks ld)\<lparr>ak_currentStream := None\<rparr>, ld_run := RBackground\<rparr>
      | RBackground \<Rightarrow>
          if ld_watch ld \<in> {WOff, WDone} \<and> ld_recon ld \<in> {LOff, LDone} then ld\<lparr>ld_running := False, ld_run := RIdle\<rparr> else ld
      | _ \<Rightarrow> ld)"

section \<open>Actions\<close>

datatype loader_action =
    RunBegin bool bool string | RunRegistered "bool option" | RunInitial real "instance_target option" | RunRaceEnds | RunDrain
  | StopLoader | ValidateReply nat "thrown option" | EntryReply real nat nat entry_replies | PoolEnd nat
  | ResolveSettled real nat | PrepareSettled real nat prepare_reply | ActiveSettled real nat "instance_target option"
  | TaskSettled real nat | StartupReadReply real nat "instance_target option" | AckWaited nat | SettleWithin nat bool
  | WaitTimeout int | ChainStart | ChainSend bool | ChainFinish
  | WatchOpened "string option option" | WatchReplay "string option option" | WatchFlushed "string option"
  | WatchEvent real release_watch_event int | WatchEnded "string option option" | WatchClosed | WatchBackoffDone
  | ReconWake | ReconReply real "instance_target option"

definition on_acks :: "(ack_state \<Rightarrow> ack_state) \<Rightarrow> loader \<Rightarrow> loader" where
  "on_acks f ld = ld\<lparr>ld_acks := f (ld_acks ld)\<rparr>"

text \<open>A chained flush that fails also cancels its stream.\<close>

definition chain_send_failed :: "loader \<Rightarrow> loader" where
  "chain_send_failed ld =
     (case ak_chain (ld_acks ld) of
        job # _ \<Rightarrow> (case aj_items job of
            Some (_ # _) \<Rightarrow> log_event (CancelStream (aj_stream job)) (on_acks (chain_send False) ld) | _ \<Rightarrow> ld)
      | [] \<Rightarrow> ld)"

fun loader_step :: "loader_cfg \<Rightarrow> loader_action \<Rightarrow> loader \<Rightarrow> loader" where
  "loader_step cfg (RunBegin prepareCallable signalAborted uuid) = run_begin cfg prepareCallable signalAborted uuid"
| "loader_step cfg (RunRegistered reply) = run_registered reply"
| "loader_step cfg (RunInitial now reply) = run_initial cfg now reply"
| "loader_step cfg RunRaceEnds = run_race_ends"
| "loader_step cfg RunDrain = run_drain"
| "loader_step cfg StopLoader = stop_loader"
| "loader_step cfg (ValidateReply t reply) = validate_reply cfg t reply"
| "loader_step cfg (EntryReply now t w replies) = entry_reply cfg now t w replies"
| "loader_step cfg (PoolEnd t) = pool_end t"
| "loader_step cfg (ResolveSettled now t) = resolve_settled cfg now t"
| "loader_step cfg (PrepareSettled now t reply) = prepare_settled cfg now t reply"
| "loader_step cfg (ActiveSettled now t reply) = active_settled cfg now t reply"
| "loader_step cfg (TaskSettled now t) = task_settled cfg now t"
| "loader_step cfg (StartupReadReply now t reply) = startup_read cfg now t reply"
| "loader_step cfg (AckWaited t) = ack_waited t"
| "loader_step cfg (SettleWithin t rejects) = settle_within t rejects"
| "loader_step cfg (WaitTimeout gen) = on_acks (wait_timeout gen)"
| "loader_step cfg ChainStart = on_acks chain_start"
| "loader_step cfg (ChainSend accepted) = (if accepted then on_acks (chain_send True) else chain_send_failed)"
| "loader_step cfg ChainFinish = on_acks chain_finish"
| "loader_step cfg (WatchOpened thrown) = watch_opened thrown"
| "loader_step cfg (WatchReplay thrown) = watch_replay thrown"
| "loader_step cfg (WatchFlushed code) = watch_flushed code"
| "loader_step cfg (WatchEvent now ev revision) = watch_event_received cfg now ev revision"
| "loader_step cfg (WatchEnded thrown) = watch_ended thrown"
| "loader_step cfg WatchClosed = watch_closed"
| "loader_step cfg WatchBackoffDone = watch_backoff_done"
| "loader_step cfg ReconWake = recon_wake"
| "loader_step cfg (ReconReply now reply) = recon_read cfg now reply"

end
