(* ===== verification/Config_Manager.thy ===== *)
theory Config_Manager
  imports Config_Value Loader
begin

text \<open>
  The managed configuration store around the release loader
  (\<^verbatim>\<open>sdk/typescript/src/configstore/snapshot.ts\<close>, \<^verbatim>\<open>contract.ts\<close>, \<^verbatim>\<open>manager.ts\<close> and the report classes of
  \<^verbatim>\<open>errors.ts\<close>): release identities, the generated alias contract and its manifest validator, and the
  policy a \<open>ManagedConfigManager\<close> applies to every candidate. \<open>#prepareSnapshot\<close> is cut at its \<open>await\<close>;
  the closures it returns are kept under the number of the loader task that asked for them. The
  application's callbacks are observers: what they throw or return is discarded, so only the calls are
  recorded, oldest first. The generated binding's \<open>publish\<close> and \<open>abort\<close> are known by what they return.
\<close>

section \<open>Release identities\<close>

record config_identity =
  ci_namespace :: string
  ci_name :: string
  ci_version :: int
  ci_activationRevision :: int
  ci_targetRevision :: int
  ci_schemaVersion :: int
  ci_digest :: string

record identity_init =
  ii_namespace :: "string option"
  ii_name :: "string option"
  ii_version :: "int option"
  ii_activationRevision :: "int option"
  ii_targetRevision :: "int option"
  ii_schemaVersion :: "int option"
  ii_digest :: "string option"

datatype identity_error = NotUint64 string

definition assertUint64 :: "int \<Rightarrow> string \<Rightarrow> identity_error + int" where
  "assertUint64 v field = (if in_uint64 v then Inr v else Inl (NotUint64 field))"

definition newConfigIdentity :: "identity_init \<Rightarrow> identity_error + config_identity" where
  "newConfigIdentity init =
     sum_bind (assertUint64 (case_option 0 id (ii_version init)) ''version'') (\<lambda>version.
     sum_bind (assertUint64 (case_option 0 id (ii_activationRevision init)) ''activationRevision'') (\<lambda>activationRevision.
     sum_bind (assertUint64 (case_option 0 id (ii_schemaVersion init)) ''schemaVersion'') (\<lambda>schemaVersion.
     sum_bind (assertUint64 (case_option activationRevision id (ii_targetRevision init)) ''targetRevision'') (\<lambda>targetRevision.
       Inr \<lparr>ci_namespace = case_option [] id (ii_namespace init), ci_name = case_option [] id (ii_name init),
         ci_version = version, ci_activationRevision = activationRevision, ci_targetRevision = targetRevision,
         ci_schemaVersion = schemaVersion, ci_digest = case_option [] id (ii_digest init)\<rparr>))))"

definition identity_from :: "release_identity \<Rightarrow> identity_error + config_identity" where
  "identity_from r = newConfigIdentity \<lparr>ii_namespace = Some (ri_namespace r), ii_name = Some (ri_name r),
     ii_version = Some (ri_version r), ii_activationRevision = Some (ri_activationRevision r),
     ii_targetRevision = Some (ri_targetRevision r), ii_schemaVersion = Some (ri_schemaVersion r),
     ii_digest = Some (ri_digest r)\<rparr>"

text \<open>\<open>new ReleaseIdentity()\<close>.\<close>

definition no_identity :: config_identity where
  "no_identity = \<lparr>ci_namespace = [], ci_name = [], ci_version = 0, ci_activationRevision = 0, ci_targetRevision = 0,
     ci_schemaVersion = 0, ci_digest = []\<rparr>"

definition isZero :: "config_identity \<Rightarrow> bool" where
  "isZero i \<longleftrightarrow> ci_namespace i = [] \<and> ci_name i = [] \<and> ci_version i = 0 \<and> ci_activationRevision i = 0 \<and> ci_digest i = []"

definition identity_toString :: "config_identity \<Rightarrow> string" where
  "identity_toString i =
     (if ci_namespace i = [] \<and> ci_name i = [] then ''release'' else ci_namespace i @ ''/'' @ ci_name i) @
     ''@'' @ dec_int (ci_version i) @ ''#'' @ dec_int (ci_activationRevision i) @
     '' schemaVersion='' @ dec_int (ci_schemaVersion i)"

definition identity_toJSON :: "config_identity \<Rightarrow> (string \<times> string) list" where
  "identity_toJSON i =
     [(''namespace'', ci_namespace i), (''name'', ci_name i), (''version'', dec_int (ci_version i)),
      (''activationRevision'', dec_int (ci_activationRevision i))] @
     (if ci_targetRevision i \<noteq> ci_activationRevision i then [(''targetRevision'', dec_int (ci_targetRevision i))] else []) @
     [(''schemaVersion'', dec_int (ci_schemaVersion i)), (''digest'', ci_digest i)]"

definition dedupeKey :: "config_identity \<Rightarrow> string" where
  "dedupeKey i = ci_namespace i @ nul # ci_name i @ nul # dec_int (ci_version i) @ nul #
     dec_int (ci_targetRevision i) @ nul # ci_digest i"

text \<open>The holder of one generation, which hands out copies only. Its root is a plain object.\<close>

record config_snapshot =
  cs_config :: cfg
  cs_release :: config_identity

definition newConfigSnapshot :: "cfg \<Rightarrow> config_identity \<Rightarrow> clone_error + config_snapshot" where
  "newConfigSnapshot config release = sum_bind (cloneConfig config) (\<lambda>c. Inr \<lparr>cs_config = c, cs_release = release\<rparr>)"

definition snapshot_config :: "config_snapshot \<Rightarrow> clone_error + cfg" where
  "snapshot_config s = cloneConfig (cs_config s)"

definition snapshot_get :: "string \<Rightarrow> config_snapshot \<Rightarrow> clone_error + cfg" where
  "snapshot_get key s =
     (case cs_config s of
        ObjV proto ps \<Rightarrow> (case data_prop key ps of None \<Rightarrow> Inr undefined_v | Some v \<Rightarrow> cloneConfig v)
      | _ \<Rightarrow> Inr undefined_v)"

section \<open>The alias contract\<close>

record contract_entry =
  ct_alias :: string
  ct_kind :: string
  ct_contentType :: "string option"

datatype contract_error =
    EmptyContract | AliasNotCanonical | DuplicateAlias | KindInvalid | ContentTypeRequired

fun contract_from :: "string list \<Rightarrow> contract_entry list \<Rightarrow> contract_error + contract_entry list" where
  "contract_from aliases [] = Inr []"
| "contract_from aliases (e # es) =
     (let contentType = case_option [] id (ct_contentType e)
      in if ct_alias e = [] \<or> js_trim (ct_alias e) \<noteq> ct_alias e then Inl AliasNotCanonical
         else if ct_alias e \<in> set aliases then Inl DuplicateAlias
         else if ct_kind e \<noteq> ''parameter'' \<and> ct_kind e \<noteq> ''secret'' then Inl KindInvalid
         else if ct_kind e = ''parameter'' \<and> contentType = [] then Inl ContentTypeRequired
         else sum_bind (contract_from (ct_alias e # aliases) es) (\<lambda>r. Inr (e\<lparr>ct_contentType := Some contentType\<rparr> # r)))"

definition validate_contract :: "contract_entry list \<Rightarrow> contract_error + contract_entry list" where
  "validate_contract contract = (if contract = [] then Inl EmptyContract else contract_from [] contract)"

definition contractMismatch :: cfg_error where
  "contractMismatch = newCandidateError ConfigContractMismatch []"

text \<open>The validator the loader calls before it fetches anything: \<open>None\<close> accepts. The keys of \<open>expected\<close>
  are the aliases, which \<open>validateContract\<close> has found distinct.\<close>

definition entry_matches :: "(string, entry_metadata) jsmap \<Rightarrow> contract_entry \<Rightarrow> bool" where
  "entry_matches actual wanted =
     (case map_get actual (ct_alias wanted) of None \<Rightarrow> False
      | Some e \<Rightarrow> em_alias e = ct_alias wanted \<and> entry_kind_name (em_kind e) = ct_kind wanted \<and>
          (case_option [] id (ct_contentType wanted) = [] \<or> em_contentType e = case_option [] id (ct_contentType wanted)))"

definition manifest_validator :: "contract_entry list \<Rightarrow> release_identity \<Rightarrow> bool \<Rightarrow> cfg_error option" where
  "manifest_validator entries manifest aborted =
     (if aborted then Some AbortedErr
      else if length (ri_entries manifest) \<noteq> length entries then Some contractMismatch
      else if list_all (entry_matches (ri_entries manifest)) entries then None
      else Some contractMismatch)"

definition createManifestValidator ::
  "contract_entry list \<Rightarrow> contract_error + (release_identity \<Rightarrow> bool \<Rightarrow> cfg_error option)" where
  "createManifestValidator contract = sum_bind (validate_contract contract) (\<lambda>entries. Inr (manifest_validator entries))"

section \<open>Reports\<close>

datatype phase = Startup | Runtime

record mismatch_report =
  mr_phase :: phase
  mr_release :: config_identity
  mr_differences :: "field_difference list"

record applied_report =
  ar_phase :: phase
  ar_release :: config_identity
  ar_defaultDivergent :: bool
  ar_changes :: "field_change list"
  ar_groups :: "(string \<times> string) list"

record rejection_report =
  rj_category :: release_category
  rj_release :: config_identity
  rj_paths :: "string list"

definition newDefaultMismatchReport ::
  "phase \<Rightarrow> config_identity \<Rightarrow> field_difference list \<Rightarrow> clone_error + mismatch_report" where
  "newDefaultMismatchReport ph release differences =
     sum_bind (report_differences differences) (\<lambda>ds. Inr \<lparr>mr_phase = ph, mr_release = release, mr_differences = ds\<rparr>)"

text \<open>\<open>copyGroups\<close> lists the documents by alias.\<close>

definition copyGroups :: "(string \<times> string) list \<Rightarrow> (string \<times> string) list" where
  "copyGroups groups = sort_key fst groups"

definition newAppliedReport ::
  "phase \<Rightarrow> config_identity \<Rightarrow> bool \<Rightarrow> field_change list \<Rightarrow> (string \<times> string) list \<Rightarrow> clone_error + applied_report" where
  "newAppliedReport ph release divergent changes groups =
     sum_bind (report_changes changes) (\<lambda>cs. Inr \<lparr>ar_phase = ph, ar_release = release, ar_defaultDivergent = divergent,
       ar_changes = cs, ar_groups = copyGroups groups\<rparr>)"

definition newCandidateRejectionReport :: "release_category \<Rightarrow> config_identity \<Rightarrow> string list \<Rightarrow> rejection_report" where
  "newCandidateRejectionReport category release paths =
     \<lparr>rj_category = (if validRejectionCategory category then category else Internal), rj_release = release,
      rj_paths = sanitizeDiagnosticPaths paths\<rparr>"

fun join_comma :: "string list \<Rightarrow> string" where
  "join_comma [] = []"
| "join_comma [s] = s"
| "join_comma (s # ss) = s @ '','' @ join_comma ss"

fun phase_name :: "phase \<Rightarrow> string" where
  "phase_name Startup = ''startup''"
| "phase_name Runtime = ''runtime''"

definition mismatch_toString :: "mismatch_report \<Rightarrow> string" where
  "mismatch_toString r = ''configstore: default mismatch ('' @ phase_name (mr_phase r) @ ''/error) for '' @
     identity_toString (mr_release r) @ '' fields='' @ join_comma (map fd_path (mr_differences r))"

definition applied_toString :: "applied_report \<Rightarrow> string" where
  "applied_toString r = ''configstore: applied ('' @ phase_name (ar_phase r) @ '') '' @ identity_toString (ar_release r) @
     '' divergent='' @ (if ar_defaultDivergent r then ''true'' else ''false'') @
     '' changed='' @ join_comma (map fc_path (ar_changes r))"

definition rejection_toString :: "rejection_report \<Rightarrow> string" where
  "rejection_toString r = ''configstore: candidate rejection ('' @ release_category_name (rj_category r) @ '') for '' @
     identity_toString (rj_release r) @ '' fields='' @ join_comma (rj_paths r)"

section \<open>Prepared candidates\<close>

text \<open>What the generated binding returns is checked at run time, so its parts may have any shape: a path
  that is no string is \<open>None\<close>, a missing optional part is \<open>None\<close> too.\<close>

datatype 'a raw_list = NotAnArray | Items "'a list"

record raw_difference =
  rd_path :: "string option"
  rd_expected :: cfg
  rd_actual :: cfg

record raw_change =
  rw_path :: "string option"
  rw_previous :: cfg
  rw_current :: cfg

datatype raw_document = Document string | NotAString | AccessorDocument

datatype raw_groups = NotARecord | Groups "(string \<times> raw_document) list"

text \<open>\<open>ca_publish\<close> is \<open>None\<close> when \<open>publish\<close> is no function; otherwise, as for \<open>abort\<close>, what calling it does.\<close>

record managed_candidate =
  ca_publish :: "callback_result option"
  ca_abort :: "callback_result option"
  ca_defaultDifferences :: "raw_difference raw_list option"
  ca_restartRequiredFields :: "string option raw_list option"
  ca_changed :: "raw_change raw_list option"
  ca_groups :: "raw_groups option"

datatype binding_error = ExpectedArray | ExpectedString | ExpectedRecord | ExpectedDataProperty | NotCloneable

definition requireString :: "string option \<Rightarrow> binding_error + string" where
  "requireString v = (case v of None \<Rightarrow> Inl ExpectedString | Some s \<Rightarrow> Inr s)"

definition clone_or_fail :: "cfg \<Rightarrow> binding_error + cfg" where
  "clone_or_fail v = (case cloneConfig v of Inl _ \<Rightarrow> Inl NotCloneable | Inr v' \<Rightarrow> Inr v')"

definition items_of :: "'a raw_list option \<Rightarrow> binding_error + 'a list" where
  "items_of r = (case r of None \<Rightarrow> Inr [] | Some NotAnArray \<Rightarrow> Inl ExpectedArray | Some (Items xs) \<Rightarrow> Inr xs)"

definition cloneDifferences :: "raw_difference raw_list option \<Rightarrow> binding_error + field_difference list" where
  "cloneDifferences raw = sum_bind (items_of raw) (traverse (\<lambda>d.
     sum_bind (requireString (rd_path d)) (\<lambda>path. sum_bind (clone_or_fail (rd_expected d)) (\<lambda>e.
     sum_bind (clone_or_fail (rd_actual d)) (\<lambda>a. Inr \<lparr>fd_path = path, fd_expected = e, fd_actual = a\<rparr>)))))"

definition cloneChanges :: "raw_change raw_list option \<Rightarrow> binding_error + field_change list" where
  "cloneChanges raw = sum_bind (items_of raw) (traverse (\<lambda>c.
     sum_bind (requireString (rw_path c)) (\<lambda>path. sum_bind (clone_or_fail (rw_previous c)) (\<lambda>p.
     sum_bind (clone_or_fail (rw_current c)) (\<lambda>n. Inr \<lparr>fc_path = path, fc_previous = p, fc_current = n\<rparr>)))))"

definition cloneRestartFields :: "string option raw_list option \<Rightarrow> binding_error + string list" where
  "cloneRestartFields raw = sum_bind (items_of raw) (traverse requireString)"

fun group_document :: "string \<times> raw_document \<Rightarrow> binding_error + (string \<times> string)" where
  "group_document (a, Document d) = Inr (a, d)"
| "group_document (a, NotAString) = Inl ExpectedString"
| "group_document (a, AccessorDocument) = Inl ExpectedDataProperty"

definition cloneGroups :: "raw_groups option \<Rightarrow> binding_error + (string \<times> string) list" where
  "cloneGroups raw = (case raw of None \<Rightarrow> Inr [] | Some NotARecord \<Rightarrow> Inl ExpectedRecord
     | Some (Groups gs) \<Rightarrow> traverse group_document gs)"

section \<open>The manager\<close>

text \<open>Which optional observers the application has installed; \<open>onDefaultMismatch\<close> is always there.\<close>

record policy_options =
  mo_name :: string
  mo_onApplied :: bool
  mo_onCandidateRejected :: bool

datatype managed_call =
    MismatchCall mismatch_report
  | AppliedCall applied_report
  | RejectedCall rejection_report
  | PublishCall nat phase "string list" bool callback_result
  | CandidateAbort nat

text \<open>The locals of \<open>#prepareSnapshot\<close> across its \<open>await\<close>, and the closures it returns.\<close>

record preparation =
  pp_identity :: config_identity
  pp_startup :: bool

record managed_prepared =
  mp_identity :: config_identity
  mp_phase :: phase
  mp_divergent :: bool
  mp_fieldCount :: nat
  mp_restart :: "string list"
  mp_changes :: "field_change list"
  mp_groups :: "(string \<times> string) list"
  mp_publish :: callback_result
  mp_abort :: "callback_result option"
  mp_abortCalled :: bool

record managed_state =
  mc_ready :: bool
  mc_observed :: config_identity
  mc_applied :: config_identity
  mc_divergent :: bool
  mc_lastReportedKey :: string
  mc_lastRejectedKey :: string
  mc_preparing :: "(nat, preparation) jsmap"
  mc_prepared :: "(nat, managed_prepared) jsmap"
  mc_completion :: "loader_failure option option"
  mc_calls :: "managed_call list"

definition newManagedConfigManager :: managed_state where
  "newManagedConfigManager = \<lparr>mc_ready = False, mc_observed = no_identity, mc_applied = no_identity, mc_divergent = False,
     mc_lastReportedKey = [], mc_lastRejectedKey = [], mc_preparing = [], mc_prepared = [],
     mc_completion = None, mc_calls = []\<rparr>"

definition notify :: "managed_call \<Rightarrow> managed_state \<Rightarrow> managed_state" where
  "notify c m = m\<lparr>mc_calls := mc_calls m @ [c]\<rparr>"

definition notifyCandidateRejected :: "policy_options \<Rightarrow> config_identity \<Rightarrow> cfg_error \<Rightarrow> managed_state \<Rightarrow> managed_state" where
  "notifyCandidateRejected opts identity err m =
     (case err of
        CandidateErr category paths \<Rightarrow>
          if \<not> mo_onCandidateRejected opts then m
          else let key = dedupeKey identity
               in if mc_lastRejectedKey m = key then m
                  else notify (RejectedCall (newCandidateRejectionReport category identity paths)) (m\<lparr>mc_lastRejectedKey := key\<rparr>)
      | _ \<Rightarrow> m)"

definition reportOnce :: "config_identity \<Rightarrow> mismatch_report \<Rightarrow> managed_state \<Rightarrow> managed_state" where
  "reportOnce identity report m =
     (let key = dedupeKey identity
      in if mc_lastReportedKey m = key then m else notify (MismatchCall report) (m\<lparr>mc_lastReportedKey := key\<rparr>))"

text \<open>A report that cannot be built is dropped with the rest of the \<open>try\<close>.\<close>

definition notifyApplied ::
  "policy_options \<Rightarrow> phase \<Rightarrow> config_identity \<Rightarrow> bool \<Rightarrow> field_change list \<Rightarrow> (string \<times> string) list \<Rightarrow> managed_state \<Rightarrow> managed_state" where
  "notifyApplied opts ph identity divergent changes groups m =
     (if \<not> mo_onApplied opts then m
      else case newAppliedReport ph identity divergent changes groups of
             Inl _ \<Rightarrow> m
           | Inr report \<Rightarrow> notify (AppliedCall report) m)"

definition observeManifest :: "release_identity \<Rightarrow> managed_state \<Rightarrow> managed_state" where
  "observeManifest manifest m =
     (case identity_from manifest of Inl _ \<Rightarrow> m | Inr identity \<Rightarrow> m\<lparr>mc_observed := identity\<rparr>)"

definition rejectManifest :: "policy_options \<Rightarrow> release_identity \<Rightarrow> cfg_error \<Rightarrow> managed_state \<Rightarrow> managed_state" where
  "rejectManifest opts manifest err m =
     (case identity_from manifest of Inl _ \<Rightarrow> m | Inr identity \<Rightarrow> notifyCandidateRejected opts identity err m)"

text \<open>The \<open>validateManifest\<close> hook of \<open>startManagedConfig\<close>: an identity that cannot be built throws before
  the contract is looked at.\<close>

definition validateManifest ::
  "policy_options \<Rightarrow> contract_entry list \<Rightarrow> release_identity \<Rightarrow> bool \<Rightarrow> managed_state \<Rightarrow> cfg_error option \<times> managed_state" where
  "validateManifest opts entries manifest aborted m =
     (case identity_from manifest of
        Inl _ \<Rightarrow> (Some (OtherErr None), m)
      | Inr identity \<Rightarrow>
          let m1 = observeManifest manifest m
          in case manifest_validator entries manifest aborted of
               None \<Rightarrow> (None, m1)
             | Some err \<Rightarrow> (Some err, rejectManifest opts manifest err m1))"

text \<open>\<open>#prepareSnapshot\<close> up to its \<open>await\<close>.\<close>

definition prepare_begin :: "nat \<Rightarrow> release_snapshot \<Rightarrow> managed_state \<Rightarrow> managed_state" where
  "prepare_begin t snapshot m =
     (case identity_from (sn_identity snapshot) of
        Inl _ \<Rightarrow> m
      | Inr identity \<Rightarrow> m\<lparr>mc_observed := identity,
          mc_preparing := map_set t \<lparr>pp_identity = identity, pp_startup = \<not> mc_ready m\<rparr> (mc_preparing m)\<rparr>)"

text \<open>\<open>#abortOrInternal\<close>: the error it throws, if any. A candidate without \<open>abort\<close> has the empty one.\<close>

definition abortOrInternal ::
  "policy_options \<Rightarrow> nat \<Rightarrow> callback_result option \<Rightarrow> config_identity \<Rightarrow> managed_state \<Rightarrow> cfg_error option \<times> managed_state" where
  "abortOrInternal opts t abort identity m =
     (case abort of
        None \<Rightarrow> (None, m)
      | Some result \<Rightarrow>
          let m1 = notify (CandidateAbort t) m
          in if result = ReturnsUndefined then (None, m1)
             else let err = newCandidateError Internal []
                  in (Some err, notifyCandidateRejected opts identity err m1))"

text \<open>The error paths after the \<open>await\<close>: release the candidate, then report and throw.\<close>

definition refuse ::
  "policy_options \<Rightarrow> nat \<Rightarrow> callback_result option \<Rightarrow> config_identity \<Rightarrow> cfg_error \<Rightarrow> managed_state \<Rightarrow> cfg_error \<times> managed_state" where
  "refuse opts t abort identity err m =
     (case abortOrInternal opts t abort identity m of
        (Some err', m1) \<Rightarrow> (err', m1)
      | (None, m1) \<Rightarrow> (err, notifyCandidateRejected opts identity err m1))"

record candidate_parts =
  cp_differences :: "field_difference list"
  cp_restart :: "string list"
  cp_changes :: "field_change list"
  cp_groups :: "(string \<times> string) list"

definition candidate_parts_of :: "bool \<Rightarrow> managed_candidate \<Rightarrow> binding_error + candidate_parts" where
  "candidate_parts_of startup ca =
     sum_bind (cloneDifferences (ca_defaultDifferences ca)) (\<lambda>differences.
     sum_bind (cloneRestartFields (ca_restartRequiredFields ca)) (\<lambda>restartFields.
     sum_bind (cloneChanges (ca_changed ca)) (\<lambda>changes.
     sum_bind (cloneGroups (ca_groups ca)) (\<lambda>groups.
       Inr \<lparr>cp_differences = differences, cp_restart = restartFields,
         cp_changes = (if startup then [] else changes), cp_groups = groups\<rparr>))))"

text \<open>The rest of \<open>#prepareSnapshot\<close>, once the generated \<open>prepare\<close> has thrown or returned; \<open>None\<close> is a
  result that is no object. A mismatch report that cannot be built would be thrown as it is.\<close>

definition admit_candidate ::
  "nat \<Rightarrow> config_identity \<Rightarrow> bool \<Rightarrow> callback_result \<Rightarrow> managed_candidate \<Rightarrow> candidate_parts \<Rightarrow> managed_state
     \<Rightarrow> (cfg_error + managed_prepared) \<times> managed_state" where
  "admit_candidate t identity startup publish ca parts m =
     (let ph = (if startup then Startup else Runtime);
          differences = cp_differences parts;
          divergent = differences \<noteq> [];
          p = \<lparr>mp_identity = identity, mp_phase = ph, mp_divergent = divergent, mp_fieldCount = length differences,
               mp_restart = cp_restart parts, mp_changes = cp_changes parts, mp_groups = cp_groups parts,
               mp_publish = publish, mp_abort = ca_abort ca, mp_abortCalled = False\<rparr>;
          keep = (\<lambda>m'. (Inr p, m'\<lparr>mc_prepared := map_set t p (mc_prepared m')\<rparr>))
      in if \<not> divergent then keep m
         else case newDefaultMismatchReport ph identity differences of
                Inl _ \<Rightarrow> (Inl (OtherErr None), m)
              | Inr report \<Rightarrow> keep (reportOnce identity report m))"

definition prepare_return ::
  "policy_options \<Rightarrow> nat \<Rightarrow> bool \<Rightarrow> cfg_error + managed_candidate option \<Rightarrow> managed_state
     \<Rightarrow> (cfg_error + managed_prepared) \<times> managed_state" where
  "prepare_return opts t aborted outcome m =
     (case map_get (mc_preparing m) t of
        None \<Rightarrow> (Inl (OtherErr None), m)
      | Some pp \<Rightarrow>
          let identity = pp_identity pp;
              startup = pp_startup pp;
              m0 = m\<lparr>mc_preparing := map_del t (mc_preparing m)\<rparr>;
              refused = (\<lambda>abort err. case refuse opts t abort identity err m0 of (e, m1) \<Rightarrow> (Inl e, m1))
          in case outcome of
               Inl err \<Rightarrow> (Inl err, notifyCandidateRejected opts identity err m0)
             | Inr None \<Rightarrow> refused None (newCandidateError ConfigValidationFailed [])
             | Inr (Some ca) \<Rightarrow>
                 (case ca_publish ca of
                    None \<Rightarrow> refused (ca_abort ca) (newCandidateError ConfigValidationFailed [])
                  | Some publish \<Rightarrow>
                      if aborted then refused (ca_abort ca) AbortedErr
                      else case candidate_parts_of startup ca of
                             Inl _ \<Rightarrow> refused (ca_abort ca) (newCandidateError Internal [])
                           | Inr parts \<Rightarrow>
                               if \<not> startup \<and> cp_restart parts \<noteq> []
                               then refused (ca_abort ca) (newCandidateError RestartRequired (cp_restart parts))
                               else admit_candidate t identity startup publish ca parts m0))"

text \<open>What the loader sees of the outcome.\<close>

fun thrown_of :: "cfg_error \<Rightarrow> thrown" where
  "thrown_of (CandidateErr category paths) = Some (release_category_name category)"
| "thrown_of (OtherErr th) = th"
| "thrown_of AbortedErr = None"

definition prepared_reply :: "cfg_error + managed_prepared \<Rightarrow> prepare_reply" where
  "prepared_reply r =
     (case r of
        Inl err \<Rightarrow> PrepareThrows (thrown_of err)
      | Inr p \<Rightarrow> PrepareReturns \<lparr>pr_commit = (if mp_publish p = ReturnsUndefined then ReturnsUndefined else CallbackThrows),
          pr_abort = case_option ReturnsUndefined id (mp_abort p),
          pr_divergence = Report (mp_divergent p) (Some (Finite (real (mp_fieldCount p))))\<rparr>)"

definition commit_prepared :: "policy_options \<Rightarrow> nat \<Rightarrow> managed_state \<Rightarrow> managed_state" where
  "commit_prepared opts t m =
     (case map_get (mc_prepared m) t of
        None \<Rightarrow> m
      | Some p \<Rightarrow>
          let m1 = notify (PublishCall t (mp_phase p) (mp_restart p) (mp_divergent p) (mp_publish p)) m
          in if mp_publish p \<noteq> ReturnsUndefined then m1
             else notifyApplied opts (mp_phase p) (mp_identity p) (mp_divergent p) (mp_changes p) (mp_groups p)
                    (m1\<lparr>mc_applied := mp_identity p, mc_divergent := mp_divergent p, mc_ready := True,
                        mc_lastReportedKey := (if mp_divergent p then mc_lastReportedKey m1 else [])\<rparr>))"

text \<open>\<open>once\<close>: the candidate's \<open>abort\<close> runs on the first call only.\<close>

definition abort_prepared :: "nat \<Rightarrow> managed_state \<Rightarrow> managed_state" where
  "abort_prepared t m =
     (case map_get (mc_prepared m) t of
        None \<Rightarrow> m
      | Some p \<Rightarrow>
          if mp_abortCalled p then m
          else let m1 = m\<lparr>mc_prepared := map_set t (p\<lparr>mp_abortCalled := True\<rparr>) (mc_prepared m)\<rparr>
               in if mp_abort p = None then m1 else notify (CandidateAbort t) m1)"

section \<open>Lifecycle\<close>

text \<open>The checks of \<open>startManagedConfig\<close> before it creates the loader. Booleans say whether an argument is a
  function (the client: whether it can create loaders).\<close>

record start_request =
  sr_client :: bool
  sr_prepare :: bool
  sr_onDefaultMismatch :: bool
  sr_onApplied :: "bool option"
  sr_onCandidateRejected :: bool
  sr_release :: "string option"
  sr_contract :: "contract_entry list"

datatype start_error =
    ClientRequired | PrepareRequired | OnDefaultMismatchRequired | OnAppliedInvalid | ReleaseRequired | ContractInvalid contract_error

definition startManagedConfig :: "start_request \<Rightarrow> start_error + policy_options \<times> contract_entry list" where
  "startManagedConfig rq =
     (if \<not> sr_client rq then Inl ClientRequired
      else if \<not> sr_prepare rq then Inl PrepareRequired
      else if \<not> sr_onDefaultMismatch rq then Inl OnDefaultMismatchRequired
      else if sr_onApplied rq = Some False then Inl OnAppliedInvalid
      else let release = js_trim (case_option [] id (sr_release rq))
           in if release = [] then Inl ReleaseRequired
              else case validate_contract (sr_contract rq) of
                     Inl e \<Rightarrow> Inl (ContractInvalid e)
                   | Inr entries \<Rightarrow> Inr (\<lparr>mo_name = release, mo_onApplied = sr_onApplied rq \<noteq> None,
                       mo_onCandidateRejected = sr_onCandidateRejected rq\<rparr>, entries))"

text \<open>\<open>#completion\<close>: absent, the running loader, or the failure its run ended with. Whether that failure is
  an \<open>AbortError\<close> depends on the reason given to \<open>stop\<close>, and is an argument.\<close>

datatype lifecycle_error = AlreadyStarted | NotStartedYet | LoaderFailed loader_failure

definition start_manager :: "managed_state \<Rightarrow> (lifecycle_error + unit) \<times> managed_state" where
  "start_manager m = (if mc_completion m \<noteq> None then (Inl AlreadyStarted, m) else (Inr (), m\<lparr>mc_completion := Some None\<rparr>))"

definition loader_ended :: "loader_failure \<Rightarrow> managed_state \<Rightarrow> managed_state" where
  "loader_ended f m = (if mc_completion m = Some None then m\<lparr>mc_completion := Some (Some f)\<rparr> else m)"

text \<open>\<open>None\<close>: the promise is still pending.\<close>

definition waitUntilReady :: "managed_state \<Rightarrow> (lifecycle_error + unit) option" where
  "waitUntilReady m =
     (case mc_completion m of
        None \<Rightarrow> Some (Inl NotStartedYet)
      | Some outcome \<Rightarrow> if mc_ready m then Some (Inr ()) else map_option (\<lambda>f. Inl (LoaderFailed f)) outcome)"

definition managed_wait :: "(loader_failure \<Rightarrow> bool) \<Rightarrow> managed_state \<Rightarrow> (lifecycle_error + unit) option" where
  "managed_wait isAbortError m =
     (case mc_completion m of
        None \<Rightarrow> Some (Inl NotStartedYet)
      | Some outcome \<Rightarrow>
          map_option (\<lambda>f. if mc_ready m \<and> isAbortError f then Inr () else Inl (LoaderFailed f)) outcome)"

section \<open>Status\<close>

datatype config_source = Kms | Local

record managed_status =
  st_source :: config_source
  st_state :: "release_state option"
  st_ready :: bool
  st_observed :: config_identity
  st_applied :: config_identity
  st_defaultDivergent :: bool
  st_lastRejectionCategory :: "release_category option"
  st_lastFailureAt :: "real option"
  st_reconnects :: int

definition managed_status_of :: "policy_options \<Rightarrow> mutable_status \<Rightarrow> managed_state \<Rightarrow> identity_error + managed_status" where
  "managed_status_of opts ls m =
     sum_bind (if ci_version (mc_observed m) \<noteq> ms_observedVersion ls \<or> ci_targetRevision (mc_observed m) \<noteq> ms_observedRevision ls
        then newConfigIdentity \<lparr>ii_namespace = Some (ci_namespace (mc_observed m)), ii_name = Some (mo_name opts),
          ii_version = Some (ms_observedVersion ls), ii_activationRevision = Some (ms_observedActivationRevision ls),
          ii_targetRevision = Some (ms_observedRevision ls), ii_schemaVersion = Some (ci_schemaVersion (mc_observed m)),
          ii_digest = None\<rparr>
        else Inr (mc_observed m)) (\<lambda>observed.
     Inr \<lparr>st_source = Kms, st_state = ms_state ls, st_ready = mc_ready m, st_observed = observed, st_applied = mc_applied m,
       st_defaultDivergent = mc_divergent m, st_lastRejectionCategory = ms_lastFailureCategory ls,
       st_lastFailureAt = ms_lastFailureAt ls, st_reconnects = ms_reconnects ls\<rparr>)"

record managed_stats =
  sa_candidates :: int
  sa_applied :: int
  sa_rejected :: "(release_category, int) jsmap"
  sa_reconnects :: int
  sa_defaultDivergent :: bool
  sa_appliedReleaseVersion :: int
  sa_appliedActivationRevision :: int

definition managed_stats_of :: "mutable_stats \<Rightarrow> managed_state \<Rightarrow> managed_stats" where
  "managed_stats_of ls m = \<lparr>sa_candidates = mt_candidates ls, sa_applied = mt_applied ls, sa_rejected = mt_rejected ls,
     sa_reconnects = mt_reconnects ls, sa_defaultDivergent = mc_divergent m,
     sa_appliedReleaseVersion = ci_version (mc_applied m), sa_appliedActivationRevision = ci_activationRevision (mc_applied m)\<rparr>"

text \<open>\<open>LocalConfigManager\<close>: one generation that was never released.\<close>

definition local_status :: managed_status where
  "local_status = \<lparr>st_source = Local, st_state = Some Applied, st_ready = True, st_observed = no_identity, st_applied = no_identity,
     st_defaultDivergent = False, st_lastRejectionCategory = None, st_lastFailureAt = None, st_reconnects = 0\<rparr>"

definition local_stats :: managed_stats where
  "local_stats = \<lparr>sa_candidates = 1, sa_applied = 1, sa_rejected = [], sa_reconnects = 0, sa_defaultDivergent = False,
     sa_appliedReleaseVersion = 0, sa_appliedActivationRevision = 0\<rparr>"

section \<open>Actions\<close>

datatype managed_act =
    MgrStart
  | MgrEnd loader_failure
  | MgrManifest "contract_entry list" release_identity bool
  | MgrPrepare nat release_snapshot
  | MgrReturn nat bool "cfg_error + managed_candidate option"
  | MgrCommit nat
  | MgrAbort nat

fun managed_step :: "policy_options \<Rightarrow> managed_act \<Rightarrow> managed_state \<Rightarrow> managed_state" where
  "managed_step opts MgrStart m = snd (start_manager m)"
| "managed_step opts (MgrEnd f) m = loader_ended f m"
| "managed_step opts (MgrManifest entries manifest aborted) m = snd (validateManifest opts entries manifest aborted m)"
| "managed_step opts (MgrPrepare t s) m = prepare_begin t s m"
| "managed_step opts (MgrReturn t aborted outcome) m = snd (prepare_return opts t aborted outcome m)"
| "managed_step opts (MgrCommit t) m = commit_prepared opts t m"
| "managed_step opts (MgrAbort t) m = abort_prepared t m"

end
