(* ===== verification/Config_Manager_Correct.thy ===== *)
theory Config_Manager_Correct
  imports Config_Manager
begin

text \<open>
  What the managed configuration store guarantees by itself: the manifest validator accepts exactly the
  manifests of the generated contract; every divergent generation is reported, not twice in a row, and
  without secrets; a generation published after another one has no restart-required fields, provided no
  other generation is published between its preparation and its publication.
\<close>

section \<open>The alias contract\<close>

lemma contract_from_Inr:
  "contract_from as es = Inr es' \<Longrightarrow> distinct (map ct_alias es) \<and> set (map ct_alias es) \<inter> set as = {} \<and>
     es' = map (\<lambda>e. e\<lparr>ct_contentType := Some (case_option [] id (ct_contentType e))\<rparr>) es"
proof (induction as es arbitrary: es' rule: contract_from.induct)
  case (2 as e es)
  from "2.prems" obtain r where r: "contract_from (ct_alias e # as) es = Inr r" "ct_alias e \<notin> set as"
    "es' = e\<lparr>ct_contentType := Some (case_option [] id (ct_contentType e))\<rparr> # r"
    by (auto simp: Let_def sum_bind_Inr split: if_splits)
  have "distinct (map ct_alias es) \<and> set (map ct_alias es) \<inter> set (ct_alias e # as) = {} \<and>
     r = map (\<lambda>e. e\<lparr>ct_contentType := Some (case_option [] id (ct_contentType e))\<rparr>) es"
    using "2.prems" r(1) by (intro "2.IH"[OF refl]) (auto simp: Let_def split: if_splits)
  then show ?case using r(2,3) by auto
qed simp

lemma same_keys:
  assumes "distinct xs" "distinct ys" "length xs = length ys" "set xs \<subseteq> set ys"
  shows "set xs = set ys"
  using assms by (metis card_subset_eq distinct_card finite_set)

text \<open>C24: the manifest validator is exact. For a contract the generated code can be started with, a
  signal that is not aborted and any manifest, the validator built from it lets the loader go on exactly when the manifest has the
  aliases of the contract and no others, each under its own name, of the declared kind and, where the
  contract names one, of the declared content type.\<close>

theorem manifest_contract_exact:
  assumes "createManifestValidator contract = Inr validator" "map_ok (ri_entries manifest)"
  shows "validator manifest False = None \<longleftrightarrow>
    set (map_keys (ri_entries manifest)) = ct_alias ` set contract \<and>
    (\<forall>w \<in> set contract. \<exists>e. map_get (ri_entries manifest) (ct_alias w) = Some e \<and> em_alias e = ct_alias w \<and>
       entry_kind_name (em_kind e) = ct_kind w \<and>
       (\<forall>ty. ct_contentType w = Some ty \<longrightarrow> ty \<noteq> [] \<longrightarrow> em_contentType e = ty))"
proof -
  let ?f = "\<lambda>e. e\<lparr>ct_contentType := Some (case_option [] id (ct_contentType e))\<rparr>"
  let ?m = "ri_entries manifest"
  have c: "distinct (map ct_alias contract)" "validator = manifest_validator (map ?f contract)"
    using assms(1) contract_from_Inr [of "[]" contract]
    by (auto simp: createManifestValidator_def validate_contract_def sum_bind_Inr split: if_splits)
  have each: "entry_matches ?m (?f w) \<longleftrightarrow> (\<exists>e. map_get ?m (ct_alias w) = Some e \<and> em_alias e = ct_alias w \<and>
       entry_kind_name (em_kind e) = ct_kind w \<and> (\<forall>ty. ct_contentType w = Some ty \<longrightarrow> ty \<noteq> [] \<longrightarrow> em_contentType e = ty))" for w
    by (auto simp: entry_matches_def split: option.split)
  have keys: "distinct (map_keys ?m)" using assms(2) by (simp add: map_ok_def)
  have "length ?m = length contract \<longleftrightarrow> set (map_keys ?m) = ct_alias ` set contract"
    if "\<forall>w \<in> set contract. entry_matches ?m (?f w)"
  proof -
    have "ct_alias ` set contract \<subseteq> set (map_keys ?m)" using that unfolding each by (force dest: map_get_in)
    then show ?thesis using same_keys [OF c(1) keys] c(1) keys
      by (metis distinct_card length_map list.set_map)
  qed
  then show ?thesis unfolding c(2) by (auto simp: manifest_validator_def list_all_iff each split: if_splits)
qed

definition demo_contract :: "contract_entry list" where
  "demo_contract = [\<lparr>ct_alias = ''db'', ct_kind = ''parameter'', ct_contentType = Some ''json''\<rparr>]"

definition demo_manifest :: release_identity where
  "demo_manifest = \<lparr>ri_namespace = ''e/a'', ri_name = ''r'', ri_version = 1, ri_activationRevision = 1, ri_targetRevision = 1,
     ri_schemaVersion = 0, ri_digest = [], ri_metadataJson = [],
     ri_entries = [(''db'', \<lparr>em_alias = ''db'', em_kind = ParameterEntry, em_path = [], em_version = 1,
        em_contentType = ''json'', em_metadataJson = [], em_parameterDigest = []\<rparr>)]\<rparr>"

lemma trim_db: "js_trim ''db'' = ''db''"
  by code_simp

theorem manifest_contract_exact_witness:
  "\<exists>validator. createManifestValidator demo_contract = Inr validator \<and> map_ok (ri_entries demo_manifest) \<and>
     validator demo_manifest False = None"
proof -
  obtain v where v: "createManifestValidator demo_contract = Inr v"
    by (simp add: createManifestValidator_def validate_contract_def demo_contract_def trim_db)
  have ok: "map_ok (ri_entries demo_manifest)" by (simp add: demo_manifest_def)
  show ?thesis using v ok manifest_contract_exact [OF v ok]
    by (simp add: demo_contract_def demo_manifest_def map_get_def)
qed

section \<open>Reports\<close>

text \<open>The key of the last report, as the calls made so far determine it.\<close>

fun key_after :: "managed_call \<Rightarrow> string \<Rightarrow> string" where
  "key_after (MismatchCall r) k = dedupeKey (mr_release r)"
| "key_after (PublishCall t ph restart divergent res) k = (if \<not> divergent \<and> res = ReturnsUndefined then [] else k)"
| "key_after _ k = k"

definition last_key :: "managed_call list \<Rightarrow> string" where
  "last_key calls = fold key_after calls []"

fun clean_publish :: "managed_call \<Rightarrow> bool" where
  "clean_publish (PublishCall t ph restart divergent res) \<longleftrightarrow> \<not> divergent \<and> res = ReturnsUndefined"
| "clean_publish _ \<longleftrightarrow> False"

fun reports_release :: "string \<Rightarrow> managed_call \<Rightarrow> bool" where
  "reports_release k (MismatchCall r) \<longleftrightarrow> dedupeKey (mr_release r) = k"
| "reports_release k _ \<longleftrightarrow> False"

fun secret_free :: "managed_call \<Rightarrow> bool" where
  "secret_free (MismatchCall r) \<longleftrightarrow>
     mr_differences r \<noteq> [] \<and> (\<forall>d \<in> set (mr_differences r). \<not> containsSecret (fd_expected d) \<and> \<not> containsSecret (fd_actual d))"
| "secret_free (AppliedCall r) \<longleftrightarrow>
     (ar_phase r = Startup \<longrightarrow> ar_changes r = []) \<and>
     (\<forall>c \<in> set (ar_changes r). \<not> containsSecret (fc_previous c) \<and> \<not> containsSecret (fc_current c))"
| "secret_free _ \<longleftrightarrow> True"

fun plain_call :: "managed_call \<Rightarrow> bool" where
  "plain_call (MismatchCall r) \<longleftrightarrow> False"
| "plain_call (PublishCall t ph restart divergent res) \<longleftrightarrow> False"
| "plain_call _ \<longleftrightarrow> True"

lemma last_key_snoc [simp]: "last_key (cs @ [c]) = key_after c (last_key cs)"
  by (simp add: last_key_def)

lemma key_after_plain [simp]: "plain_call c \<Longrightarrow> key_after c k = k"
  by (cases c) simp_all

lemma dedupeKey_nonempty [simp]: "dedupeKey i \<noteq> []"
  by (simp add: dedupeKey_def)

lemma last_key_in: "last_key cs \<noteq> [] \<Longrightarrow> \<exists>c \<in> set cs. reports_release (last_key cs) c"
proof (induction cs rule: rev_induct)
  case (snoc c cs)
  then show ?case by (cases c) (auto split: if_splits)
qed (simp add: last_key_def)

text \<open>No report while the same release is the last one reported.\<close>

definition fresh_reports :: "managed_call list \<Rightarrow> bool" where
  "fresh_reports cs \<longleftrightarrow> (\<forall>pre r post. cs = pre @ MismatchCall r # post \<longrightarrow> last_key pre \<noteq> dedupeKey (mr_release r))"

lemma fresh_reports_snoc:
  "fresh_reports (cs @ [c]) \<longleftrightarrow> fresh_reports cs \<and> (\<forall>r. c = MismatchCall r \<longrightarrow> last_key cs \<noteq> dedupeKey (mr_release r))"
proof -
  have eq: "(cs @ [c] = pre @ MismatchCall r # post) \<longleftrightarrow>
     (post = [] \<and> pre = cs \<and> c = MismatchCall r \<or> (\<exists>post'. post = post' @ [c] \<and> cs = pre @ MismatchCall r # post'))" for pre r post
    by (cases post rule: rev_cases) auto
  show ?thesis unfolding fresh_reports_def eq by blast
qed

definition report_inv :: "managed_state \<Rightarrow> bool" where
  "report_inv m \<longleftrightarrow> mc_lastReportedKey m = last_key (mc_calls m) \<and> fresh_reports (mc_calls m) \<and>
     list_all secret_free (mc_calls m) \<and>
     (\<forall>t p. map_get (mc_prepared m) t = Some p \<longrightarrow>
        (mp_divergent p \<longrightarrow> list_ex (reports_release (dedupeKey (mp_identity p))) (mc_calls m)) \<and>
        (mp_phase p = Startup \<longrightarrow> mp_changes p = []))"

lemma report_inv_cong:
  assumes "report_inv m" "mc_calls m' = mc_calls m" "mc_prepared m' = mc_prepared m" "mc_lastReportedKey m' = mc_lastReportedKey m"
  shows "report_inv m'"
  using assms by (simp add: report_inv_def)

lemma report_inv_notify:
  assumes "report_inv m" "plain_call c" "secret_free c"
  shows "report_inv (notify c m)"
  using assms by (auto simp: report_inv_def notify_def fresh_reports_snoc)

lemma report_inv_rejected: "report_inv m \<Longrightarrow> report_inv (notifyCandidateRejected opts identity err m)"
  unfolding notifyCandidateRejected_def
  by (auto simp: Let_def intro!: report_inv_notify elim: report_inv_cong split: cfg_error.split)

lemma report_inv_abort: "report_inv m \<Longrightarrow> report_inv (snd (abortOrInternal opts t abort identity m))"
  by (auto simp: abortOrInternal_def Let_def intro!: report_inv_rejected report_inv_notify split: option.split)

lemma report_inv_refuse: "report_inv m \<Longrightarrow> report_inv (snd (refuse opts t abort identity err m))"
  using report_inv_abort [of m opts t abort identity]
  by (auto simp: refuse_def intro!: report_inv_rejected split: prod.split option.split)

text \<open>Building the reports cannot fail: what they are built from has already been cloned.\<close>

lemma cloned_again:
  assumes "cloneConfig v = Inr v'"
  shows "\<exists>r. cloneReportValue v' = Inr r"
  using assms cloneValue_same(1) by (auto simp: cloneReportValue_def cloneConfig_def)

lemma traverse_ok: "\<forall>x \<in> set xs. \<exists>y. f x = Inr y \<Longrightarrow> \<exists>ys. traverse f xs = Inr ys"
  by (induction xs) auto

lemma report_differences_total:
  assumes "cloneDifferences raw = Inr ds"
  shows "\<exists>rs. report_differences ds = Inr rs"
proof -
  have "\<exists>e a. cloneReportValue (fd_expected d) = Inr e \<and> cloneReportValue (fd_actual d) = Inr a" if "d \<in> set ds" for d
  proof -
    from assms that obtain x :: raw_difference where "clone_or_fail (rd_expected x) = Inr (fd_expected d)" "clone_or_fail (rd_actual x) = Inr (fd_actual d)"
      unfolding cloneDifferences_def sum_bind_Inr by (auto dest!: traverse_from simp: sum_bind_Inr)
    then have "cloneConfig (rd_expected x) = Inr (fd_expected d)" "cloneConfig (rd_actual x) = Inr (fd_actual d)"
      by (auto simp: clone_or_fail_def split: sum.splits)
    then show ?thesis using cloned_again by blast
  qed
  then show ?thesis unfolding report_differences_def by (intro traverse_ok) (force simp: sum_bind_Inr)
qed

lemma report_differences_free:
  assumes "report_differences ds = Inr rs" "d \<in> set rs"
  shows "\<not> containsSecret (fd_expected d) \<and> \<not> containsSecret (fd_actual d)"
proof -
  obtain i where "i < length rs" "d = rs ! i" using assms(2) by (auto simp: in_set_conv_nth)
  then show ?thesis using report_differences_Inr(1) [OF assms(1)]
    by (auto simp: difference_reported_def reported_no_secret dest!: list_all2_nthD2)
qed

lemma report_changes_free:
  assumes "report_changes cs = Inr rs" "c \<in> set rs"
  shows "\<not> containsSecret (fc_previous c) \<and> \<not> containsSecret (fc_current c)"
proof -
  obtain i where "i < length rs" "c = rs ! i" using assms(2) by (auto simp: in_set_conv_nth)
  then show ?thesis using report_changes_Inr [OF assms(1)]
    by (auto simp: change_reported_def reported_no_secret dest!: list_all2_nthD2)
qed

lemma report_inv_applied:
  assumes "report_inv m" "ph = Startup \<longrightarrow> changes = []"
  shows "report_inv (notifyApplied opts ph identity divergent changes groups m)"
proof (cases "newAppliedReport ph identity divergent changes groups")
  case (Inr report)
  then obtain rs where rs: "report_changes changes = Inr rs" "ar_changes report = rs" "ar_phase report = ph"
    by (auto simp: newAppliedReport_def sum_bind_Inr)
  have "secret_free (AppliedCall report)" using rs report_changes_free [OF rs(1)] assms(2) by (auto simp: report_changes_def)
  then show ?thesis using assms(1) Inr by (simp add: notifyApplied_def report_inv_notify)
qed (use assms in \<open>simp add: notifyApplied_def\<close>)

lemma report_inv_once:
  assumes "report_inv m" "newDefaultMismatchReport ph identity ds = Inr report" "ds \<noteq> []"
  shows "report_inv (reportOnce identity report m)" "list_ex (reports_release (dedupeKey identity)) (mc_calls (reportOnce identity report m))"
    "mc_prepared (reportOnce identity report m) = mc_prepared m" "mc_preparing (reportOnce identity report m) = mc_preparing m"
    "mc_ready (reportOnce identity report m) = mc_ready m"
proof -
  from assms(2) obtain rs where rs: "report_differences ds = Inr rs" "report = \<lparr>mr_phase = ph, mr_release = identity, mr_differences = rs\<rparr>"
    by (auto simp: newDefaultMismatchReport_def sum_bind_Inr)
  have "rs \<noteq> []" using rs(1) assms(3) by (auto simp: report_differences_def dest: traverse_length)
  then have free: "secret_free (MismatchCall report)" using rs report_differences_free [OF rs(1)] by auto
  show "report_inv (reportOnce identity report m)" using assms(1) free
    by (auto simp: reportOnce_def Let_def report_inv_def notify_def fresh_reports_snoc rs(2))
  show "list_ex (reports_release (dedupeKey identity)) (mc_calls (reportOnce identity report m))"
    using assms(1) last_key_in [of "mc_calls m"] by (auto simp: reportOnce_def Let_def notify_def report_inv_def rs(2) list_ex_iff)
qed (simp_all add: reportOnce_def Let_def notify_def)

lemma report_inv_admit:
  assumes "report_inv m" "candidate_parts_of startup ca = Inr parts"
  shows "report_inv (snd (admit_candidate t identity startup publish ca parts m))"
proof -
  from assms(2) have ch: "startup \<longrightarrow> cp_changes parts = []" "\<exists>raw. cloneDifferences raw = Inr (cp_differences parts)"
    by (auto simp: candidate_parts_of_def sum_bind_Inr)
  have keep: "report_inv (m'\<lparr>mc_prepared := map_set t p (mc_prepared m')\<rparr>)"
    if "report_inv m'" "mp_divergent p \<longrightarrow> list_ex (reports_release (dedupeKey (mp_identity p))) (mc_calls m')"
      "mp_phase p = Startup \<longrightarrow> mp_changes p = []" for m' p
    using that by (auto simp: report_inv_def)
  show ?thesis
  proof (cases "cp_differences parts = []")
    case True
    then show ?thesis using assms(1) ch(1) by (auto simp: admit_candidate_def Let_def intro!: keep)
  next
    case False
    let ?ph = "if startup then Startup else Runtime"
    obtain report where r: "newDefaultMismatchReport ?ph identity (cp_differences parts) = Inr report"
      using report_differences_total ch(2) by (fastforce simp: newDefaultMismatchReport_def)
    show ?thesis using False r ch(1) report_inv_once(1,2) [OF assms(1) r False]
      by (auto simp: admit_candidate_def Let_def intro!: keep)
  qed
qed

lemma report_inv_return: "report_inv m \<Longrightarrow> report_inv (snd (prepare_return opts t aborted outcome m))"
proof (cases "map_get (mc_preparing m) t")
  case (Some pp)
  assume inv: "report_inv m"
  let ?m0 = "m\<lparr>mc_preparing := map_del t (mc_preparing m)\<rparr>"
  have inv0: "report_inv ?m0" using inv by (rule report_inv_cong) simp_all
  have ref: "report_inv (snd (case refuse opts t ab (pp_identity pp) err ?m0 of (e, m1) \<Rightarrow> (Inl e, m1)))" for ab err
    using report_inv_refuse [OF inv0, of opts t ab "pp_identity pp" err] by (auto split: prod.split)
  show ?thesis using Some ref report_inv_rejected [OF inv0] report_inv_admit [OF inv0]
    by (auto simp: prepare_return_def Let_def split: sum.split option.split)
qed (simp add: prepare_return_def)

lemma report_inv_commit: "report_inv m \<Longrightarrow> report_inv (commit_prepared opts t m)"
proof (cases "map_get (mc_prepared m) t")
  case (Some p)
  assume inv: "report_inv m"
  let ?c = "PublishCall t (mp_phase p) (mp_restart p) (mp_divergent p) (mp_publish p)"
  let ?m1 = "(notify ?c m)\<lparr>mc_applied := mp_identity p, mc_divergent := mp_divergent p, mc_ready := True,
     mc_lastReportedKey := (if mp_divergent p then mc_lastReportedKey m else [])\<rparr>"
  have ph: "mp_phase p = Startup \<longrightarrow> mp_changes p = []" using inv Some by (simp add: report_inv_def)
  show ?thesis
  proof (cases "mp_publish p = ReturnsUndefined")
    case True
    have "report_inv ?m1" using inv True by (auto simp: report_inv_def notify_def fresh_reports_snoc)
    from report_inv_applied [OF this ph, of opts "mp_identity p" "mp_divergent p" "mp_groups p"] show ?thesis using Some True
      by (cases "mp_divergent p") (simp_all add: commit_prepared_def Let_def notify_def)
  next
    case False
    then have "report_inv (notify ?c m)" using inv by (auto simp: report_inv_def notify_def fresh_reports_snoc)
    then show ?thesis using Some False by (simp add: commit_prepared_def Let_def)
  qed
qed (simp add: commit_prepared_def)

lemma report_inv_abort_prepared: "report_inv m \<Longrightarrow> report_inv (abort_prepared t m)"
proof (cases "map_get (mc_prepared m) t")
  case (Some p)
  assume inv: "report_inv m"
  let ?m1 = "m\<lparr>mc_prepared := map_set t (p\<lparr>mp_abortCalled := True\<rparr>) (mc_prepared m)\<rparr>"
  have "report_inv ?m1" using inv Some by (auto simp: report_inv_def)
  then show ?thesis using inv Some by (auto simp: abort_prepared_def Let_def intro!: report_inv_notify)
qed (simp add: abort_prepared_def)

lemma report_inv_manifest: "report_inv m \<Longrightarrow> report_inv (snd (validateManifest opts entries manifest aborted m))"
proof -
  assume inv: "report_inv m"
  have "report_inv (observeManifest manifest m)"
    using inv by (rule report_inv_cong) (simp_all add: observeManifest_def split: sum.split)
  then show ?thesis using inv
    by (auto simp: validateManifest_def Let_def rejectManifest_def intro!: report_inv_rejected split: sum.split option.split)
qed

lemma report_inv_step: "report_inv m \<Longrightarrow> report_inv (managed_step opts act m)"
proof (cases act)
  case MgrStart
  assume "report_inv m"
  then show ?thesis using MgrStart by (auto simp: start_manager_def elim!: report_inv_cong)
next
  case (MgrEnd f)
  assume "report_inv m"
  then show ?thesis using MgrEnd by (auto simp: loader_ended_def elim!: report_inv_cong)
next
  case (MgrPrepare t s)
  assume "report_inv m"
  then show ?thesis using MgrPrepare by (auto simp: prepare_begin_def elim!: report_inv_cong split: sum.split)
qed (simp_all add: report_inv_manifest report_inv_return report_inv_commit report_inv_abort_prepared)

interpretation managed_sys: invariant_system "managed_step opts" report_inv for opts
  by unfold_locales (rule report_inv_step)

lemma report_inv_run: "report_inv (run (managed_step opts) acts newManagedConfigManager)"
  by (rule managed_sys.inv_run) (simp add: report_inv_def newManagedConfigManager_def last_key_def fresh_reports_def)

lemma key_kept:
  assumes "\<forall>c \<in> set cs. \<not> clean_publish c \<and> (\<forall>r. c = MismatchCall r \<longrightarrow> dedupeKey (mr_release r) = k)"
  shows "fold key_after cs k = k"
  using assms
proof (induction cs)
  case (Cons c cs)
  then have "key_after c k = k" by (cases c) auto
  then show ?case using Cons by simp
qed simp

text \<open>C22: default drift is always reported, without secrets and without noise. In every run of the
  manager, each candidate it has accepted with values that differ from the source defaults has been
  reported to \<open>onDefaultMismatch\<close> under its release; between two reports of one release there is a report
  of another release or the publication of a generation without differences; no report is empty; and no
  value handed to the mismatch or applied observers contains a secret.\<close>

theorem mismatch_reported:
  assumes "m = run (managed_step opts) acts newManagedConfigManager"
  shows "(\<forall>t p. map_get (mc_prepared m) t = Some p \<longrightarrow> mp_divergent p \<longrightarrow>
       (\<exists>r. MismatchCall r \<in> set (mc_calls m) \<and> dedupeKey (mr_release r) = dedupeKey (mp_identity p))) \<and>
    (\<forall>a r b r' c. mc_calls m = a @ MismatchCall r # b @ MismatchCall r' # c \<longrightarrow>
       dedupeKey (mr_release r) = dedupeKey (mr_release r') \<longrightarrow>
       (\<exists>x \<in> set b. clean_publish x \<or> (\<exists>q. x = MismatchCall q \<and> dedupeKey (mr_release q) \<noteq> dedupeKey (mr_release r)))) \<and>
    (\<forall>call \<in> set (mc_calls m). secret_free call)"
proof -
  have inv: "report_inv m" unfolding assms by (rule report_inv_run)
  have part: "\<exists>x \<in> set b. clean_publish x \<or> (\<exists>q. x = MismatchCall q \<and> dedupeKey (mr_release q) \<noteq> dedupeKey (mr_release r))"
    if "mc_calls m = a @ MismatchCall r # b @ MismatchCall r' # c" "dedupeKey (mr_release r) = dedupeKey (mr_release r')" for a r b r' c
  proof (rule ccontr)
    assume "\<not> ?thesis"
    then have "fold key_after b (dedupeKey (mr_release r)) = dedupeKey (mr_release r)" by (intro key_kept) blast
    then have "last_key (a @ MismatchCall r # b) = dedupeKey (mr_release r')" using that(2) by (simp add: last_key_def)
    moreover have "mc_calls m = (a @ MismatchCall r # b) @ MismatchCall r' # c" using that(1) by simp
    ultimately show False using inv unfolding report_inv_def fresh_reports_def by blast
  qed
  have "\<exists>r. MismatchCall r \<in> set (mc_calls m) \<and> dedupeKey (mr_release r) = dedupeKey (mp_identity p)"
    if "map_get (mc_prepared m) t = Some p" "mp_divergent p" for t p
  proof -
    have "list_ex (reports_release (dedupeKey (mp_identity p))) (mc_calls m)" using inv that unfolding report_inv_def by blast
    then obtain x where x: "x \<in> set (mc_calls m)" "reports_release (dedupeKey (mp_identity p)) x" unfolding list_ex_iff by blast
    show ?thesis by (cases x) (use x in auto)
  qed
  then show ?thesis using part inv by (auto simp: report_inv_def list_all_iff)
qed

definition managed_demo_opts :: policy_options where
  "managed_demo_opts = \<lparr>mo_name = ''r'', mo_onApplied = True, mo_onCandidateRejected = True\<rparr>"

definition managed_demo_snapshot :: release_snapshot where
  "managed_demo_snapshot = \<lparr>sn_identity = demo_manifest, sn_parameters = [], sn_secrets = []\<rparr>"

definition managed_demo_candidate :: "string option raw_list \<Rightarrow> managed_candidate" where
  "managed_demo_candidate restart = \<lparr>ca_publish = Some ReturnsUndefined, ca_abort = None,
     ca_defaultDifferences = Some (Items [\<lparr>rd_path = Some ''port'', rd_expected = Prim PNull, rd_actual = Prim (PBigint 1)\<rparr>]),
     ca_restartRequiredFields = Some restart, ca_changed = None, ca_groups = None\<rparr>"

definition managed_demo_acts :: "managed_act list" where
  "managed_demo_acts = [MgrPrepare 0 managed_demo_snapshot, MgrReturn 0 False (Inr (Some (managed_demo_candidate (Items [])))), MgrCommit 0]"

lemma demo_identity: "identity_from demo_manifest = Inr \<lparr>ci_namespace = ''e/a'', ci_name = ''r'', ci_version = 1,
    ci_activationRevision = 1, ci_targetRevision = 1, ci_schemaVersion = 0, ci_digest = []\<rparr>"
  by (simp add: identity_from_def newConfigIdentity_def assertUint64_def in_uint64_def UINT64_MAX_def demo_manifest_def)

lemmas managed_eval = prepare_begin_def prepare_return_def candidate_parts_of_def cloneDifferences_def cloneRestartFields_def
  cloneChanges_def cloneGroups_def items_of_def requireString_def clone_or_fail_def cloneConfig_def admit_candidate_def
  newDefaultMismatchReport_def report_differences_def cloneReportValue_def containsSecret_def reportOnce_def notify_def
  commit_prepared_def notifyApplied_def newAppliedReport_def report_changes_def Let_def newManagedConfigManager_def
  map_get_Cons map_del_def

theorem mismatch_reported_witness:
  "\<exists>p r. map_get (mc_prepared (run (managed_step managed_demo_opts) managed_demo_acts newManagedConfigManager)) 0 = Some p \<and> mp_divergent p \<and>
     MismatchCall r \<in> set (mc_calls (run (managed_step managed_demo_opts) managed_demo_acts newManagedConfigManager)) \<and>
     dedupeKey (mr_release r) = dedupeKey (mp_identity p)"
proof -
  let ?m = "run (managed_step managed_demo_opts) managed_demo_acts newManagedConfigManager"
  have "\<exists>p. map_get (mc_prepared ?m) 0 = Some p \<and> mp_divergent p"
    by (simp add: managed_demo_acts_def managed_demo_snapshot_def managed_demo_candidate_def demo_identity managed_eval managed_demo_opts_def)
  then show ?thesis using mismatch_reported [OF refl, of managed_demo_opts managed_demo_acts] by blast
qed

section \<open>Restart-required fields\<close>

fun successful :: "managed_call \<Rightarrow> bool" where
  "successful (PublishCall t ph restart divergent res) \<longleftrightarrow> res = ReturnsUndefined"
| "successful _ \<longleftrightarrow> False"

fun is_publish :: "managed_call \<Rightarrow> bool" where
  "is_publish (PublishCall t ph restart divergent res) \<longleftrightarrow> True"
| "is_publish _ \<longleftrightarrow> False"

text \<open>The calls other than publications leave the publications and everything the guard looks at alone.\<close>

definition publishes :: "managed_state \<Rightarrow> managed_call list" where
  "publishes m = filter is_publish (mc_calls m)"

definition quiet :: "managed_state \<Rightarrow> managed_state \<Rightarrow> bool" where
  "quiet m m' \<longleftrightarrow> publishes m' = publishes m \<and> mc_ready m' = mc_ready m \<and> mc_prepared m' = mc_prepared m \<and>
     mc_preparing m' = mc_preparing m"

lemma quiet_trans: "quiet m m' \<Longrightarrow> quiet m' m'' \<Longrightarrow> quiet m m''"
  by (simp add: quiet_def)

lemma quiet_notify: "\<not> is_publish c \<Longrightarrow> quiet m (notify c m)"
  by (simp add: quiet_def publishes_def notify_def)

lemma quiet_rejected: "quiet m (notifyCandidateRejected opts identity err m)"
  by (auto simp: notifyCandidateRejected_def quiet_def publishes_def notify_def Let_def split: cfg_error.split)

lemma quiet_once: "quiet m (reportOnce identity report m)"
  by (simp add: reportOnce_def quiet_def publishes_def notify_def Let_def)

lemma quiet_applied: "quiet m (notifyApplied opts ph identity divergent changes groups m)"
  by (simp add: notifyApplied_def quiet_def publishes_def notify_def split: sum.split)

lemma quiet_refuse: "quiet m (snd (refuse opts t abort identity err m))"
proof -
  have "quiet m (snd (abortOrInternal opts t abort identity m))"
    using quiet_rejected quiet_notify [of "CandidateAbort t" m]
    by (auto simp: abortOrInternal_def Let_def quiet_def split: option.split)
  then show ?thesis unfolding refuse_def
    by (cases "abortOrInternal opts t abort identity m") (auto intro: quiet_trans quiet_rejected split: option.split)
qed

lemma quiet_manifest: "quiet m (snd (validateManifest opts entries manifest aborted m))"
  using quiet_rejected
  by (auto simp: validateManifest_def observeManifest_def rejectManifest_def Let_def quiet_def publishes_def split: sum.split option.split)

lemma admit_effect:
  fixes identity :: config_identity
  assumes "m' = snd (admit_candidate t identity startup publish ca parts m)" "startup \<or> cp_restart parts = []"
  shows "publishes m' = publishes m \<and> mc_ready m' = mc_ready m \<and> mc_preparing m' = mc_preparing m"
    "map_get (mc_prepared m') t' = Some p \<Longrightarrow> map_get (mc_prepared m) t' = Some p \<or>
       t' = t \<and> (mp_phase p = Startup \<longleftrightarrow> startup) \<and> (mp_phase p = Runtime \<longrightarrow> mp_restart p = [])"
proof -
  have q: "quiet m (reportOnce identity r m)" for r by (rule quiet_once)
  show "publishes m' = publishes m \<and> mc_ready m' = mc_ready m \<and> mc_preparing m' = mc_preparing m" unfolding assms(1)
    using q by (auto simp: admit_candidate_def Let_def quiet_def publishes_def split: sum.split)
  show "map_get (mc_prepared m) t' = Some p \<or> t' = t \<and> (mp_phase p = Startup \<longleftrightarrow> startup) \<and> (mp_phase p = Runtime \<longrightarrow> mp_restart p = [])"
    if "map_get (mc_prepared m') t' = Some p"
    using that assms(2) q unfolding assms(1)
    by (auto simp: admit_candidate_def Let_def quiet_def split: sum.splits if_splits)
qed

lemma return_cases:
  assumes "m' = snd (prepare_return opts t aborted outcome m)"
  obtains (same) "m' = m"
  | (quiet) pp where "map_get (mc_preparing m) t = Some pp" "quiet (m\<lparr>mc_preparing := map_del t (mc_preparing m)\<rparr>) m'"
  | (admitted) pp publish ca parts where "map_get (mc_preparing m) t = Some pp" "pp_startup pp \<or> cp_restart parts = []"
      "m' = snd (admit_candidate t (pp_identity pp) (pp_startup pp) publish ca parts (m\<lparr>mc_preparing := map_del t (mc_preparing m)\<rparr>))"
proof (cases "map_get (mc_preparing m) t")
  case None
  then show ?thesis using assms same by (simp add: prepare_return_def)
next
  case (Some pp)
  let ?m0 = "m\<lparr>mc_preparing := map_del t (mc_preparing m)\<rparr>"
  have ref: "quiet ?m0 (snd (case refuse opts t ab (pp_identity pp) err ?m0 of (e, m1) \<Rightarrow> (Inl e, m1)))" for ab err
    using quiet_refuse [of ?m0 opts t ab "pp_identity pp" err] by (auto split: prod.split)
  have rej: "quiet ?m0 (notifyCandidateRejected opts (pp_identity pp) err ?m0)" for err by (rule quiet_rejected)
  have "quiet ?m0 m' \<or> (\<exists>ca publish parts. (pp_startup pp \<or> cp_restart parts = []) \<and>
      m' = snd (admit_candidate t (pp_identity pp) (pp_startup pp) publish ca parts ?m0))"
    using assms Some
    by (cases outcome; cases "projr outcome"; cases "ca_publish (the (projr outcome))"; cases aborted;
        cases "candidate_parts_of (pp_startup pp) (the (projr outcome))")
      (auto simp: prepare_return_def Let_def ref rej split: if_splits)
  then show ?thesis using admitted quiet Some by blast
qed

lemma return_effect:
  assumes "m' = snd (prepare_return opts t aborted outcome m)"
  shows "publishes m' = publishes m \<and> mc_ready m' = mc_ready m"
    and "map_get (mc_preparing m') t' = Some pp \<Longrightarrow> map_get (mc_preparing m) t' = Some pp"
    and "map_get (mc_prepared m') t' = Some p \<Longrightarrow> map_get (mc_prepared m) t' = Some p \<or>
       t' = t \<and> (\<exists>pp. map_get (mc_preparing m) t = Some pp \<and> (mp_phase p = Startup \<longleftrightarrow> pp_startup pp)) \<and>
         (mp_phase p = Runtime \<longrightarrow> mp_restart p = [])"
proof -
  have "(publishes m' = publishes m \<and> mc_ready m' = mc_ready m) \<and>
    (map_get (mc_preparing m') t' = Some pp \<longrightarrow> map_get (mc_preparing m) t' = Some pp) \<and>
    (map_get (mc_prepared m') t' = Some p \<longrightarrow> map_get (mc_prepared m) t' = Some p \<or>
       t' = t \<and> (\<exists>pp. map_get (mc_preparing m) t = Some pp \<and> (mp_phase p = Startup \<longleftrightarrow> pp_startup pp)) \<and>
         (mp_phase p = Runtime \<longrightarrow> mp_restart p = []))"
  proof (cases rule: return_cases [OF assms, case_names same quiet admitted])
    case (admitted pp publish ca parts)
    note e = admit_effect [OF admitted(3,2)]
    show ?thesis using e(1) e(2) [of t' p] admitted(1) by (auto simp: publishes_def split: if_splits)
  qed (auto simp: quiet_def publishes_def split: if_splits)
  then show "publishes m' = publishes m \<and> mc_ready m' = mc_ready m"
    and "map_get (mc_preparing m') t' = Some pp \<Longrightarrow> map_get (mc_preparing m) t' = Some pp"
    and "map_get (mc_prepared m') t' = Some p \<Longrightarrow> map_get (mc_prepared m) t' = Some p \<or>
       t' = t \<and> (\<exists>pp. map_get (mc_preparing m) t = Some pp \<and> (mp_phase p = Startup \<longleftrightarrow> pp_startup pp)) \<and>
         (mp_phase p = Runtime \<longrightarrow> mp_restart p = [])" by blast+
qed

text \<open>When a preparation began, and which publications a candidate of a given phase may follow.\<close>

abbreviation managed_run :: "policy_options \<Rightarrow> managed_act list \<Rightarrow> managed_state" where
  "managed_run opts acts \<equiv> run (managed_step opts) acts newManagedConfigManager"

definition begun :: "policy_options \<Rightarrow> managed_act list \<Rightarrow> nat \<Rightarrow> bool \<Rightarrow> bool" where
  "begun opts acts t startup \<longleftrightarrow>
     (\<exists>pre s post. acts = pre @ MgrPrepare t s # post \<and> startup = (\<not> mc_ready (managed_run opts pre)))"

fun phase_ok :: "bool \<Rightarrow> managed_call \<Rightarrow> bool" where
  "phase_ok after (PublishCall t ph restart divergent res) \<longleftrightarrow> (if after then ph = Runtime \<and> restart = [] else ph = Startup)"
| "phase_ok after _ \<longleftrightarrow> True"

definition guarded :: "managed_call list \<Rightarrow> bool" where
  "guarded cs \<longleftrightarrow> (\<forall>pre c post. cs = pre @ c # post \<longrightarrow> phase_ok (list_ex successful pre) c)"

lemma guarded_Nil [simp]: "guarded []"
  by (simp add: guarded_def)

lemma guarded_snoc: "guarded (cs @ [c]) \<longleftrightarrow> guarded cs \<and> phase_ok (list_ex successful cs) c"
proof -
  have eq: "(cs @ [c] = pre @ x # post) \<longleftrightarrow> (post = [] \<and> pre = cs \<and> c = x \<or> (\<exists>post'. post = post' @ [c] \<and> cs = pre @ x # post'))"
    for pre x post by (cases post rule: rev_cases) auto
  show ?thesis unfolding guarded_def eq by blast
qed

text \<open>No other generation is published between the preparation of a candidate and its publication.\<close>

definition uninterrupted :: "managed_act list \<Rightarrow> bool" where
  "uninterrupted acts \<longleftrightarrow>
     (\<forall>a t s b c. acts = a @ MgrPrepare t s # b @ MgrCommit t # c \<longrightarrow> (\<forall>t'. MgrCommit t' \<notin> set b))"

definition guard_inv :: "policy_options \<Rightarrow> managed_act list \<Rightarrow> managed_state \<Rightarrow> bool" where
  "guard_inv opts acts m \<longleftrightarrow> mc_ready m = list_ex successful (publishes m) \<and>
     (\<forall>t pp. map_get (mc_preparing m) t = Some pp \<longrightarrow> begun opts acts t (pp_startup pp)) \<and>
     (\<forall>t p. map_get (mc_prepared m) t = Some p \<longrightarrow>
        begun opts acts t (mp_phase p = Startup) \<and> (mp_phase p = Runtime \<longrightarrow> mp_restart p = []))"

lemma begun_snoc: "begun opts acts t b \<Longrightarrow> begun opts (acts @ [act]) t b"
  unfolding begun_def by (metis append.assoc append_Cons)

lemma commit_effect:
  assumes "map_get (mc_prepared m) t = Some p"
  shows "publishes (commit_prepared opts t m) =
      publishes m @ [PublishCall t (mp_phase p) (mp_restart p) (mp_divergent p) (mp_publish p)]"
    "mc_ready (commit_prepared opts t m) = (mc_ready m \<or> mp_publish p = ReturnsUndefined)"
    "mc_preparing (commit_prepared opts t m) = mc_preparing m" "mc_prepared (commit_prepared opts t m) = mc_prepared m"
proof -
  have q: "quiet m1 (notifyApplied opts ph i d cs gs m1)" for m1 ph i d cs gs by (rule quiet_applied)
  show "publishes (commit_prepared opts t m) =
      publishes m @ [PublishCall t (mp_phase p) (mp_restart p) (mp_divergent p) (mp_publish p)]"
    "mc_ready (commit_prepared opts t m) = (mc_ready m \<or> mp_publish p = ReturnsUndefined)"
    "mc_preparing (commit_prepared opts t m) = mc_preparing m" "mc_prepared (commit_prepared opts t m) = mc_prepared m"
    using assms q unfolding quiet_def by (simp_all add: commit_prepared_def Let_def notify_def publishes_def)
qed

lemma abort_effect:
  "publishes (abort_prepared t m) = publishes m" "mc_ready (abort_prepared t m) = mc_ready m"
  "mc_preparing (abort_prepared t m) = mc_preparing m"
  "map_get (mc_prepared (abort_prepared t m)) t' = Some p \<Longrightarrow>
     \<exists>q. map_get (mc_prepared m) t' = Some q \<and> mp_phase q = mp_phase p \<and> mp_restart q = mp_restart p"
  by (auto simp: abort_prepared_def Let_def notify_def publishes_def split: option.splits if_splits)

lemma ready_step: "\<forall>t. MgrCommit t \<noteq> act \<Longrightarrow> mc_ready (managed_step opts act m) = mc_ready m"
  using quiet_manifest [of m] return_effect(1) [OF refl]
  by (cases act) (auto simp: start_manager_def loader_ended_def prepare_begin_def abort_effect quiet_def split: sum.split)

lemma ready_between: "\<forall>t. MgrCommit t \<notin> set acts \<Longrightarrow> mc_ready (run (managed_step opts) acts m) = mc_ready m"
  by (induction acts arbitrary: m) (simp_all add: ready_step)

lemma guard_inv_keep:
  assumes "guard_inv opts acts m" "publishes m' = publishes m" "mc_ready m' = mc_ready m"
    "\<And>t pp. map_get (mc_preparing m') t = Some pp \<Longrightarrow> map_get (mc_preparing m) t = Some pp \<or> begun opts (acts @ [act]) t (pp_startup pp)"
    "\<And>t p. map_get (mc_prepared m') t = Some p \<Longrightarrow> map_get (mc_prepared m) t = Some p \<or>
       (mp_phase p = Runtime \<longrightarrow> mp_restart p = []) \<and> begun opts (acts @ [act]) t (mp_phase p = Startup)"
  shows "guard_inv opts (acts @ [act]) m'"
  using assms begun_snoc unfolding guard_inv_def by metis

lemma guard_invD:
  assumes "guard_inv opts acts m" "map_get (mc_prepared m) t = Some p"
  shows "begun opts acts t (mp_phase p = Startup)" "mp_phase p = Runtime \<longrightarrow> mp_restart p = []"
  using assms unfolding guard_inv_def by blast+

lemma guard_inv_return:
  assumes "guard_inv opts acts m"
  shows "guard_inv opts (acts @ [act]) (snd (prepare_return opts t aborted outcome m))"
proof (rule guard_inv_keep [OF assms])
  note e = return_effect [OF refl, of opts t aborted outcome m]
  show "map_get (mc_prepared m) t' = Some p \<or>
    (mp_phase p = Runtime \<longrightarrow> mp_restart p = []) \<and> begun opts (acts @ [act]) t' (mp_phase p = Startup)"
    if "map_get (mc_prepared (snd (prepare_return opts t aborted outcome m))) t' = Some p" for t' p
  proof -
    from e(3) [OF that] consider "map_get (mc_prepared m) t' = Some p"
      | pp where "t' = t" "map_get (mc_preparing m) t = Some pp" "mp_phase p = Startup \<longleftrightarrow> pp_startup pp" "mp_phase p = Runtime \<longrightarrow> mp_restart p = []"
      by blast
    then show ?thesis
    proof cases
      case 2
      then have "begun opts acts t' (mp_phase p = Startup)" using assms by (simp add: guard_inv_def)
      then show ?thesis using 2(4) begun_snoc by blast
    qed blast
  qed
qed (use return_effect(1,2) [OF refl, of opts t aborted outcome m] in blast)+

lemma guard_inv_abort:
  assumes "guard_inv opts acts m"
  shows "guard_inv opts (acts @ [act]) (abort_prepared t m)"
proof (rule guard_inv_keep [OF assms])
  show "map_get (mc_prepared m) t' = Some p \<or>
    (mp_phase p = Runtime \<longrightarrow> mp_restart p = []) \<and> begun opts (acts @ [act]) t' (mp_phase p = Startup)"
    if "map_get (mc_prepared (abort_prepared t m)) t' = Some p" for t' p
  proof -
    from abort_effect(4) [OF that] obtain q where q: "map_get (mc_prepared m) t' = Some q" "mp_phase q = mp_phase p" "mp_restart q = mp_restart p"
      by blast
    then have "begun opts acts t' (mp_phase p = Startup)" "mp_phase p = Runtime \<longrightarrow> mp_restart p = []"
      using guard_invD [OF assms q(1)] by simp_all
    then show ?thesis using begun_snoc by blast
  qed
qed (simp_all add: abort_effect)

lemma guard_inv_commit:
  assumes "guard_inv opts acts m"
  shows "guard_inv opts (acts @ [act]) (commit_prepared opts t m)"
proof (cases "map_get (mc_prepared m) t")
  case None
  then show ?thesis using guard_inv_keep [OF assms, of m act] by (simp add: commit_prepared_def)
next
  case (Some p)
  have "guard_inv opts (acts @ [act]) m" using guard_inv_keep [OF assms, of m act] by simp
  then show ?thesis using Some unfolding guard_inv_def by (auto simp: commit_effect)
qed

lemma guard_inv_step:
  assumes "guard_inv opts acts m" "m = managed_run opts acts"
  shows "guard_inv opts (acts @ [act]) (managed_step opts act m)"
proof (cases act)
  case (MgrPrepare t s)
  have "begun opts (acts @ [MgrPrepare t s]) t (\<not> mc_ready m)" unfolding begun_def assms(2) by blast
  then show ?thesis unfolding MgrPrepare
    by (intro guard_inv_keep [OF assms(1)]) (auto simp: prepare_begin_def publishes_def split: sum.splits if_splits)
next
  case (MgrManifest entries manifest aborted)
  show ?thesis using quiet_manifest [of m opts entries manifest aborted] unfolding MgrManifest
    by (intro guard_inv_keep [OF assms(1)]) (auto simp: quiet_def)
next
  case MgrStart
  show ?thesis unfolding MgrStart
    by (intro guard_inv_keep [OF assms(1)]) (auto simp: start_manager_def publishes_def split: if_splits)
next
  case (MgrEnd f)
  show ?thesis unfolding MgrEnd
    by (intro guard_inv_keep [OF assms(1)]) (auto simp: loader_ended_def publishes_def split: if_splits)
qed (simp_all add: guard_inv_return guard_inv_abort guard_inv_commit assms(1))

lemma guard_inv_run: "guard_inv opts acts (managed_run opts acts)"
proof (induction acts rule: rev_induct)
  case (snoc act acts)
  show ?case using guard_inv_step [OF snoc refl, of act] by simp
qed (simp add: guard_inv_def newManagedConfigManager_def publishes_def)

lemma uninterrupted_prefix: "uninterrupted (acts @ [act]) \<Longrightarrow> uninterrupted acts"
  unfolding uninterrupted_def by fastforce

lemma guarded_run: "uninterrupted acts \<Longrightarrow> guarded (publishes (managed_run opts acts))"
proof (induction acts rule: rev_induct)
  case (snoc act acts)
  let ?m = "managed_run opts acts"
  have inv: "guard_inv opts acts ?m" by (rule guard_inv_run)
  have g: "guarded (publishes ?m)" using snoc uninterrupted_prefix by blast
  show ?case
  proof (cases "\<exists>t p. act = MgrCommit t \<and> map_get (mc_prepared ?m) t = Some p")
    case True
    then obtain t p where t: "act = MgrCommit t" "map_get (mc_prepared ?m) t = Some p" by blast
    note d = guard_invD [OF inv t(2)]
    then obtain pre s post where b: "acts = pre @ MgrPrepare t s # post" "mp_phase p = Startup \<longleftrightarrow> \<not> mc_ready (managed_run opts pre)"
      unfolding begun_def by blast
    have "\<forall>t'. MgrCommit t' \<notin> set post" using snoc.prems unfolding uninterrupted_def b(1) t(1)
      by (metis append.assoc append_Cons append_Nil)
    then have "mc_ready ?m = mc_ready (managed_run opts pre)" unfolding b(1) by (simp add: ready_between prepare_begin_def split: sum.split)
    then have "phase_ok (list_ex successful (publishes ?m)) (PublishCall t (mp_phase p) (mp_restart p) (mp_divergent p) (mp_publish p))"
      using b(2) inv d(2) by (cases "mp_phase p") (auto simp: guard_inv_def)
    then show ?thesis using g t by (simp add: commit_effect guarded_snoc)
  next
    case False
    then have "publishes (managed_step opts act ?m) = publishes ?m"
      using quiet_manifest [of ?m] return_effect(1) [OF refl]
      by (cases act) (auto simp: start_manager_def loader_ended_def prepare_begin_def abort_effect(1) [unfolded publishes_def]
          quiet_def publishes_def commit_prepared_def split: sum.split option.split)
    then show ?thesis using g by simp
  qed
qed (simp add: publishes_def newManagedConfigManager_def)

end
