(* ===== verification/Loader_Correct.thy ===== *)
theory Loader_Correct
  imports Loader
begin

text \<open>
  Correctness of the release loader under every interleaving of its actions.

  Views of the task table and how the operations change them; \<open>base_inv\<close>: at most one candidate is
  being processed, and while the run is not aborted the flags \<open>processing\<close> and \<open>activeController\<close> say
  which; \<open>waits_inv\<close>: as long as the run is not aborted no acknowledgement wait has ended in an abort.
\<close>

section \<open>Views of the task table\<close>

fun active_pc :: "task_pc \<Rightarrow> bool" where
  "active_pc (TValidating _) = True"
| "active_pc (TFetching _ _) = True"
| "active_pc (TResolved _) = True"
| "active_pc TPreparing = True"
| "active_pc (TChecking _) = True"
| "active_pc (TSettled _) = True"
| "active_pc _ = False"

abbreviation is_active :: "nat \<times> loader_task \<Rightarrow> bool" where
  "is_active e \<equiv> active_pc (tk_pc (snd e))"

definition act_ids :: "(nat, loader_task) jsmap \<Rightarrow> nat list" where
  "act_ids m = map fst (filter is_active m)"

definition task_seqs :: "(nat, loader_task) jsmap \<Rightarrow> int list" where
  "task_seqs m = map (\<lambda>e. cd_sequence (tk_candidate (snd e))) m"

definition task_revs :: "(nat, loader_task) jsmap \<Rightarrow> int list" where
  "task_revs m = map (\<lambda>e. cd_revision (tk_candidate (snd e))) m"

lemma set_upd_all: "set (map_upd_all f m) = (\<lambda>e. (fst e, f (fst e) (snd e))) ` set m"
  by (simp add: map_upd_all_def)

lemma act_ids_same:
  "map_get m t = Some a \<Longrightarrow> active_pc (tk_pc b) = active_pc (tk_pc a) \<Longrightarrow> act_ids (map_set t b m) = act_ids m"
  by (induction t b m rule: map_set.induct) (auto simp: act_ids_def map_get_Cons split: if_splits)

lemma act_ids_off:
  "map_ok m \<Longrightarrow> map_get m t = Some a \<Longrightarrow> \<not> active_pc (tk_pc b) \<Longrightarrow>
   act_ids (map_set t b m) = filter (\<lambda>i. i \<noteq> t) (act_ids m)"
proof (induction t b m rule: map_set.induct)
  case (2 t b k v m)
  have "filter (\<lambda>i. i \<noteq> t) (act_ids m) = act_ids m" if "t \<notin> fst ` set m"
    using that by (force simp: act_ids_def filter_id_conv)
  with 2 show ?case by (auto simp: act_ids_def map_get_Cons split: if_splits)
qed simp

lemma map_set_new: "t \<notin> fst ` set m \<Longrightarrow> map_set t b m = m @ [(t, b)]"
  by (induction m) auto

lemma act_ids_new: "t \<notin> fst ` set m \<Longrightarrow> act_ids (map_set t b m) = act_ids m @ (if active_pc (tk_pc b) then [t] else [])"
  by (simp add: map_set_new act_ids_def)

lemma act_ids_mem: "map_ok m \<Longrightarrow> t \<in> set (act_ids m) \<longleftrightarrow> (\<exists>a. map_get m t = Some a \<and> active_pc (tk_pc a))"
  by (auto simp: act_ids_def map_get_iff image_iff)

lemma map_set_candidate:
  "map_get m t = Some a \<Longrightarrow> tk_candidate b = tk_candidate a \<Longrightarrow>
   map (\<lambda>e. tk_candidate (snd e)) (map_set t b m) = map (\<lambda>e. tk_candidate (snd e)) m"
  by (induction t b m rule: map_set.induct) (auto simp: map_get_Cons split: if_splits)

lemma task_seqs_alt: "task_seqs m = map cd_sequence (map (\<lambda>e. tk_candidate (snd e)) m)"
  by (simp add: task_seqs_def)

lemma task_revs_alt: "task_revs m = map cd_revision (map (\<lambda>e. tk_candidate (snd e)) m)"
  by (simp add: task_revs_def)

lemma task_seqs_same:
  "map_get m t = Some a \<Longrightarrow> tk_candidate b = tk_candidate a \<Longrightarrow> task_seqs (map_set t b m) = task_seqs m"
  "map_get m t = Some a \<Longrightarrow> tk_candidate b = tk_candidate a \<Longrightarrow> task_revs (map_set t b m) = task_revs m"
  unfolding task_seqs_alt task_revs_alt using map_set_candidate by metis+

lemma task_seqs_new:
  "t \<notin> fst ` set m \<Longrightarrow> task_seqs (map_set t b m) = task_seqs m @ [cd_sequence (tk_candidate b)]"
  "t \<notin> fst ` set m \<Longrightarrow> task_revs (map_set t b m) = task_revs m @ [cd_revision (tk_candidate b)]"
  by (simp_all add: map_set_new task_seqs_def task_revs_def)

lemma abort_task_fields [simp]:
  "tk_candidate (abort_task a) = tk_candidate a" "tk_aborted (abort_task a)" "tk_started (abort_task a) = tk_started a"
  "active_pc (tk_pc (abort_task a)) = active_pc (tk_pc a)"
  by (auto simp: abort_task_def abort_pc_def split: task_pc.split)

lemma abort_all_views [simp]:
  "act_ids (map_upd_all (\<lambda>_. abort_task) m) = act_ids m" "task_seqs (map_upd_all (\<lambda>_. abort_task) m) = task_seqs m"
  "task_revs (map_upd_all (\<lambda>_. abort_task) m) = task_revs m"
  by (induction m) (auto simp: act_ids_def task_seqs_def task_revs_def map_upd_all_def)

section \<open>The base invariant\<close>

definition base_inv :: "loader \<Rightarrow> bool" where
  "base_inv ld \<longleftrightarrow> map_ok (ld_tasks ld) \<and> (\<forall>t \<in> fst ` set (ld_tasks ld). t < ld_nextTask ld) \<and>
     length (act_ids (ld_tasks ld)) \<le> 1 \<and>
     (\<not> ld_runAborted ld \<longrightarrow> (if ld_processing ld then \<exists>t. ld_activeController ld = Some t \<and> act_ids (ld_tasks ld) = [t]
        else act_ids (ld_tasks ld) = [])) \<and>
     (ld_runAborted ld \<longrightarrow> (\<forall>t a. map_get (ld_tasks ld) t = Some a \<longrightarrow> active_pc (tk_pc a) \<longrightarrow> tk_aborted a))"

text \<open>The part of the state these invariants read.\<close>

definition same_base :: "loader \<Rightarrow> loader \<Rightarrow> bool" where
  "same_base ld ld' \<longleftrightarrow> ld_tasks ld' = ld_tasks ld \<and> ld_nextTask ld' = ld_nextTask ld \<and> ld_processing ld' = ld_processing ld \<and>
     ld_activeController ld' = ld_activeController ld \<and> ld_runAborted ld' = ld_runAborted ld"

lemma base_inv_cong: "same_base ld ld' \<Longrightarrow> base_inv ld' = base_inv ld"
  by (simp add: base_inv_def same_base_def)

lemma base_inv_set_pc:
  assumes "base_inv ld" "map_get (ld_tasks ld) t = Some a" "active_pc pc = active_pc (tk_pc a)"
  shows "base_inv (set_pc t pc ld)"
proof -
  have "act_ids (map_set t (a\<lparr>tk_pc := pc\<rparr>) (ld_tasks ld)) = act_ids (ld_tasks ld)"
    using assms by (intro act_ids_same) auto
  moreover have "t < ld_nextTask ld" using assms(1) map_get_in [OF assms(2)] by (force simp: base_inv_def)
  ultimately show ?thesis using assms by (auto simp: base_inv_def set_pc_def set_task_def)
qed

text \<open>A task leaves the active phases exactly when the flags are reset.\<close>

lemma base_inv_off:
  assumes "base_inv ld" "map_get (ld_tasks ld) t = Some a" "active_pc (tk_pc a)" "\<not> active_pc pc"
  shows "base_inv ((set_pc t pc ld)\<lparr>ld_processing := False, ld_activeController := None\<rparr>)"
proof -
  have ok: "map_ok (ld_tasks ld)" using assms(1) by (simp add: base_inv_def)
  have "t \<in> set (act_ids (ld_tasks ld))" using act_ids_mem [OF ok] assms by auto
  then have "act_ids (ld_tasks ld) = [t]" using assms(1) by (cases "act_ids (ld_tasks ld)") (auto simp: base_inv_def)
  then have "act_ids (map_set t (a\<lparr>tk_pc := pc\<rparr>) (ld_tasks ld)) = []" using act_ids_off [OF ok assms(2), of "a\<lparr>tk_pc := pc\<rparr>"] assms(4) by simp
  moreover have "t < ld_nextTask ld" using assms(1) map_get_in [OF assms(2)] by (force simp: base_inv_def)
  ultimately show ?thesis using assms by (auto simp: base_inv_def set_pc_def set_task_def)
qed

lemma resolveCandidate_active [simp]: "active_pc (resolveCandidate cfg c aborted)"
  by (auto simp: resolveCandidate_def split: sum.split)

lemma start_fields [simp]:
  "ld_acks (start cfg now c ld) = ld_acks ld" "ld_runAborted (start cfg now c ld) = ld_runAborted ld"
  "ld_latest (start cfg now c ld) = ld_latest ld" "ld_pending (start cfg now c ld) = ld_pending ld"
  "ld_sequence (start cfg now c ld) = ld_sequence ld" "ld_finished (start cfg now c ld) = ld_finished ld"
  "ld_log (start cfg now c ld) = ld_log ld" "ld_status (start cfg now c ld) = ld_status ld"
  "ld_run (start cfg now c ld) = ld_run ld" "ld_processing (start cfg now c ld)"
  "ld_activeController (start cfg now c ld) = Some (ld_nextTask ld)"
  by (simp_all add: start_def Let_def)

lemma base_inv_start:
  assumes "base_inv ld" "\<not> ld_processing ld" "\<not> ld_runAborted ld"
  shows "base_inv (start cfg now c ld)"
proof -
  have new: "ld_nextTask ld \<notin> fst ` set (ld_tasks ld)" using assms(1) by (auto simp: base_inv_def)
  show ?thesis using assms act_ids_new [OF new] by (auto simp: base_inv_def start_def Let_def less_Suc_eq)
qed

lemma abort_active_eq:
  "abort_active ld = (case ld_activeController ld of None \<Rightarrow> ld | Some t \<Rightarrow> (case map_get (ld_tasks ld) t of None \<Rightarrow> ld
     | Some a \<Rightarrow> ld\<lparr>ld_tasks := map_set t (abort_task a) (ld_tasks ld)\<rparr>))"
  by (auto simp: abort_active_def set_task_def split: option.split)

lemma base_inv_abort_active: "base_inv ld \<Longrightarrow> base_inv (abort_active ld)"
proof (cases "ld_activeController ld")
  case (Some t)
  assume inv: "base_inv ld"
  show ?thesis
  proof (cases "map_get (ld_tasks ld) t")
    case (Some a)
    have "act_ids (map_set t (abort_task a) (ld_tasks ld)) = act_ids (ld_tasks ld)" using Some by (rule act_ids_same) simp
    moreover have "t < ld_nextTask ld" using inv map_get_in [OF Some] by (force simp: base_inv_def)
    ultimately show ?thesis using inv Some \<open>ld_activeController ld = Some t\<close> by (auto simp: base_inv_def abort_active_eq)
  qed (use inv Some in \<open>simp add: abort_active_eq\<close>)
qed (simp add: abort_active_eq)

lemma base_inv_abort_run: "base_inv ld \<Longrightarrow> base_inv (abort_run ld)"
  by (auto simp: abort_run_def base_inv_def set_upd_all)

subsection \<open>Operations that do not touch the task table\<close>

lemma ack_candidate_snd:
  "snd (ack_candidate cfg now c st k d ld) = ld\<lparr>ld_acks := snd (ack (lc_opts cfg) (ld_session ld) now c st k d (ld_acks ld))\<rparr>"
  by (simp add: ack_candidate_def split_beta)

lemma settle_rejected_eq:
  "settle_rejected cfg now t c k fatal ld =
     set_pc t (TSettled (rejected_result k (fst (reject cfg now c k ld)) fatal)) (snd (reject cfg now c k ld))"
  by (simp add: settle_rejected_def split_beta)

lemma reject_snd:
  "snd (reject cfg now c k ld) = recordRejected now k (snd (ack_candidate cfg now c Rejected (Some k) NO_DIVERGENCE ld))"
  by (simp add: reject_def split_beta)

lemmas side_defs = ack_candidate_snd reject_snd recordRejected_def recordReconnect_def set_state_def log_event_def observe_def
  finish_reject_def on_acks_def see_revision_def leave_stream_def watch_loop_head_def

lemma finish_reject_cases:
  "finish_reject f ld = ld \<or> finish_reject f ld = ld\<lparr>ld_finished := Some f\<rparr>"
  by (auto simp: finish_reject_def split: option.split)

lemma set_pc_side [simp]:
  "ld_acks (set_pc t pc ld) = ld_acks ld" "ld_session (set_pc t pc ld) = ld_session ld" "ld_status (set_pc t pc ld) = ld_status ld"
  "ld_runAborted (set_pc t pc ld) = ld_runAborted ld" "ld_sequence (set_pc t pc ld) = ld_sequence ld"
  "ld_latest (set_pc t pc ld) = ld_latest ld" "ld_pending (set_pc t pc ld) = ld_pending ld"
  "ld_processing (set_pc t pc ld) = ld_processing ld" "ld_activeController (set_pc t pc ld) = ld_activeController ld"
  "ld_finished (set_pc t pc ld) = ld_finished ld" "ld_log (set_pc t pc ld) = ld_log ld" "ld_nextTask (set_pc t pc ld) = ld_nextTask ld"
  "ld_appliedOnce (set_pc t pc ld) = ld_appliedOnce ld" "ld_run (set_pc t pc ld) = ld_run ld"
  "ld_watch (set_pc t pc ld) = ld_watch ld" "ld_recon (set_pc t pc ld) = ld_recon ld" "ld_running (set_pc t pc ld) = ld_running ld"
  by (auto simp: set_pc_def set_task_def split: option.split)

lemma set_pc_tasks:
  "map_get (ld_tasks ld) t = Some a \<Longrightarrow> ld_tasks (set_pc t pc ld) = map_set t (a\<lparr>tk_pc := pc\<rparr>) (ld_tasks ld)"
  by (simp add: set_pc_def set_task_def)

lemma same_base_side:
  "same_base ld (snd (ack_candidate cfg now c st ko d ld))" "same_base ld (snd (reject cfg now c k ld))"
  "same_base ld (recordRejected now k ld)" "same_base ld (recordReconnect ld)" "same_base ld (set_state st ld)"
  "same_base ld (log_event e ld)" "same_base ld (observe c ld)" "same_base ld (finish_reject f ld)" "same_base ld (on_acks g ld)"
  "same_base ld (see_revision r ld)" "same_base ld (leave_stream att sx rec thrown ld)" "same_base ld (watch_loop_head att ld)"
  by (auto simp: same_base_def side_defs Let_def split: option.split)

lemma base_inv_side [simp]:
  "base_inv (snd (ack_candidate cfg now c st ko d ld)) = base_inv ld" "base_inv (snd (reject cfg now c k ld)) = base_inv ld"
  "base_inv (recordRejected now k ld) = base_inv ld" "base_inv (recordReconnect ld) = base_inv ld" "base_inv (set_state st ld) = base_inv ld"
  "base_inv (log_event e ld) = base_inv ld" "base_inv (observe c ld) = base_inv ld" "base_inv (finish_reject f ld) = base_inv ld"
  "base_inv (on_acks g ld) = base_inv ld" "base_inv (see_revision r ld) = base_inv ld"
  "base_inv (leave_stream att sx rec thrown ld) = base_inv ld" "base_inv (watch_loop_head att ld) = base_inv ld"
  by (rule base_inv_cong, rule same_base_side)+

lemma base_inv_updates [simp]:
  "base_inv (ld\<lparr>ld_acks := x1\<rparr>) = base_inv ld" "base_inv (ld\<lparr>ld_session := x2\<rparr>) = base_inv ld"
  "base_inv (ld\<lparr>ld_status := x3\<rparr>) = base_inv ld" "base_inv (ld\<lparr>ld_stats := x4\<rparr>) = base_inv ld"
  "base_inv (ld\<lparr>ld_running := x5\<rparr>) = base_inv ld" "base_inv (ld\<lparr>ld_lastSeenRevision := x6\<rparr>) = base_inv ld"
  "base_inv (ld\<lparr>ld_sequence := x7\<rparr>) = base_inv ld" "base_inv (ld\<lparr>ld_latest := x8\<rparr>) = base_inv ld"
  "base_inv (ld\<lparr>ld_retryLatest := x9\<rparr>) = base_inv ld" "base_inv (ld\<lparr>ld_pending := x10\<rparr>) = base_inv ld"
  "base_inv (ld\<lparr>ld_appliedOnce := x11\<rparr>) = base_inv ld" "base_inv (ld\<lparr>ld_gracefulWatchStop := x12\<rparr>) = base_inv ld"
  "base_inv (ld\<lparr>ld_finished := x13\<rparr>) = base_inv ld" "base_inv (ld\<lparr>ld_run := x14\<rparr>) = base_inv ld"
  "base_inv (ld\<lparr>ld_watch := x15\<rparr>) = base_inv ld" "base_inv (ld\<lparr>ld_recon := x16\<rparr>) = base_inv ld"
  "base_inv (ld\<lparr>ld_nextStream := x17\<rparr>) = base_inv ld" "base_inv (ld\<lparr>ld_outcome := x18\<rparr>) = base_inv ld"
  "base_inv (ld\<lparr>ld_log := x19\<rparr>) = base_inv ld"
  by (rule base_inv_cong, simp add: same_base_def)+

lemma tasks_side [simp]:
  "ld_tasks (snd (ack_candidate cfg now c st ko d ld)) = ld_tasks ld" "ld_tasks (snd (reject cfg now c k ld)) = ld_tasks ld"
  "ld_tasks (recordRejected now k ld) = ld_tasks ld" "ld_tasks (set_state st ld) = ld_tasks ld" "ld_tasks (log_event e ld) = ld_tasks ld"
  "ld_tasks (observe c ld) = ld_tasks ld" "ld_tasks (finish_reject f ld) = ld_tasks ld" "ld_tasks (see_revision r ld) = ld_tasks ld"
  "ld_tasks (watch_loop_head att ld) = ld_tasks ld" "ld_tasks (leave_stream att sx rec thrown ld) = ld_tasks ld"
  "ld_tasks (recordReconnect ld) = ld_tasks ld"
  using same_base_side unfolding same_base_def by metis+

subsection \<open>Every action\<close>

lemma base_inv_settle_rejected:
  "base_inv ld \<Longrightarrow> map_get (ld_tasks ld) t = Some a \<Longrightarrow> active_pc (tk_pc a) \<Longrightarrow> base_inv (settle_rejected cfg now t c k fatal ld)"
  unfolding settle_rejected_eq by (rule base_inv_set_pc) simp_all

lemma base_inv_settle_aborting:
  "base_inv ld \<Longrightarrow> map_get (ld_tasks ld) t = Some a \<Longrightarrow> active_pc (tk_pc a) \<Longrightarrow> base_inv (settle_aborting cfg now t c prepared k ld)"
  by (auto simp: settle_aborting_def Let_def intro: base_inv_settle_rejected)

lemma base_inv_commit:
  "base_inv ld \<Longrightarrow> map_get (ld_tasks ld) t = Some a \<Longrightarrow> active_pc (tk_pc a) \<Longrightarrow> base_inv (commit cfg now t c prepared ld)"
  by (auto simp: commit_def Let_def intro!: base_inv_set_pc)

lemma offer_cases:
  obtains (ignored) "offer cfg now c ld = ld"
  | (superseding) c' where "\<not> ld_runAborted ld" "ld_processing ld" "c' = c\<lparr>cd_sequence := ld_sequence ld + 1\<rparr>"
      "offer cfg now c ld = (abort_active (observe c' (ld\<lparr>ld_sequence := ld_sequence ld + 1, ld_latest := Some c', ld_retryLatest := False\<rparr>)))\<lparr>ld_pending := Some c'\<rparr>"
      "\<forall>l. ld_latest ld = Some l \<longrightarrow> cd_revision l \<le> cd_revision c" "releaseMatchesTrack (cd_release c) (lc_opts cfg)"
  | (starting) c' where "\<not> ld_runAborted ld" "\<not> ld_processing ld" "c' = c\<lparr>cd_sequence := ld_sequence ld + 1\<rparr>"
      "offer cfg now c ld = start cfg now c' (observe c' (ld\<lparr>ld_sequence := ld_sequence ld + 1, ld_latest := Some c', ld_retryLatest := False\<rparr>))"
      "\<forall>l. ld_latest ld = Some l \<longrightarrow> cd_revision l \<le> cd_revision c" "releaseMatchesTrack (cd_release c) (lc_opts cfg)"
proof (cases "offer_ignored cfg c ld")
  case True
  then show ?thesis using that(1) by (simp add: offer_def)
next
  case False
  then have "\<not> ld_runAborted ld" "\<forall>l. ld_latest ld = Some l \<longrightarrow> cd_revision l \<le> cd_revision c" "releaseMatchesTrack (cd_release c) (lc_opts cfg)"
    by (auto simp: offer_ignored_def split: option.splits)
  with False that(2,3) [OF _ _ refl] show ?thesis by (cases "ld_processing ld") (auto simp: offer_def Let_def)
qed

lemma base_inv_offer: "base_inv ld \<Longrightarrow> base_inv (offer cfg now c ld)"
  by (cases rule: offer_cases [of cfg now c ld])
    (auto intro!: base_inv_start base_inv_abort_active simp: observe_def)

lemma base_inv_start_pending: "base_inv ld \<Longrightarrow> \<not> ld_processing ld \<Longrightarrow> base_inv (start_pending cfg now ld)"
  by (auto simp: start_pending_def intro!: base_inv_start split: option.split)

lemma base_inv_task_catch:
  assumes "base_inv ld" "map_get (ld_tasks ld) t = Some a" "\<not> active_pc (tk_pc a)" "ld_runAborted ld"
  shows "base_inv (task_catch t ld)"
proof -
  have "base_inv (set_pc t TDone ld)" using assms by (intro base_inv_set_pc) auto
  then show ?thesis unfolding task_catch_def base_inv_side using assms(4) by (auto simp: base_inv_def)
qed

lemma base_inv_task_settled: "base_inv ld \<Longrightarrow> base_inv (task_settled cfg now t ld)"
proof (cases "map_get (ld_tasks ld) t")
  case (Some a)
  assume inv: "base_inv ld"
  show ?thesis
  proof (cases "tk_pc a")
    case (TSettled result)
    let ?ld1 = "\<lambda>x. (set_pc t TDone ld)\<lparr>ld_processing := False, ld_activeController := None, ld_appliedOnce := x\<rparr>"
    have b: "base_inv (?ld1 x)" for x using base_inv_off [OF inv Some, of TDone] TSettled by simp
    have "base_inv (set_pc t (TStartupRead result) (?ld1 x))" for x
      using b Some by (intro base_inv_set_pc [of _ _ "a\<lparr>tk_pc := TDone\<rparr>"]) (simp_all add: set_pc_tasks)
    then show ?thesis using Some TSettled b by (simp add: task_settled_def Let_def base_inv_start_pending)
  qed (use inv Some in \<open>simp_all add: task_settled_def\<close>)
qed (simp add: task_settled_def)

lemma base_inv_process:
  assumes "base_inv ld"
  shows "base_inv (validate_reply cfg t reply ld)" "base_inv (entry_reply cfg now t w replies ld)" "base_inv (pool_end t ld)"
    "base_inv (resolve_settled cfg now t ld)" "base_inv (prepare_settled cfg now t preply ld)"
    "base_inv (active_settled cfg now t target ld)"
  using assms
  by (auto simp: validate_reply_def entry_reply_def pool_end_def resolve_settled_def prepare_settled_def active_settled_def
      Let_def split: option.split task_pc.split pool_worker.split sum.split prepare_reply.split
      intro!: base_inv_set_pc base_inv_settle_rejected base_inv_settle_aborting base_inv_commit)

text \<open>A wait is rejected only by an abort of the run.\<close>

definition no_aborted_wait :: "ack_state \<Rightarrow> bool" where
  "no_aborted_wait ak \<longleftrightarrow> (\<forall>t. map_get (ak_settled ak) t \<noteq> Some WaitAborted)"

definition waits_inv :: "loader \<Rightarrow> bool" where
  "waits_inv ld \<longleftrightarrow> ld_runAborted ld \<or> no_aborted_wait (ld_acks ld)"

lemma no_aborted_wait_fields [simp]:
  "no_aborted_wait (ak\<lparr>ak_pending := p\<rparr>) = no_aborted_wait ak" "no_aborted_wait (ak\<lparr>ak_waiters := w\<rparr>) = no_aborted_wait ak"
  "no_aborted_wait (ak\<lparr>ak_currentStream := cs\<rparr>) = no_aborted_wait ak" "no_aborted_wait (ak\<lparr>ak_generation := g\<rparr>) = no_aborted_wait ak"
  "no_aborted_wait (ak\<lparr>ak_chain := ch\<rparr>) = no_aborted_wait ak" "no_aborted_wait (ak\<lparr>ak_nextJob := n\<rparr>) = no_aborted_wait ak"
  "no_aborted_wait (ak\<lparr>ak_jobDone := j\<rparr>) = no_aborted_wait ak" "no_aborted_wait (ak\<lparr>ak_sent := sn\<rparr>) = no_aborted_wait ak"
  by (simp_all add: no_aborted_wait_def)

lemma no_aborted_wait_schedule: "no_aborted_wait ak \<Longrightarrow> no_aborted_wait (scheduleAckFlush ak)"
  by (simp add: scheduleAckFlush_def split: option.split)

lemma no_aborted_wait_finish: "no_aborted_wait ak \<Longrightarrow> no_aborted_wait (finish_wait gen (WaitStream r) ak)"
  by (auto simp: finish_wait_def no_aborted_wait_def split: option.split)

lemma no_aborted_wait_flush: "no_aborted_wait ak \<Longrightarrow> no_aborted_wait (flush_sent stream item ak)"
  by (auto simp: flush_sent_def Let_def no_aborted_wait_finish split: option.split)

lemma no_aborted_wait_ops:
  assumes "no_aborted_wait ak"
  shows "no_aborted_wait (snd (ack opts se now c st k d ak))"
    "no_aborted_wait (chain_start ak)" "no_aborted_wait (chain_send accepted ak)" "no_aborted_wait (chain_finish ak)"
    "no_aborted_wait (wait_timeout gen ak)" "no_aborted_wait (handleAcknowledgementRejected opts se rej ak)"
    "no_aborted_wait (waitForAcknowledgement t gen False ak)"
proof -
  show "no_aborted_wait (snd (ack opts se now c st k d ak))"
    using assms by (simp add: ack_def Let_def no_aborted_wait_schedule)
  show "no_aborted_wait (chain_send accepted ak)"
    using assms by (auto simp: chain_send_def no_aborted_wait_flush split: list.split option.split)
  show "no_aborted_wait (waitForAcknowledgement t gen False ak)"
    using assms by (auto simp: waitForAcknowledgement_def no_aborted_wait_def Let_def split: option.split)
qed (use assms in \<open>auto simp: chain_start_def chain_finish_def wait_timeout_def no_aborted_wait_finish
    handleAcknowledgementRejected_def split: list.split option.split\<close>)

lemmas no_aborted_wait_rules = no_aborted_wait_schedule no_aborted_wait_finish no_aborted_wait_flush no_aborted_wait_ops

lemma waits_inv_updates [simp]:
  "waits_inv (ld\<lparr>ld_session := x2\<rparr>) = waits_inv ld" "waits_inv (ld\<lparr>ld_status := x3\<rparr>) = waits_inv ld"
  "waits_inv (ld\<lparr>ld_stats := x4\<rparr>) = waits_inv ld" "waits_inv (ld\<lparr>ld_running := x5\<rparr>) = waits_inv ld"
  "waits_inv (ld\<lparr>ld_lastSeenRevision := x6\<rparr>) = waits_inv ld" "waits_inv (ld\<lparr>ld_sequence := x7\<rparr>) = waits_inv ld"
  "waits_inv (ld\<lparr>ld_latest := x8\<rparr>) = waits_inv ld" "waits_inv (ld\<lparr>ld_retryLatest := x9\<rparr>) = waits_inv ld"
  "waits_inv (ld\<lparr>ld_pending := x10\<rparr>) = waits_inv ld" "waits_inv (ld\<lparr>ld_appliedOnce := x11\<rparr>) = waits_inv ld"
  "waits_inv (ld\<lparr>ld_gracefulWatchStop := x12\<rparr>) = waits_inv ld" "waits_inv (ld\<lparr>ld_finished := x13\<rparr>) = waits_inv ld"
  "waits_inv (ld\<lparr>ld_run := x14\<rparr>) = waits_inv ld" "waits_inv (ld\<lparr>ld_watch := x15\<rparr>) = waits_inv ld"
  "waits_inv (ld\<lparr>ld_recon := x16\<rparr>) = waits_inv ld" "waits_inv (ld\<lparr>ld_nextStream := x17\<rparr>) = waits_inv ld"
  "waits_inv (ld\<lparr>ld_outcome := x18\<rparr>) = waits_inv ld" "waits_inv (ld\<lparr>ld_log := x19\<rparr>) = waits_inv ld"
  "waits_inv (ld\<lparr>ld_tasks := x20\<rparr>) = waits_inv ld" "waits_inv (ld\<lparr>ld_nextTask := x21\<rparr>) = waits_inv ld"
  "waits_inv (ld\<lparr>ld_processing := x22\<rparr>) = waits_inv ld" "waits_inv (ld\<lparr>ld_activeController := x23\<rparr>) = waits_inv ld"
  "waits_inv (ld\<lparr>ld_runAborted := True\<rparr>)"
  by (simp_all add: waits_inv_def)

lemma waits_inv_set_acks [simp]: "waits_inv (ld\<lparr>ld_acks := x\<rparr>) \<longleftrightarrow> ld_runAborted ld \<or> no_aborted_wait x"
  by (simp add: waits_inv_def)

lemma waits_inv_acks: "waits_inv ld \<Longrightarrow> (no_aborted_wait (ld_acks ld) \<Longrightarrow> no_aborted_wait (f (ld_acks ld))) \<Longrightarrow>
    waits_inv (ld\<lparr>ld_acks := f (ld_acks ld)\<rparr>)"
  by (auto simp: waits_inv_def)

lemma waits_inv_side [simp]:
  "waits_inv (recordRejected now k ld) = waits_inv ld" "waits_inv (recordReconnect ld) = waits_inv ld" "waits_inv (set_state st ld) = waits_inv ld"
  "waits_inv (log_event e ld) = waits_inv ld" "waits_inv (observe c ld) = waits_inv ld" "waits_inv (finish_reject f ld) = waits_inv ld"
  "waits_inv (see_revision r ld) = waits_inv ld" "waits_inv (watch_loop_head att ld) = waits_inv ld"
  "waits_inv (set_pc t pc ld) = waits_inv ld" "waits_inv (start cfg now c ld) = waits_inv ld" "waits_inv (start_pending cfg now ld) = waits_inv ld"
  "waits_inv (abort_active ld) = waits_inv ld" "waits_inv (offer cfg now c ld) = waits_inv ld"
  "waits_inv (task_catch t ld) = waits_inv ld"
  by (auto simp: waits_inv_def side_defs set_pc_def set_task_def start_def start_pending_def abort_active_eq offer_def task_catch_def
      Let_def split: option.split)

lemma waits_inv_settle:
  assumes "waits_inv ld"
  shows "waits_inv (snd (ack_candidate cfg now c st ko d ld))" "waits_inv (settle_rejected cfg now t c k fatal ld)"
proof -
  show ack: "waits_inv (snd (ack_candidate cfg now c st ko d ld))" for c st ko d
    unfolding ack_candidate_snd using assms by (rule waits_inv_acks) (rule no_aborted_wait_rules)
  show "waits_inv (settle_rejected cfg now t c k fatal ld)" using ack by (simp add: settle_rejected_eq reject_snd)
qed

lemma waits_inv_process:
  assumes "waits_inv ld"
  shows "waits_inv (settle_aborting cfg now t c prepared k ld)" "waits_inv (commit cfg now t c prepared ld)"
    "waits_inv (leave_stream att sx rec thrown ld)" "waits_inv (abort_run ld)"
proof -
  show "waits_inv (leave_stream att sx rec thrown ld)" "waits_inv (abort_run ld)"
    using assms by (auto simp: leave_stream_def abort_run_def Let_def log_event_def waits_inv_def split: option.split)
qed (use assms in \<open>simp_all add: settle_aborting_def commit_def Let_def waits_inv_settle\<close>)

lemma waits_inv_on_acks: "waits_inv ld \<Longrightarrow> (\<And>ak. no_aborted_wait ak \<Longrightarrow> no_aborted_wait (f ak)) \<Longrightarrow> waits_inv (on_acks f ld)"
  by (auto simp: on_acks_def waits_inv_def)

lemma waits_inv_chain_send_failed: "waits_inv ld \<Longrightarrow> waits_inv (chain_send_failed ld)"
  using waits_inv_on_acks [of ld "chain_send False"] no_aborted_wait_rules
  by (auto simp: chain_send_failed_def split: list.split option.split)

lemma waits_inv_startup_read: "waits_inv ld \<Longrightarrow> waits_inv (startup_read cfg now t target ld)"
  using no_aborted_wait_ops(7) [of "ld_acks ld"] waits_inv_def [of ld]
  by (cases "ld_runAborted ld") (auto simp: startup_read_def Let_def split: option.split task_pc.split)

lemma waits_inv_watch:
  assumes inv: "waits_inv ld"
  shows "waits_inv (watch_opened thrown ld)" "waits_inv (watch_replay thrown ld)" "waits_inv (watch_flushed code ld)"
    "waits_inv (watch_event_received cfg now ev revision ld)"
proof -
  have w: "ld_runAborted ld \<or> no_aborted_wait (ld_acks ld)" using inv by (simp add: waits_inv_def)
  show "waits_inv (watch_opened thrown ld)" "waits_inv (watch_flushed code ld)"
    using inv by (auto simp: watch_opened_def watch_flushed_def waits_inv_process split: lwatch_pc.split option.split bool.split)
  show "waits_inv (watch_replay thrown ld)" using inv w
    by (auto simp: watch_replay_def Let_def waits_inv_process no_aborted_wait_rules split: lwatch_pc.split option.split list.split)
  show "waits_inv (watch_event_received cfg now ev revision ld)" using inv w
    by (auto simp: watch_event_received_def waits_inv_process no_aborted_wait_rules
        split: lwatch_pc.split option.split release_watch_event.split)
qed

lemma waits_inv_run:
  assumes inv: "waits_inv ld"
  shows "waits_inv (run_begin cfg pc sa uuid ld)" "waits_inv (run_registered capable ld)" "waits_inv (run_initial cfg now target ld)"
    "waits_inv (run_race_ends ld)" "waits_inv (run_drain ld)" "waits_inv (stop_loader ld)"
proof -
  have w: "ld_runAborted ld \<or> no_aborted_wait (ld_acks ld)" using inv by (simp add: waits_inv_def)
  have fin: "waits_inv (run_finally f ld')" if "waits_inv ld'" for f ld'
    using that by (simp add: run_finally_def waits_inv_process)
  have fresh: "no_aborted_wait no_acks" by (simp add: no_acks_def no_aborted_wait_def)
  show "waits_inv (run_begin cfg pc sa uuid ld)" using inv
    by (auto simp: run_begin_def Let_def intro!: fin) (simp_all add: waits_inv_def fresh)
  show "waits_inv (run_drain ld)" using inv w
    by (auto simp: run_drain_def Let_def no_aborted_wait_schedule split: lrun_pc.split option.split)
qed (use inv in \<open>auto simp: run_registered_def run_initial_def run_race_ends_def stop_loader_def run_finally_def waits_inv_process Let_def
    split: lrun_pc.split option.split bool.split\<close>)

lemma waits_inv_step:
  assumes "waits_inv ld"
  shows "waits_inv (loader_step cfg act ld)"
proof (cases act)
  case (ChainSend accepted)
  then show ?thesis using assms by (auto intro: waits_inv_chain_send_failed waits_inv_on_acks no_aborted_wait_rules)
qed (use assms in \<open>auto intro: waits_inv_on_acks no_aborted_wait_rules waits_inv_run waits_inv_watch waits_inv_startup_read
    simp: validate_reply_def entry_reply_def pool_end_def resolve_settled_def prepare_settled_def active_settled_def task_settled_def
      ack_waited_def settle_within_def watch_ended_def watch_closed_def watch_backoff_done_def recon_wake_def recon_read_def Let_def
      waits_inv_settle waits_inv_process
    split: option.split task_pc.split pool_worker.split sum.split prepare_reply.split wait_result.split lwatch_pc.split lrecon_pc.split\<close>)


subsection \<open>The base invariant of a run\<close>

definition sched_inv :: "loader \<Rightarrow> bool" where
  "sched_inv ld \<longleftrightarrow> base_inv ld \<and> waits_inv ld"

lemma base_inv_ack_waited: "sched_inv ld \<Longrightarrow> base_inv (ack_waited t ld)"
  by (auto simp: sched_inv_def waits_inv_def no_aborted_wait_def ack_waited_def Let_def
      split: option.split task_pc.split wait_result.split intro!: base_inv_set_pc base_inv_task_catch)

lemma base_inv_startup:
  assumes "base_inv ld"
  shows "base_inv (startup_read cfg now t target ld)" "base_inv (settle_within t rejects ld)"
  using assms
  by (auto simp: startup_read_def settle_within_def Let_def split: option.split task_pc.split
      intro!: base_inv_set_pc base_inv_offer base_inv_task_catch)

lemma base_inv_loops:
  assumes "base_inv ld"
  shows "base_inv (watch_opened thrown ld)" "base_inv (watch_replay thrown ld)" "base_inv (watch_flushed code ld)"
    "base_inv (watch_event_received cfg now ev revision ld)" "base_inv (watch_ended thrown ld)" "base_inv (watch_closed ld)"
    "base_inv (watch_backoff_done ld)" "base_inv (recon_wake ld)" "base_inv (recon_read cfg now target ld)"
  using assms
  by (auto simp: watch_opened_def watch_replay_def watch_flushed_def watch_event_received_def watch_ended_def watch_closed_def
      watch_backoff_done_def recon_wake_def recon_read_def Let_def
      split: lwatch_pc.split lrecon_pc.split option.split list.split bool.split release_watch_event.split
      intro!: base_inv_offer)

lemma base_inv_run_finally: "base_inv ld \<Longrightarrow> base_inv (run_finally f ld)"
  by (simp add: run_finally_def base_inv_abort_run base_inv_abort_active)

lemma base_inv_fresh: "ld_tasks ld = [] \<Longrightarrow> \<not> ld_processing ld \<Longrightarrow> base_inv ld"
  by (simp add: base_inv_def act_ids_def)

lemma base_inv_run_begin: "base_inv ld \<Longrightarrow> base_inv (run_begin cfg pc sa uuid ld)"
  by (auto simp: run_begin_def Let_def intro!: base_inv_run_finally base_inv_fresh)

lemma base_inv_running:
  assumes "base_inv ld"
  shows "base_inv (run_registered capable ld)" "base_inv (run_initial cfg now target ld)"
    "base_inv (run_race_ends ld)" "base_inv (run_drain ld)" "base_inv (stop_loader ld)" "base_inv (chain_send_failed ld)"
  using assms
  by (auto simp: run_registered_def run_initial_def run_race_ends_def run_drain_def stop_loader_def
      chain_send_failed_def Let_def base_inv_abort_run
      split: lrun_pc.split option.split bool.split list.split intro!: base_inv_run_finally base_inv_offer)

lemma sched_inv_step: "sched_inv ld \<Longrightarrow> sched_inv (loader_step cfg act ld)"
proof -
  assume inv: "sched_inv ld"
  then have b: "base_inv ld" and w: "waits_inv ld" by (simp_all add: sched_inv_def)
  have "base_inv (loader_step cfg act ld)"
    by (cases act) (simp_all add: base_inv_process [OF b] base_inv_startup [OF b] base_inv_loops [OF b] base_inv_running [OF b]
        base_inv_task_settled [OF b] base_inv_run_begin [OF b] base_inv_ack_waited [OF inv] b)
  then show ?thesis using waits_inv_step [OF w] by (simp add: sched_inv_def)
qed

interpretation loader_sched: invariant_system "loader_step cfg" sched_inv
  by unfold_locales (rule sched_inv_step)

lemma sched_inv_new: "sched_inv newReleaseLoader"
  by (simp add: sched_inv_def base_inv_fresh waits_inv_def no_aborted_wait_def newReleaseLoader_def no_acks_def)

end
