(* ===== verification/Loader_Spec.thy ===== *)
theory Loader_Spec
  imports Loader_Correct
begin

text \<open>
  An abstract specification of how the release loader coordinates candidates, and the proof that the
  loader refines it.

  The specification \<open>core_step\<close> keeps the task table, the queue variables, the callbacks that were
  called and what is reported as applied. It forgets the watch and reconcile loops, the session, the
  acknowledgements and the shutdown protocol. Every action of the loader is a sequence of steps of the
  specification, so what the specification keeps holds of the loader under every interleaving.
\<close>

section \<open>The abstract state\<close>

fun call_task :: "loader_event \<Rightarrow> nat option" where
  "call_task (PrepareCall t _) = Some t"
| "call_task (PrepareReturned t) = Some t"
| "call_task (CommitCall t _ _) = Some t"
| "call_task (AbortCall t) = Some t"
| "call_task _ = None"

record loader_core =
  co_tasks :: "(nat, loader_task) jsmap"
  co_next :: nat
  co_processing :: bool
  co_active :: "nat option"
  co_latest :: "candidate option"
  co_pending :: "candidate option"
  co_sequence :: int
  co_aborted :: bool
  co_finished :: bool
  co_calls :: "loader_event list"
  co_applied :: "int \<times> int \<times> int"

definition applied_of :: "mutable_status \<Rightarrow> int \<times> int \<times> int" where
  "applied_of st = (ms_appliedVersion st, ms_appliedRevision st, ms_appliedActivationRevision st)"

definition core :: "loader \<Rightarrow> loader_core" where
  "core ld = \<lparr>co_tasks = ld_tasks ld, co_next = ld_nextTask ld, co_processing = ld_processing ld,
     co_active = ld_activeController ld, co_latest = ld_latest ld, co_pending = ld_pending ld, co_sequence = ld_sequence ld,
     co_aborted = ld_runAborted ld, co_finished = (ld_finished ld \<noteq> None),
     co_calls = filter (\<lambda>e. call_task e \<noteq> None) (ld_log ld), co_applied = applied_of (ld_status ld)\<rparr>"

definition fresh_core :: "nat \<Rightarrow> loader_core" where
  "fresh_core n = \<lparr>co_tasks = [], co_next = n, co_processing = False, co_active = None, co_latest = None, co_pending = None,
     co_sequence = 0, co_aborted = False, co_finished = False, co_calls = [], co_applied = (0, 0, 0)\<rparr>"

definition move :: "nat \<Rightarrow> loader_task \<Rightarrow> task_pc \<Rightarrow> loader_core \<Rightarrow> loader_core" where
  "move t a pc k = k\<lparr>co_tasks := map_set t (a\<lparr>tk_pc := pc\<rparr>) (co_tasks k)\<rparr>"

definition call :: "loader_event \<Rightarrow> loader_core \<Rightarrow> loader_core" where
  "call e k = k\<lparr>co_calls := co_calls k @ [e]\<rparr>"

definition idle :: "loader_core \<Rightarrow> loader_core" where
  "idle k = k\<lparr>co_processing := False, co_active := None\<rparr>"

definition start_core :: "loader_cfg \<Rightarrow> real \<Rightarrow> candidate \<Rightarrow> loader_core \<Rightarrow> loader_core" where
  "start_core cfg now c k = k\<lparr>co_active := Some (co_next k), co_processing := True, co_next := co_next k + 1,
     co_tasks := map_set (co_next k) \<lparr>tk_candidate = c, tk_aborted = co_aborted k, tk_started = now,
       tk_pc = resolveCandidate cfg c (co_aborted k)\<rparr> (co_tasks k)\<rparr>"

definition admit :: "candidate \<Rightarrow> loader_core \<Rightarrow> loader_core" where
  "admit c k = k\<lparr>co_sequence := cd_sequence c, co_latest := Some c\<rparr>"

definition abort_current :: "loader_core \<Rightarrow> loader_core" where
  "abort_current k = (case co_active k of None \<Rightarrow> k | Some t \<Rightarrow> (case map_get (co_tasks k) t of None \<Rightarrow> k
     | Some a \<Rightarrow> k\<lparr>co_tasks := map_set t (abort_task a) (co_tasks k)\<rparr>))"

text \<open>Progress of a task that calls nothing outside.\<close>

definition pool_outcome ::
  "release_identity \<Rightarrow> bool \<Rightarrow> (release_entry, resolved_entry, release_category) pool \<Rightarrow> release_category + release_snapshot" where
  "pool_outcome ident aborted p = (case pool_result aborted p of
      Inl None \<Rightarrow> Inl Superseded
    | Inl (Some category) \<Rightarrow> Inl category
    | Inr results \<Rightarrow> if None \<in> set results then Inl ResolutionFailed else Inr (resolved_snapshot ident (map the results)))"

inductive advance :: "loader_cfg \<Rightarrow> candidate \<Rightarrow> bool \<Rightarrow> task_pc \<Rightarrow> task_pc \<Rightarrow> bool" for cfg c aborted where
  invalid: "advance cfg c aborted (TValidating ident) (TResolved (Inl category))"
| valid: "\<not> aborted \<Longrightarrow> advance cfg c aborted (TValidating ident) (TFetching ident (fetch_pool cfg c))"
| fetched: "w < length (po_workers p) \<Longrightarrow> po_workers p ! w = Busy i \<Longrightarrow>
    map_get (ri_entries ident) (re_alias (po_values p ! i)) = Some md \<Longrightarrow>
    advance cfg c aborted (TFetching ident p) (TFetching ident (pool_settle w
      (resolveEntry (lc_env cfg) (lc_opts cfg) now (po_aborted p) (po_values p ! i) md replies) p))"
| resolved: "pool_ended p \<Longrightarrow> advance cfg c aborted (TFetching ident p) (TResolved (pool_outcome ident aborted p))"
| unresolved: "\<not> rt_applied r \<Longrightarrow> advance cfg c aborted (TResolved (Inl category)) (TSettled r)"
| unprepared: "\<not> rt_applied r \<Longrightarrow> advance cfg c aborted TPreparing (TSettled r)"
| outside: "\<not> active_pc pc \<Longrightarrow> \<not> active_pc pc' \<Longrightarrow> advance cfg c aborted pc pc'"

section \<open>The specification\<close>

inductive core_step :: "loader_cfg \<Rightarrow> loader_core \<Rightarrow> loader_core \<Rightarrow> bool" for cfg where
  fail: "core_step cfg k (k\<lparr>co_finished := True\<rparr>)"
| advance: "map_get (co_tasks k) t = Some a \<Longrightarrow> advance cfg (tk_candidate a) (tk_aborted a) (tk_pc a) pc \<Longrightarrow>
    core_step cfg k (move t a pc k)"
| prepare: "map_get (co_tasks k) t = Some a \<Longrightarrow> tk_pc a = TResolved (Inr s) \<Longrightarrow>
    core_step cfg k (call (PrepareCall t s) (move t a TPreparing k))"
| prepared: "map_get (co_tasks k) t = Some a \<Longrightarrow> tk_pc a = TPreparing \<Longrightarrow> \<not> tk_aborted a \<Longrightarrow>
    core_step cfg k (call (PrepareReturned t) (move t a (TChecking p) k))"
| prepared_late: "map_get (co_tasks k) t = Some a \<Longrightarrow> tk_pc a = TPreparing \<Longrightarrow> tk_aborted a \<Longrightarrow> \<not> rt_applied r \<Longrightarrow>
    core_step cfg k (call (AbortCall t) (call (PrepareReturned t) (move t a (TSettled r) k)))"
| withdraw: "map_get (co_tasks k) t = Some a \<Longrightarrow> tk_pc a = TChecking p \<Longrightarrow> \<not> rt_applied r \<Longrightarrow>
    core_step cfg k (call (AbortCall t) (move t a (TSettled r) k))"
| commit: "map_get (co_tasks k) t = Some a \<Longrightarrow> tk_pc a = TChecking p \<Longrightarrow> \<not> tk_aborted a \<Longrightarrow>
    rt_applied r \<longleftrightarrow> res = ReturnsUndefined \<Longrightarrow>
    k' = call (CommitCall t (tk_candidate a) res) (move t a (TSettled r) k) \<Longrightarrow>
    core_step cfg k (k'\<lparr>co_applied := (if res = ReturnsUndefined
      then (cr_version (cd_release (tk_candidate a)), cd_revision (tk_candidate a), cd_fleetRevision (tk_candidate a))
      else co_applied k)\<rparr>)"
| settle_failed: "map_get (co_tasks k) t = Some a \<Longrightarrow> tk_pc a = TSettled r \<Longrightarrow>
    core_step cfg k ((idle (move t a TDone k))\<lparr>co_finished := True\<rparr>)"
| settle_startup: "map_get (co_tasks k) t = Some a \<Longrightarrow> tk_pc a = TSettled r \<Longrightarrow>
    Some (cd_sequence (tk_candidate a)) = map_option cd_sequence (co_latest k) \<Longrightarrow>
    core_step cfg k (idle (move t a (TStartupRead r) k))"
| settle_last: "map_get (co_tasks k) t = Some a \<Longrightarrow> tk_pc a = TSettled r \<Longrightarrow> co_pending k = None \<or> co_aborted k \<Longrightarrow>
    core_step cfg k (idle (move t a TDone k))"
| settle_next: "map_get (co_tasks k) t = Some a \<Longrightarrow> tk_pc a = TSettled r \<Longrightarrow> co_pending k = Some c \<Longrightarrow> \<not> co_aborted k \<Longrightarrow>
    core_step cfg k (start_core cfg now c ((idle (move t a TDone k))\<lparr>co_pending := None\<rparr>))"
| offer_start: "\<not> co_aborted k \<Longrightarrow> \<not> co_processing k \<Longrightarrow> cd_sequence c = co_sequence k + 1 \<Longrightarrow>
    releaseMatchesTrack (cd_release c) (lc_opts cfg) \<Longrightarrow> \<forall>l. co_latest k = Some l \<longrightarrow> cd_revision l \<le> cd_revision c \<Longrightarrow>
    core_step cfg k (start_core cfg now c (admit c k))"
| offer_supersede: "\<not> co_aborted k \<Longrightarrow> co_processing k \<Longrightarrow> cd_sequence c = co_sequence k + 1 \<Longrightarrow>
    releaseMatchesTrack (cd_release c) (lc_opts cfg) \<Longrightarrow> \<forall>l. co_latest k = Some l \<longrightarrow> cd_revision l \<le> cd_revision c \<Longrightarrow>
    core_step cfg k ((abort_current (admit c k))\<lparr>co_pending := Some c\<rparr>)"
| catch_abort: "map_get (co_tasks k) t = Some a \<Longrightarrow> \<not> active_pc (tk_pc a) \<Longrightarrow> co_aborted k \<Longrightarrow>
    core_step cfg k ((idle (move t a TDone k))\<lparr>co_finished := True\<rparr>)"
| abort_current: "core_step cfg k (abort_current k)"
| abort_all: "core_step cfg k (k\<lparr>co_aborted := True, co_tasks := map_upd_all (\<lambda>_. abort_task) (co_tasks k)\<rparr>)"
| new_run: "core_step cfg k (fresh_core (co_next k))"

section \<open>The loader refines the specification\<close>

abbreviation core_steps :: "loader_cfg \<Rightarrow> loader_core \<Rightarrow> loader_core \<Rightarrow> bool" where
  "core_steps cfg \<equiv> (core_step cfg)\<^sup>*\<^sup>*"

lemma core_side [simp]:
  "core (snd (ack_candidate cfg now c st ko d ld)) = core ld" "core (snd (reject cfg now c k ld)) = core ld"
  "core (recordRejected now k ld) = core ld" "core (recordReconnect ld) = core ld" "core (set_state st ld) = core ld"
  "core (observe c ld) = core ld" "core (on_acks g ld) = core ld" "core (see_revision r ld) = core ld"
  "core (leave_stream att sx rec thrown ld) = core ld" "core (watch_loop_head att ld) = core ld"
  by (auto simp: core_def applied_of_def side_defs Let_def split: option.split)

lemma core_updates [simp]:
  "core (ld\<lparr>ld_acks := x1\<rparr>) = core ld" "core (ld\<lparr>ld_session := x2\<rparr>) = core ld" "core (ld\<lparr>ld_stats := x4\<rparr>) = core ld"
  "core (ld\<lparr>ld_running := x5\<rparr>) = core ld" "core (ld\<lparr>ld_lastSeenRevision := x6\<rparr>) = core ld" "core (ld\<lparr>ld_retryLatest := x9\<rparr>) = core ld"
  "core (ld\<lparr>ld_appliedOnce := x11\<rparr>) = core ld" "core (ld\<lparr>ld_gracefulWatchStop := x12\<rparr>) = core ld" "core (ld\<lparr>ld_run := x14\<rparr>) = core ld"
  "core (ld\<lparr>ld_watch := x15\<rparr>) = core ld" "core (ld\<lparr>ld_recon := x16\<rparr>) = core ld" "core (ld\<lparr>ld_nextStream := x17\<rparr>) = core ld"
  "core (ld\<lparr>ld_outcome := x18\<rparr>) = core ld"
  "core (ld\<lparr>ld_sequence := x\<rparr>) = (core ld)\<lparr>co_sequence := x\<rparr>" "core (ld\<lparr>ld_latest := y\<rparr>) = (core ld)\<lparr>co_latest := y\<rparr>"
  "core (ld\<lparr>ld_pending := y\<rparr>) = (core ld)\<lparr>co_pending := y\<rparr>" "core (ld\<lparr>ld_processing := z\<rparr>) = (core ld)\<lparr>co_processing := z\<rparr>"
  "core (ld\<lparr>ld_activeController := t\<rparr>) = (core ld)\<lparr>co_active := t\<rparr>"
  "core (log_event e ld) = (if call_task e = None then core ld else call e (core ld))"
  by (simp_all add: core_def log_event_def call_def)

lemma core_fields [simp]:
  "co_tasks (core ld) = ld_tasks ld" "co_next (core ld) = ld_nextTask ld" "co_processing (core ld) = ld_processing ld"
  "co_active (core ld) = ld_activeController ld" "co_latest (core ld) = ld_latest ld" "co_pending (core ld) = ld_pending ld"
  "co_sequence (core ld) = ld_sequence ld" "co_aborted (core ld) = ld_runAborted ld" "co_finished (core ld) = (ld_finished ld \<noteq> None)"
  "co_applied (core ld) = applied_of (ld_status ld)"
  by (simp_all add: core_def)

lemma core_set_pc: "map_get (ld_tasks ld) t = Some a \<Longrightarrow> core (set_pc t pc ld) = move t a pc (core ld)"
  by (simp add: core_def set_pc_def set_task_def move_def)

lemma core_start: "core (start cfg now c ld) = start_core cfg now c (core ld)"
  by (simp add: core_def start_def start_core_def Let_def)

lemma core_abort_active: "core (abort_active ld) = abort_current (core ld)"
  by (auto simp: core_def abort_active_eq abort_current_def split: option.split)

lemma core_finish: "core (finish_reject f ld) = (core ld)\<lparr>co_finished := True\<rparr>"
  by (auto simp: core_def finish_reject_def split: option.split)

lemma core_abort_run: "core_steps cfg (core ld) (core (abort_run ld))"
proof (cases "ld_runAborted ld")
  case False
  then have "core (abort_run ld) = (core ld)\<lparr>co_aborted := True, co_tasks := map_upd_all (\<lambda>_. abort_task) (co_tasks (core ld))\<rparr>"
    by (simp add: abort_run_def core_def)
  then show ?thesis using core_step.abort_all [of cfg "core ld"] by auto
qed (simp add: abort_run_def)

lemma call_move: "call e (move t a pc k) = move t a pc (call e k)"
  by (simp add: call_def move_def)

lemma rt_applied_rejected [simp]: "\<not> rt_applied (rejected_result k gen fatal)"
  by (simp add: rejected_result_def)

lemma core_settle_rejected:
  assumes "map_get (ld_tasks ld) t = Some a"
  shows "core (settle_rejected cfg now t c k fatal ld) =
    move t a (TSettled (rejected_result k (fst (reject cfg now c k ld)) fatal)) (core ld)"
  unfolding settle_rejected_eq using assms by (subst core_set_pc) simp_all

lemma core_settle_aborting:
  assumes "map_get (ld_tasks ld) t = Some a"
  obtains r where "\<not> rt_applied r" "core (settle_aborting cfg now t c p k ld) = call (AbortCall t) (move t a (TSettled r) (core ld))"
proof -
  have a: "map_get (ld_tasks (log_event (AbortCall t) ld)) t = Some a" using assms by simp
  have "\<exists>r. \<not> rt_applied r \<and> core (settle_aborting cfg now t c p k ld) = call (AbortCall t) (move t a (TSettled r) (core ld))"
    unfolding settle_aborting_def Let_def core_settle_rejected [OF a]
    by (rule exI, rule conjI, rule rt_applied_rejected) (simp only: core_updates call_task.simps option.distinct if_False call_move)
  then show thesis using that by blast
qed

lemma core_stepsI: "core_step cfg k k' \<Longrightarrow> core_steps cfg k k'"
  by (rule r_into_rtranclp)

lemma core_offer: "core_steps cfg (core ld) (core (offer cfg now c ld))"
proof (cases rule: offer_cases [of cfg now c ld])
  case (superseding c')
  have "core (offer cfg now c ld) = (abort_current (admit c' (core ld)))\<lparr>co_pending := Some c'\<rparr>"
    using superseding by (simp add: core_abort_active admit_def)
  then show ?thesis using superseding core_step.offer_supersede [of "core ld" c' cfg] by (auto intro: core_stepsI)
next
  case (starting c')
  have "core (offer cfg now c ld) = start_core cfg now c' (admit c' (core ld))"
    using starting by (simp add: core_start admit_def)
  then show ?thesis using starting core_step.offer_start [of "core ld" c' cfg now] by (auto intro: core_stepsI)
qed simp

lemma core_process_resolve:
  "core_steps cfg (core ld) (core (validate_reply cfg t reply ld))" "core_steps cfg (core ld) (core (entry_reply cfg now t w replies ld))"
  "core_steps cfg (core ld) (core (pool_end t ld))"
  by (auto simp: validate_reply_def entry_reply_def pool_end_def pool_outcome_def [symmetric] core_set_pc Let_def
      split: option.split task_pc.split pool_worker.split intro!: core_stepsI core_step.advance intro: advance.intros)

lemma core_resolve_settled: "core_steps cfg (core ld) (core (resolve_settled cfg now t ld))"
proof (cases "map_get (ld_tasks ld) t")
  case (Some a)
  let ?ld = "ld\<lparr>ld_status := (ld_status ld)\<lparr>ms_lastResolutionDurationMs := max 0 (now - tk_started a)\<rparr>\<rparr>"
  have c: "core ?ld = core ld" by (simp add: core_def applied_of_def)
  show ?thesis
  proof (cases "tk_pc a")
    case (TResolved outcome)
    show ?thesis
    proof (cases outcome)
      case (Inl category)
      then show ?thesis using Some TResolved c core_settle_rejected [of ?ld t a]
        by (auto simp: resolve_settled_def Let_def intro!: core_stepsI core_step.advance advance.unresolved)
    next
      case (Inr snapshot)
      let ?ld1 = "set_state Received (snd (ack_candidate cfg now (tk_candidate a) Received None NO_DIVERGENCE ?ld))"
      have "map_get (ld_tasks ?ld1) t = Some a" using Some by simp
      from core_set_pc [OF this] have "core (set_pc t TPreparing ?ld1) = move t a TPreparing (core ld)" by (simp add: c)
      then show ?thesis using Some TResolved Inr core_step.prepare [of "core ld" t a snapshot]
        by (auto simp: resolve_settled_def Let_def intro!: core_stepsI)
    qed
  qed (use Some in \<open>simp_all add: resolve_settled_def\<close>)
qed (simp add: resolve_settled_def)

lemma core_prepare_settled: "core_steps cfg (core ld) (core (prepare_settled cfg now t reply ld))"
proof (cases "map_get (ld_tasks ld) t")
  case (Some a)
  show ?thesis
  proof (cases "tk_pc a = TPreparing")
    case True
    have fail: "core_steps cfg (core ld) (core (settle_rejected cfg now t c k False ld))" for c k
      unfolding core_settle_rejected [OF Some] using Some True by (auto intro!: core_stepsI core_step.advance advance.unprepared)
    have a: "map_get (ld_tasks (log_event (PrepareReturned t) ld)) t = Some a" using Some by simp
    show ?thesis
    proof (cases reply)
      case (PrepareReturns p)
      let ?ld1 = "set_state Prepared (snd (ack_candidate cfg now (tk_candidate a) Prepared None NO_DIVERGENCE (log_event (PrepareReturned t) ld)))"
      show ?thesis
      proof (cases "tk_aborted a")
        case True
        obtain r where r: "\<not> rt_applied r" "core (settle_aborting cfg now t (tk_candidate a) p Superseded (log_event (PrepareReturned t) ld)) =
            call (AbortCall t) (move t a (TSettled r) (core (log_event (PrepareReturned t) ld)))"
          using core_settle_aborting [OF a] by blast
        then show ?thesis using Some True \<open>tk_pc a = TPreparing\<close> PrepareReturns core_step.prepared_late [of "core ld" t a r]
          by (auto simp: prepare_settled_def Let_def call_def move_def intro!: core_stepsI)
      next
        case False
        have "map_get (ld_tasks ?ld1) t = Some a" using Some by simp
        from core_set_pc [OF this] have "core (set_pc t (TChecking p) ?ld1) = call (PrepareReturned t) (move t a (TChecking p) (core ld))"
          by (simp add: move_def call_def)
        then show ?thesis using Some False \<open>tk_pc a = TPreparing\<close> PrepareReturns core_step.prepared [of "core ld" t a]
          by (auto simp: prepare_settled_def Let_def intro!: core_stepsI)
      qed
    qed (use Some True fail in \<open>auto simp: prepare_settled_def Let_def\<close>)
  qed (use Some in \<open>auto simp: prepare_settled_def split: task_pc.split\<close>)
qed (simp add: prepare_settled_def)

lemma core_commit:
  assumes "map_get (ld_tasks ld) t = Some a" "tk_pc a = TChecking p" "\<not> tk_aborted a"
  shows "core_steps cfg (core ld) (core (commit cfg now t (tk_candidate a) p ld))"
proof (cases "pr_commit p = ReturnsUndefined")
  case True
  let ?ld1 = "log_event (CommitCall t (tk_candidate a) (pr_commit p)) ld"
  let ?ld2 = "snd (ack_candidate cfg now (tk_candidate a) Applied None (divergenceOf (pr_divergence p)) ?ld1)"
  let ?c = "tk_candidate a"
  let ?ld3 = "?ld2\<lparr>ld_status := (ld_status ?ld2)\<lparr>ms_state := Some Applied, ms_appliedVersion := cr_version (cd_release ?c),
       ms_appliedRevision := cd_revision ?c, ms_appliedActivationRevision := cd_fleetRevision ?c, ms_lastFailureCategory := None\<rparr>,
     ld_stats := (ld_stats ?ld2)\<lparr>mt_applied := mt_applied (ld_stats ?ld2) + 1\<rparr>\<rparr>"
  have c3: "core ?ld3 = (core ?ld2)\<lparr>co_applied := (cr_version (cd_release ?c), cd_revision ?c, cd_fleetRevision ?c)\<rparr>"
    by (simp add: core_def applied_of_def)
  have a3: "map_get (ld_tasks ?ld3) t = Some a" using assms(1) by simp
  have "core (commit cfg now t ?c p ld) = move t a (TSettled applied_result) (core ?ld3)"
    unfolding core_set_pc [OF a3, symmetric] using True by (simp add: commit_def Let_def)
  also have "\<dots> = (call (CommitCall t ?c ReturnsUndefined) (move t a (TSettled applied_result) (core ld)))
      \<lparr>co_applied := (cr_version (cd_release ?c), cd_revision ?c, cd_fleetRevision ?c)\<rparr>"
    unfolding c3 using True by (simp add: move_def call_def)
  finally show ?thesis
    using core_step.commit [of "core ld" t a p applied_result ReturnsUndefined _ cfg] assms
    by (auto simp: applied_result_def intro!: core_stepsI)
next
  case False
  let ?ld1 = "recordRejected now Internal (log_event (CommitCall t (tk_candidate a) (pr_commit p)) ld)"
  have a1: "map_get (ld_tasks ?ld1) t = Some a" using assms(1) by simp
  have "core (commit cfg now t (tk_candidate a) p ld) = move t a (TSettled broken_commit) (core ?ld1)"
    unfolding core_set_pc [OF a1, symmetric] using False by (simp add: commit_def Let_def)
  also have "\<dots> = (call (CommitCall t (tk_candidate a) (pr_commit p)) (move t a (TSettled broken_commit) (core ld)))\<lparr>co_applied := co_applied (core ld)\<rparr>"
    by (simp add: move_def call_def)
  finally show ?thesis
    using core_step.commit [of "core ld" t a p broken_commit "pr_commit p" _ cfg] assms False
    by (auto simp: broken_commit_def intro!: core_stepsI)
qed

lemma core_active_settled: "core_steps cfg (core ld) (core (active_settled cfg now t target ld))"
proof (cases "map_get (ld_tasks ld) t")
  case (Some a)
  show ?thesis
  proof (cases "tk_pc a")
    case (TChecking p)
    have "core_steps cfg (core ld) (core (settle_aborting cfg now t (tk_candidate a) p k ld))" for k
    proof -
      obtain r where "\<not> rt_applied r" "core (settle_aborting cfg now t (tk_candidate a) p k ld) = call (AbortCall t) (move t a (TSettled r) (core ld))"
        by (rule core_settle_aborting [OF Some])
      then show ?thesis using core_step.withdraw [of "core ld" t a p r cfg] Some TChecking by (auto intro: core_stepsI)
    qed
    then show ?thesis using Some TChecking core_commit [OF Some TChecking]
      by (auto simp: active_settled_def Let_def split: option.split)
  qed (use Some in \<open>simp_all add: active_settled_def\<close>)
qed (simp add: active_settled_def)

lemma core_task_settled: "core_steps cfg (core ld) (core (task_settled cfg now t ld))"
proof (cases "map_get (ld_tasks ld) t")
  case (Some a)
  show ?thesis
  proof (cases "tk_pc a")
    case (TSettled r)
    let ?ld1 = "\<lambda>x. (set_pc t TDone ld)\<lparr>ld_processing := False, ld_activeController := None, ld_appliedOnce := x\<rparr>"
    have c1: "core (?ld1 x) = idle (move t a TDone (core ld))" for x using core_set_pc [OF Some] by (simp add: idle_def)
    have t1: "map_get (ld_tasks (?ld1 x)) t = Some (a\<lparr>tk_pc := TDone\<rparr>)" for x using Some by (simp add: set_pc_tasks)
    have startup: "core (set_pc t (TStartupRead r) (?ld1 x)) = idle (move t a (TStartupRead r) (core ld))" for x
      unfolding core_set_pc [OF t1] c1 using Some by (simp add: idle_def move_def map_set_twice)
    have nxt: "core_steps cfg (core ld) (core (start_pending cfg now ld'))"
      if "core ld' = idle (move t a TDone (core ld))" for ld'
    proof -
      have p: "ld_pending ld' = ld_pending ld" "ld_runAborted ld' = ld_runAborted ld"
        using that by (simp_all add: core_def idle_def move_def)
      show ?thesis
      proof (cases "ld_pending ld = None \<or> ld_runAborted ld")
        case True
        then have "start_pending cfg now ld' = ld'" using p by (auto simp: start_pending_def split: option.split)
        then show ?thesis using that core_step.settle_last [of "core ld" t a r cfg] Some TSettled True by (auto intro: core_stepsI)
      next
        case False
        then obtain c where c: "ld_pending ld = Some c" "\<not> ld_runAborted ld" by auto
        then have "core (start_pending cfg now ld') = start_core cfg now c ((idle (move t a TDone (core ld)))\<lparr>co_pending := None\<rparr>)"
          using p that by (simp add: start_pending_def core_start)
        then show ?thesis using core_step.settle_next [of "core ld" t a r c cfg now] Some TSettled c by (auto intro: core_stepsI)
      qed
    qed
    have fail: "core_steps cfg (core ld) (core (finish_reject f (?ld1 x)))" for f x
      using core_step.settle_failed [of "core ld" t a r cfg] Some TSettled unfolding core_finish c1 by (auto intro: core_stepsI)
    have keep: "core_steps cfg (core ld) (core (set_pc t (TStartupRead r) (?ld1 x)))"
      if "Some (cd_sequence (tk_candidate a)) = map_option cd_sequence (ld_latest ld)" for x
      using core_step.settle_startup [of "core ld" t a r cfg] Some TSettled that unfolding startup by (auto intro: core_stepsI)
    show ?thesis using Some TSettled fail keep by (auto simp: task_settled_def Let_def core_set_pc [OF Some] idle_def intro!: nxt)
  qed (use Some in \<open>simp_all add: task_settled_def\<close>)
qed (simp add: task_settled_def)


lemma core_pc_step:
  "map_get (ld_tasks ld) t = Some a \<Longrightarrow> \<not> active_pc (tk_pc a) \<Longrightarrow> \<not> active_pc pc \<Longrightarrow>
   core_steps cfg (core ld) (core (set_pc t pc ld))"
  by (auto simp: core_set_pc intro!: core_stepsI core_step.advance advance.outside)

lemma core_pc_then:
  "map_get (ld_tasks ld) t = Some a \<Longrightarrow> \<not> active_pc (tk_pc a) \<Longrightarrow> \<not> active_pc pc \<Longrightarrow>
   core_steps cfg (core (set_pc t pc ld)) k \<Longrightarrow> core_steps cfg (core ld) k"
  using core_pc_step [of ld t a pc cfg] by (rule rtranclp_trans)

lemma core_finish_steps: "core_steps cfg (core ld) (core (finish_reject f ld))"
  by (auto simp: core_finish intro!: core_stepsI core_step.fail)

lemma core_task_catch:
  "map_get (ld_tasks ld) t = Some a \<Longrightarrow> \<not> active_pc (tk_pc a) \<Longrightarrow> ld_runAborted ld \<Longrightarrow> core_steps cfg (core ld) (core (task_catch t ld))"
  using core_step.catch_abort [of "core ld" t a cfg]
  by (auto simp: task_catch_def core_finish core_set_pc idle_def intro!: core_stepsI)

lemma core_startup_read: "core_steps cfg (core ld) (core (startup_read cfg now t target ld))"
proof (cases "map_get (ld_tasks ld) t")
  case (Some a)
  show ?thesis
  proof (cases "tk_pc a")
    case (TStartupRead r)
    have a: "\<not> active_pc (tk_pc a)" using TStartupRead by simp
    have "core_steps cfg (core ld) (core (finish_reject f (set_pc t TDone ld)))"
      "core_steps cfg (core ld) (core (offer cfg now c (set_pc t TDone ld)))" for f c
      using core_pc_then [OF Some a, of TDone cfg] core_finish_steps core_offer by simp_all
    moreover have "core_steps cfg (core ld) (core (set_pc t (TAckWait k) (ld\<lparr>ld_acks := x\<rparr>)))" for k x
      using core_pc_step [of "ld\<lparr>ld_acks := x\<rparr>" t a "TAckWait k" cfg] Some a by simp
    ultimately show ?thesis using Some TStartupRead by (simp add: startup_read_def Let_def split: option.split)
  qed (use Some in \<open>simp_all add: startup_read_def\<close>)
qed (simp add: startup_read_def)

lemma core_ack_waited:
  assumes "waits_inv ld"
  shows "core_steps cfg (core ld) (core (ack_waited t ld))"
proof (cases "map_get (ld_tasks ld) t")
  case (Some a)
  show ?thesis
  proof (cases "tk_pc a")
    case (TAckWait k)
    have a: "\<not> active_pc (tk_pc a)" using TAckWait by simp
    let ?g = "log_event (CloseSend s) (ld\<lparr>ld_gracefulWatchStop := True\<rparr>)"
    have "core_steps cfg (core ld) (core (finish_reject f (set_pc t TDone ld)))" for f
      using core_pc_then [OF Some a, of TDone cfg] core_finish_steps by simp
    moreover have "core_steps cfg (core ld) (core (set_pc t (TClosing k) (log_event (CloseSend s) (ld\<lparr>ld_gracefulWatchStop := True\<rparr>))))" for s
      using core_pc_step [of "log_event (CloseSend s) (ld\<lparr>ld_gracefulWatchStop := True\<rparr>)" t a "TClosing k" cfg] Some a by simp
    moreover have "core_steps cfg (core ld) (core (task_catch t ld))" if "map_get (ak_settled (ld_acks ld)) t = Some WaitAborted"
      using core_task_catch [OF Some a] that assms by (auto simp: waits_inv_def no_aborted_wait_def)
    ultimately show ?thesis using Some TAckWait by (auto simp: ack_waited_def Let_def split: option.split wait_result.split)
  qed (use Some in \<open>simp_all add: ack_waited_def\<close>)
qed (simp add: ack_waited_def)

lemma core_settle_within: "core_steps cfg (core ld) (core (settle_within t rejects ld))"
proof (cases "map_get (ld_tasks ld) t")
  case (Some a)
  show ?thesis
  proof (cases "active_pc (tk_pc a)")
    case False
    have "core_steps cfg (core ld) (core (finish_reject f (set_pc t TDone ld)))" "core_steps cfg (core ld) (core (set_pc t (TWatchWait k) ld))" for f k
      using core_pc_then [OF Some False, of TDone cfg] core_pc_step [OF Some False] core_finish_steps by simp_all
    then show ?thesis using Some core_task_catch [OF Some False] by (auto simp: settle_within_def split: task_pc.split)
  qed (use Some in \<open>auto simp: settle_within_def split: task_pc.split\<close>)
qed (simp add: settle_within_def)

lemma core_loops:
  "core_steps cfg (core ld) (core (watch_opened thrown ld))" "core_steps cfg (core ld) (core (watch_replay thrown ld))"
  "core_steps cfg (core ld) (core (watch_flushed code ld))" "core_steps cfg (core ld) (core (watch_ended thrown ld))"
  "core_steps cfg (core ld) (core (watch_closed ld))" "core_steps cfg (core ld) (core (watch_backoff_done ld))"
  "core_steps cfg (core ld) (core (recon_wake ld))" "core_steps cfg (core ld) (core (chain_send_failed ld))"
  using core_finish_steps [of cfg "ld\<lparr>ld_watch := WDone\<rparr>"]
  by (auto simp: watch_opened_def watch_replay_def watch_flushed_def watch_ended_def watch_closed_def
      watch_backoff_done_def recon_wake_def chain_send_failed_def Let_def
      split: lwatch_pc.split lrecon_pc.split option.split list.split bool.split)

lemma core_offers:
  "core_steps cfg (core ld) (core (watch_event_received cfg now ev revision ld))"
  "core_steps cfg (core ld) (core (recon_read cfg now target ld))"
proof -
  have o: "core_steps cfg (core ld) (core (offer cfg now c ld'))" if "core ld' = core ld" for c ld'
    using core_offer [of cfg ld' now c] that by simp
  show "core_steps cfg (core ld) (core (watch_event_received cfg now ev revision ld))"
    by (auto simp: watch_event_received_def intro!: o split: lwatch_pc.split option.split release_watch_event.split)
  show "core_steps cfg (core ld) (core (recon_read cfg now target ld))"
    by (auto simp: recon_read_def Let_def intro!: o split: lrecon_pc.split option.split)
qed

lemma core_run_finally: "core_steps cfg (core ld) (core (run_finally f ld))"
proof -
  have "core_step cfg (core ld) (core (abort_active ld))" using core_step.abort_current by (simp add: core_abort_active)
  then show ?thesis using core_abort_run [of cfg "abort_active ld"] by (auto simp: run_finally_def)
qed

lemma core_run_begin: "core_steps cfg (core ld) (core (run_begin cfg pc sa uuid ld))"
proof (cases "ld_running ld \<or> \<not> pc \<or> sa")
  case False
  let ?fresh = "ld\<lparr>ld_running := True, ld_session := \<lparr>se_sessionId = uuid, se_registered = False\<rparr>,
             ld_acks := no_acks\<lparr>ak_currentStream := ak_currentStream (ld_acks ld)\<rparr>, ld_lastSeenRevision := 0,
             ld_status := (ld_status ld)\<lparr>ms_state := None, ms_observedVersion := 0, ms_observedRevision := 0,
               ms_observedActivationRevision := 0, ms_appliedVersion := 0, ms_appliedRevision := 0,
               ms_appliedActivationRevision := 0, ms_lastFailureCategory := None, ms_lastFailureAt := None\<rparr>,
             ld_runAborted := False, ld_activeController := None, ld_tasks := [], ld_sequence := 0, ld_latest := None,
             ld_retryLatest := False, ld_pending := None, ld_processing := False, ld_appliedOnce := False,
             ld_gracefulWatchStop := False, ld_finished := None, ld_outcome := None, ld_watch := WOff, ld_recon := LOff,
             ld_log := []\<rparr>"
  have "core ?fresh = fresh_core (ld_nextTask ld)" by (simp add: core_def fresh_core_def applied_of_def)
  then have "core_step cfg (core ld) (core ?fresh)" using core_step.new_run [of cfg "core ld"] by simp
  moreover have "core_steps cfg (core ?fresh) (core (run_begin cfg pc sa uuid ld))"
    using False core_run_finally [of cfg ?fresh SessionsRequired] by (auto simp: run_begin_def Let_def)
  ultimately show ?thesis by (rule converse_rtranclp_into_rtranclp)
qed (auto simp: run_begin_def)

lemma core_running:
  "core_steps cfg (core ld) (core (run_registered capable ld))" "core_steps cfg (core ld) (core (run_initial cfg now target ld))"
  "core_steps cfg (core ld) (core (run_race_ends ld))" "core_steps cfg (core ld) (core (run_drain ld))"
  "core_steps cfg (core ld) (core (stop_loader ld))"
proof -
  have o: "core_steps cfg (core ld) (core (offer cfg now c ld'))" if "core ld' = core ld" for c ld'
    using core_offer [of cfg ld' now c] that by simp
  show "core_steps cfg (core ld) (core (run_initial cfg now target ld))"
    using core_run_finally by (auto simp: run_initial_def Let_def intro!: o split: lrun_pc.split option.split)
qed (use core_run_finally core_abort_run in \<open>auto simp: run_registered_def run_race_ends_def run_drain_def stop_loader_def Let_def
    split: lrun_pc.split option.split bool.split\<close>)

lemma core_refines: "waits_inv ld \<Longrightarrow> core_steps cfg (core ld) (core (loader_step cfg act ld))"
  by (cases act) (simp_all add: core_process_resolve core_resolve_settled core_prepare_settled core_active_settled core_task_settled
      core_startup_read core_ack_waited core_settle_within core_loops core_offers core_run_begin core_running)

lemma waits_inv_reach: "waits_inv (run (loader_step cfg) acts newReleaseLoader)"
  using loader_sched.inv_run [OF sched_inv_new] by (simp add: sched_inv_def)

text \<open>C14: the loader refines the coordination specification. From a reachable state, whatever action
  happens next, its effect on the tasks, the queue, the callbacks and the applied release is a sequence
  of steps of the specification.\<close>

theorem loader_refines_core:
  "core_steps cfg (core (run (loader_step cfg) acts newReleaseLoader))
     (core (loader_step cfg act (run (loader_step cfg) acts newReleaseLoader)))"
  by (rule core_refines [OF waits_inv_reach])

end
