(* ===== verification/Loader_Safety.thy ===== *)
theory Loader_Safety
  imports Loader_Spec
begin

text \<open>
  What the coordination specification keeps, and through the refinement what the release loader
  keeps: one candidate at a time; commits only of the latest, unsuperseded, verified candidate, in
  order; every prepared release committed or aborted exactly once; the reported release is the last
  one committed. The last section exhibits a run in which a startup rejection that became stale ends
  the loader after a newer release was committed.
\<close>

section \<open>One candidate at a time\<close>

definition base_core :: "loader_core \<Rightarrow> bool" where
  "base_core k \<longleftrightarrow> map_ok (co_tasks k) \<and> (\<forall>t \<in> fst ` set (co_tasks k). t < co_next k) \<and>
     length (act_ids (co_tasks k)) \<le> 1 \<and>
     (\<not> co_aborted k \<longrightarrow> (if co_processing k then \<exists>t. co_active k = Some t \<and> act_ids (co_tasks k) = [t] else act_ids (co_tasks k) = [])) \<and>
     (co_aborted k \<longrightarrow> (\<forall>t a. map_get (co_tasks k) t = Some a \<longrightarrow> active_pc (tk_pc a) \<longrightarrow> tk_aborted a))"

lemma base_core_cong:
  "co_tasks k' = co_tasks k \<Longrightarrow> co_next k' = co_next k \<Longrightarrow> co_aborted k' = co_aborted k \<Longrightarrow> co_processing k' = co_processing k \<Longrightarrow>
   co_active k' = co_active k \<Longrightarrow> base_core k' = base_core k"
  by (simp add: base_core_def)

lemma advance_active: "advance cfg c aborted pc pc' \<Longrightarrow> active_pc pc' = active_pc pc"
  by (induction rule: advance.induct) auto

lemma base_core_move:
  assumes "base_core k" "map_get (co_tasks k) t = Some a" "active_pc pc = active_pc (tk_pc a)"
  shows "base_core (move t a pc k)"
proof -
  have "act_ids (map_set t (a\<lparr>tk_pc := pc\<rparr>) (co_tasks k)) = act_ids (co_tasks k)" using assms by (intro act_ids_same) auto
  moreover have "t < co_next k" using assms(1) map_get_in [OF assms(2)] by (force simp: base_core_def)
  ultimately show ?thesis using assms by (auto simp: base_core_def move_def)
qed

lemma active_unique:
  assumes "base_core k" "map_get (co_tasks k) t = Some a" "active_pc (tk_pc a)"
  shows "act_ids (co_tasks k) = [t]"
proof -
  have "map_ok (co_tasks k)" using assms(1) by (simp add: base_core_def)
  then have "t \<in> set (act_ids (co_tasks k))" using act_ids_mem assms(2,3) by blast
  then show ?thesis using assms(1) by (cases "act_ids (co_tasks k)") (auto simp: base_core_def)
qed

lemma base_core_off:
  assumes "base_core k" "map_get (co_tasks k) t = Some a" "active_pc (tk_pc a)" "\<not> active_pc pc"
  shows "base_core (idle (move t a pc k))" "act_ids (co_tasks (move t a pc k)) = []"
proof -
  have ok: "map_ok (co_tasks k)" using assms(1) by (simp add: base_core_def)
  show off: "act_ids (co_tasks (move t a pc k)) = []"
    using act_ids_off [OF ok assms(2), of "a\<lparr>tk_pc := pc\<rparr>"] active_unique [OF assms(1-3)] assms(4) by (simp add: move_def)
  moreover have "t < co_next k" using assms(1) map_get_in [OF assms(2)] by (force simp: base_core_def)
  ultimately show "base_core (idle (move t a pc k))" using assms by (auto simp: base_core_def move_def idle_def)
qed

lemma base_core_start:
  assumes "base_core k" "\<not> co_processing k" "\<not> co_aborted k"
  shows "base_core (start_core cfg now c k)"
proof -
  have new: "co_next k \<notin> fst ` set (co_tasks k)" using assms(1) by (auto simp: base_core_def)
  show ?thesis using assms act_ids_new [OF new] by (auto simp: base_core_def start_core_def less_Suc_eq)
qed

lemma base_core_abort_current: "base_core k \<Longrightarrow> base_core (abort_current k)"
proof (cases "co_active k")
  case (Some t)
  assume inv: "base_core k"
  show ?thesis
  proof (cases "map_get (co_tasks k) t")
    case (Some a)
    have "act_ids (map_set t (abort_task a) (co_tasks k)) = act_ids (co_tasks k)" using Some by (rule act_ids_same) simp
    moreover have "t < co_next k" using inv map_get_in [OF Some] by (force simp: base_core_def)
    ultimately show ?thesis using inv Some \<open>co_active k = Some t\<close> by (auto simp: base_core_def abort_current_def)
  qed (use inv Some in \<open>simp add: abort_current_def\<close>)
qed (simp add: abort_current_def)

lemma base_core_simps [simp]:
  "base_core (k\<lparr>co_finished := x\<rparr>) = base_core k" "base_core (k\<lparr>co_pending := y\<rparr>) = base_core k" "base_core (k\<lparr>co_applied := z\<rparr>) = base_core k"
  "base_core (call e k) = base_core k" "base_core (admit c k) = base_core k" "base_core (fresh_core n)"
  by (simp_all add: base_core_def call_def admit_def fresh_core_def act_ids_def)

lemma admit_fields [simp]:
  "co_tasks (admit c k) = co_tasks k" "co_next (admit c k) = co_next k" "co_processing (admit c k) = co_processing k"
  "co_aborted (admit c k) = co_aborted k" "co_pending (admit c k) = co_pending k" "co_latest (admit c k) = Some c"
  "co_active (admit c k) = co_active k" "co_finished (admit c k) = co_finished k" "co_calls (admit c k) = co_calls k"
  "co_applied (admit c k) = co_applied k" "co_sequence (admit c k) = cd_sequence c"
  by (simp_all add: admit_def)

lemma base_core_step:
  assumes "core_step cfg k k'" "base_core k"
  shows "base_core k'"
  using assms
proof (cases rule: core_step.cases)
  case (advance t a pc)
  then show ?thesis using assms(2) by (simp add: base_core_move advance_active)
next
  case (settle_next t a r c now)
  have "base_core (idle (move t a TDone k))" using base_core_off(1) [OF assms(2) settle_next(2)] settle_next(3) by simp
  then show ?thesis using settle_next by (auto intro!: base_core_start simp: idle_def move_def)
next
  case (catch_abort t a)
  have "base_core (move t a TDone k)" using catch_abort assms(2) by (intro base_core_move) auto
  then show ?thesis using catch_abort by (auto simp: base_core_def idle_def move_def)
next
  case abort_all
  then show ?thesis using assms(2) by (auto simp: base_core_def set_upd_all)
qed (use assms(2) in \<open>auto intro!: base_core_move base_core_off base_core_start base_core_abort_current\<close>)

section \<open>The order of candidates\<close>

definition order_core :: "loader_core \<Rightarrow> bool" where
  "order_core k \<longleftrightarrow> sorted_wrt (<) (task_seqs (co_tasks k)) \<and> (\<forall>s \<in> set (task_seqs (co_tasks k)). s \<le> co_sequence k) \<and>
     (co_tasks k \<noteq> [] \<longrightarrow> co_latest k \<noteq> None) \<and>
     (\<forall>l. co_latest k = Some l \<longrightarrow> cd_sequence l = co_sequence k \<and> (\<forall>r \<in> set (task_revs (co_tasks k)). r \<le> cd_revision l)) \<and>
     (\<forall>c. co_pending k = Some c \<longrightarrow> co_latest k = Some c \<and> (\<forall>s \<in> set (task_seqs (co_tasks k)). s < cd_sequence c) \<and>
        (\<not> co_aborted k \<longrightarrow> co_processing k)) \<and>
     (\<forall>t a. map_get (co_tasks k) t = Some a \<longrightarrow> active_pc (tk_pc a) \<longrightarrow> \<not> tk_aborted a \<longrightarrow> co_latest k = Some (tk_candidate a))"

lemma order_core_move:
  assumes "order_core k" "map_get (co_tasks k) t = Some a" "active_pc pc \<Longrightarrow> active_pc (tk_pc a)"
  shows "order_core (move t a pc k)"
  using assms task_seqs_same [OF assms(2), of "a\<lparr>tk_pc := pc\<rparr>"] by (auto simp: order_core_def move_def)

lemma order_core_simps [simp]:
  "order_core (k\<lparr>co_finished := x\<rparr>) = order_core k" "order_core (k\<lparr>co_applied := z\<rparr>) = order_core k" "order_core (call e k) = order_core k"
  by (simp_all add: order_core_def call_def)

text \<open>Switching the flags off is harmless once nothing is pending or the run is aborted.\<close>

lemma order_core_idle: "order_core k \<Longrightarrow> co_pending k = None \<or> co_aborted k \<Longrightarrow> order_core (idle k)"
  by (auto simp: order_core_def idle_def)

lemma order_core_start:
  assumes "order_core (k\<lparr>co_processing := True\<rparr>)" "co_next k \<notin> fst ` set (co_tasks k)" "co_latest k = Some c" "co_pending k = None"
    and "\<forall>s \<in> set (task_seqs (co_tasks k)). s < cd_sequence c"
  shows "order_core (start_core cfg now c k)"
  using assms(1,3,4,5) task_seqs_new [OF assms(2)] unfolding start_core_def
  by (auto simp: order_core_def sorted_wrt_append)


lemma map_get_abort_current:
  "map_get (co_tasks (abort_current k)) t =
     (if co_active k = Some t then map_option abort_task (map_get (co_tasks k) t) else map_get (co_tasks k) t)"
  by (auto simp: abort_current_def split: option.split)

lemma abort_current_fields [simp]:
  "co_latest (abort_current k) = co_latest k" "co_pending (abort_current k) = co_pending k" "co_sequence (abort_current k) = co_sequence k"
  "co_aborted (abort_current k) = co_aborted k" "co_finished (abort_current k) = co_finished k" "co_calls (abort_current k) = co_calls k"
  "co_applied (abort_current k) = co_applied k" "co_processing (abort_current k) = co_processing k" "co_active (abort_current k) = co_active k"
  "task_seqs (co_tasks (abort_current k)) = task_seqs (co_tasks k)" "task_revs (co_tasks (abort_current k)) = task_revs (co_tasks k)"
  "co_tasks (abort_current k) = [] \<longleftrightarrow> co_tasks k = []"
proof -
  show "co_tasks (abort_current k) = [] \<longleftrightarrow> co_tasks k = []"
    by (cases "co_tasks k") (auto simp: abort_current_def split: option.split if_splits)
qed (auto simp: abort_current_def task_seqs_same split: option.split)

lemma order_core_abort_current: "order_core k \<Longrightarrow> order_core (abort_current k)"
  by (auto simp: order_core_def map_get_abort_current split: if_splits)

lemma order_core_abort_all:
  "order_core k \<Longrightarrow> order_core (k\<lparr>co_aborted := True, co_tasks := map_upd_all (\<lambda>_. abort_task) (co_tasks k)\<rparr>)"
  by (auto simp: order_core_def map_upd_all_def [of _ "[]"])

lemma order_core_settled:
  assumes "order_core k" "base_core k" "map_get (co_tasks k) t = Some a" "tk_pc a = TSettled r"
    and "Some (cd_sequence (tk_candidate a)) = map_option cd_sequence (co_latest k)"
  shows "co_pending k = None"
proof (rule ccontr)
  assume "co_pending k \<noteq> None"
  then obtain c where "co_pending k = Some c" by auto
  then have "co_latest k = Some c" "\<forall>s \<in> set (task_seqs (co_tasks k)). s < cd_sequence c" using assms(1) by (auto simp: order_core_def)
  moreover have "cd_sequence (tk_candidate a) \<in> set (task_seqs (co_tasks k))"
    using map_get_in [OF assms(3)] by (force simp: task_seqs_def)
  ultimately show False using assms(5) by auto
qed

lemma new_task: "base_core k \<Longrightarrow> co_next k \<notin> fst ` set (co_tasks k)"
  by (auto simp: base_core_def)

lemma no_active: "base_core k \<Longrightarrow> \<not> co_processing k \<Longrightarrow> \<not> co_aborted k \<Longrightarrow> map_get (co_tasks k) t = Some a \<Longrightarrow> \<not> active_pc (tk_pc a)"
  using act_ids_mem [of "co_tasks k" t] by (auto simp: base_core_def)

lemma the_active:
  assumes "base_core k" "co_processing k" "\<not> co_aborted k" "map_get (co_tasks k) t = Some a" "active_pc (tk_pc a)"
  shows "co_active k = Some t"
proof -
  obtain t' where "co_active k = Some t'" "act_ids (co_tasks k) = [t']" using assms(1-3) unfolding base_core_def by metis
  with active_unique [OF assms(1,4,5)] show ?thesis by simp
qed

lemma order_core_offer_start:
  assumes "order_core k" "base_core k" "\<not> co_aborted k" "\<not> co_processing k" "cd_sequence c = co_sequence k + 1"
    and "\<forall>l. co_latest k = Some l \<longrightarrow> cd_revision l \<le> cd_revision c"
  shows "order_core (start_core cfg now c (admit c k))"
proof (rule order_core_start)
  have "co_pending k = None" using assms(1,3,4) by (auto simp: order_core_def)
  moreover have "\<forall>r \<in> set (task_revs (co_tasks k)). r \<le> cd_revision c"
  proof (cases "co_latest k")
    case None
    then have "co_tasks k = []" using assms(1) by (auto simp: order_core_def)
    then show ?thesis by (simp add: task_revs_def)
  qed (use assms(1,6) in \<open>auto simp: order_core_def intro: order.trans\<close>)
  ultimately show "order_core ((admit c k)\<lparr>co_processing := True\<rparr>)" "co_pending (admit c k) = None"
    using assms no_active [OF assms(2,4,3)] by (auto simp: order_core_def intro: order.trans)
  show "\<forall>s \<in> set (task_seqs (co_tasks (admit c k))). s < cd_sequence c" using assms(1,5) by (auto simp: order_core_def)
qed (use new_task [OF assms(2)] in auto)

lemma order_core_offer_supersede:
  assumes "order_core k" "base_core k" "\<not> co_aborted k" "co_processing k" "cd_sequence c = co_sequence k + 1"
    and "\<forall>l. co_latest k = Some l \<longrightarrow> cd_revision l \<le> cd_revision c"
  shows "order_core ((abort_current (admit c k))\<lparr>co_pending := Some c\<rparr>)"
proof -
  have "\<forall>r \<in> set (task_revs (co_tasks k)). r \<le> cd_revision c"
  proof (cases "co_latest k")
    case None
    then have "co_tasks k = []" using assms(1) by (auto simp: order_core_def)
    then show ?thesis by (simp add: task_revs_def)
  qed (use assms(1,6) in \<open>auto simp: order_core_def intro: order.trans\<close>)
  moreover have "\<forall>s \<in> set (task_seqs (co_tasks k)). s < cd_sequence c" using assms(1,5) by (auto simp: order_core_def)
  moreover have "tk_aborted a" if "map_get (co_tasks (abort_current (admit c k))) t = Some a" "active_pc (tk_pc a)" for t a
  proof (cases "co_active k = Some t")
    case False
    then have "map_get (co_tasks k) t = Some a" using that(1) by (simp add: map_get_abort_current)
    then show ?thesis using the_active [OF assms(2,4,3)] that(2) False by blast
  qed (use that(1) in \<open>auto simp: map_get_abort_current\<close>)
  moreover have "sorted_wrt (<) (task_seqs (co_tasks k))" using assms(1) by (simp add: order_core_def)
  ultimately show ?thesis using assms(4) unfolding order_core_def by (simp add: less_imp_le)
qed

lemma order_core_settle_next:
  assumes "order_core k" "base_core k" "map_get (co_tasks k) t = Some a" "tk_pc a = TSettled r" "co_pending k = Some c" "\<not> co_aborted k"
  shows "order_core (start_core cfg now c ((idle (move t a TDone k))\<lparr>co_pending := None\<rparr>))"
proof (rule order_core_start)
  have m: "order_core (move t a TDone k)" using assms(1,3) by (rule order_core_move) simp
  have seqs: "task_seqs (co_tasks (move t a TDone k)) = task_seqs (co_tasks k)"
    using task_seqs_same(1) [OF assms(3), of "a\<lparr>tk_pc := TDone\<rparr>"] by (simp add: move_def)
  show "order_core ((idle (move t a TDone k))\<lparr>co_pending := None, co_processing := True\<rparr>)" using m by (auto simp: order_core_def idle_def)
  show "co_latest ((idle (move t a TDone k))\<lparr>co_pending := None\<rparr>) = Some c"
    "\<forall>s \<in> set (task_seqs (co_tasks ((idle (move t a TDone k))\<lparr>co_pending := None\<rparr>))). s < cd_sequence c"
    using assms(1,5) seqs by (auto simp: order_core_def idle_def move_def)
  show "co_next ((idle (move t a TDone k))\<lparr>co_pending := None\<rparr>) \<notin> fst ` set (co_tasks ((idle (move t a TDone k))\<lparr>co_pending := None\<rparr>))"
    using new_task [OF assms(2)] imageI [OF map_get_in [OF assms(3)], of fst] by (auto simp: idle_def move_def)
qed simp

lemma order_core_fresh: "order_core (fresh_core n)"
  by (simp add: order_core_def fresh_core_def task_seqs_def task_revs_def)

lemma order_core_step:
  assumes "core_step cfg k k'" "base_core k" "order_core k" "\<not> co_finished k'"
  shows "order_core k'"
  using assms(1)
proof (cases rule: core_step.cases)
  case (advance t a pc)
  from advance_active [OF advance(3)] show ?thesis unfolding advance(1) using order_core_move [OF assms(3) advance(2)] by blast
next
  case (settle_startup t a r)
  then have "co_pending k = None" using order_core_settled [OF assms(3,2)] by blast
  moreover have "order_core (move t a (TStartupRead r) k)" using assms(3) settle_startup(2) by (rule order_core_move) simp
  ultimately show ?thesis using settle_startup(1) by (simp add: order_core_idle move_def)
next
  case (settle_last t a r)
  moreover have "order_core (move t a TDone k)" using assms(3) settle_last(2) by (rule order_core_move) simp
  ultimately show ?thesis by (simp add: order_core_idle move_def)
next
  case (prepare t a s)
  then show ?thesis using order_core_move [OF assms(3) prepare(2), of TPreparing] by simp
next
  case (prepared t a p)
  then show ?thesis using order_core_move [OF assms(3) prepared(2), of "TChecking p"] by simp
next
  case (prepared_late t a r)
  then show ?thesis using order_core_move [OF assms(3) prepared_late(2), of "TSettled r"] by simp
next
  case (withdraw t a p r)
  then show ?thesis using order_core_move [OF assms(3) withdraw(2), of "TSettled r"] by simp
next
  case (commit t a p r res k'')
  then show ?thesis using order_core_move [OF assms(3) commit(2), of "TSettled r"] by simp
next
  case (settle_next t a r c now)
  then show ?thesis using order_core_settle_next [OF assms(3,2) settle_next(2-5)] by simp
next
  case (offer_start c now)
  then show ?thesis using order_core_offer_start [OF assms(3,2) offer_start(2-4) offer_start(6)] by simp
next
  case (offer_supersede c)
  then show ?thesis using order_core_offer_supersede [OF assms(3,2) offer_supersede(2-4) offer_supersede(6)] by simp
qed (use assms(3,4) order_core_abort_current order_core_abort_all order_core_fresh in simp_all)

section \<open>Callbacks\<close>

text \<open>What is known of a snapshot given to the application: the release is of the loader's track, its
  digest matches, and the snapshot pins exactly its entries.\<close>

definition good_snapshot :: "loader_cfg \<Rightarrow> candidate \<Rightarrow> release_snapshot \<Rightarrow> bool" where
  "good_snapshot cfg c s \<longleftrightarrow> releaseMatchesTrack (cd_release c) (lc_opts cfg) \<and>
     releaseDigestMatches (env_sha256 (lc_env cfg)) (env_encode (lc_env cfg)) (cd_release c) = Inr True \<and>
     ri_version (sn_identity s) = cr_version (cd_release c) \<and> ri_targetRevision (sn_identity s) = cd_revision c \<and>
     snapshot_exact (lc_env cfg) c s"

definition calls_of :: "nat \<Rightarrow> loader_core \<Rightarrow> loader_event list" where
  "calls_of t k = filter (\<lambda>e. call_task e = Some t) (co_calls k)"

definition fetching_ok :: "loader_cfg \<Rightarrow> candidate \<Rightarrow> release_identity \<Rightarrow> (release_entry, resolved_entry, release_category) pool \<Rightarrow> bool" where
  "fetching_ok cfg c ident p \<longleftrightarrow> manifest_ok (lc_env cfg) (lc_opts cfg) c ident \<and> po_values p = cr_entries (cd_release c) \<and>
     pool_shape (entry_verified (lc_env cfg)) p"

definition ended_calls :: "loader_cfg \<Rightarrow> nat \<Rightarrow> candidate \<Rightarrow> loader_event list \<Rightarrow> bool" where
  "ended_calls cfg t c cs \<longleftrightarrow> cs = [] \<or> (\<exists>s. good_snapshot cfg c s \<and>
     (cs = [PrepareCall t s] \<or> cs = [PrepareCall t s, PrepareReturned t, AbortCall t] \<or>
      (\<exists>res. cs = [PrepareCall t s, PrepareReturned t, CommitCall t c res])))"

text \<open>The callbacks a task has made, by its program counter.\<close>

fun protocol :: "loader_cfg \<Rightarrow> nat \<Rightarrow> candidate \<Rightarrow> task_pc \<Rightarrow> loader_event list \<Rightarrow> bool" where
  "protocol cfg t c (TValidating ident) cs = (cs = [] \<and> manifest_ok (lc_env cfg) (lc_opts cfg) c ident)"
| "protocol cfg t c (TFetching ident p) cs = (cs = [] \<and> fetching_ok cfg c ident p)"
| "protocol cfg t c (TResolved (Inl _)) cs = (cs = [])"
| "protocol cfg t c (TResolved (Inr s)) cs = (cs = [] \<and> good_snapshot cfg c s)"
| "protocol cfg t c TPreparing cs = (\<exists>s. cs = [PrepareCall t s] \<and> good_snapshot cfg c s)"
| "protocol cfg t c (TChecking _) cs = (\<exists>s. cs = [PrepareCall t s, PrepareReturned t] \<and> good_snapshot cfg c s)"
| "protocol cfg t c _ cs = ended_calls cfg t c cs"

definition trace_core :: "loader_cfg \<Rightarrow> loader_core \<Rightarrow> bool" where
  "trace_core cfg k \<longleftrightarrow> (\<forall>t. map_get (co_tasks k) t = None \<longrightarrow> calls_of t k = []) \<and>
     (\<forall>t a. map_get (co_tasks k) t = Some a \<longrightarrow> protocol cfg t (tk_candidate a) (tk_pc a) (calls_of t k))"

lemma trace_coreD: "trace_core cfg k \<Longrightarrow> map_get (co_tasks k) t = Some a \<Longrightarrow> protocol cfg t (tk_candidate a) (tk_pc a) (calls_of t k)"
  unfolding trace_core_def by blast

lemma protocol_ended: "\<not> active_pc pc \<Longrightarrow> protocol cfg t c pc cs = ended_calls cfg t c cs"
  by (cases pc) auto

lemma pool_shape_start: "pool_shape P (mapConcurrent xs c a)"
  using pool_inv_start unfolding pool_inv_def by blast

lemma fetch_pool_ok: "manifest_ok (lc_env cfg) (lc_opts cfg) c ident \<Longrightarrow> fetching_ok cfg c ident (fetch_pool cfg c)"
  unfolding fetching_ok_def fetch_pool_def by (simp only: mapConcurrent_fields pool_shape_start simp_thms)

lemma fetching_ok_settle:
  assumes "fetching_ok cfg c ident p" "w < length (po_workers p)" "po_workers p ! w = Busy i"
    and "map_get (ri_entries ident) (re_alias (po_values p ! i)) = Some md"
  shows "fetching_ok cfg c ident (pool_settle w
    (resolveEntry (lc_env cfg) (lc_opts cfg) now (po_aborted p) (po_values p ! i) md replies) p)"
proof -
  have shape: "pool_shape (entry_verified (lc_env cfg)) p" and man: "manifest_ok (lc_env cfg) (lc_opts cfg) c ident"
    and vals: "po_values p = cr_entries (cd_release c)" using assms(1) by (auto simp: fetching_ok_def)
  have h: "holds_place p w i" using assms(2,3) by (simp add: holds_place_def)
  have "i < length (po_values p)" using pool_shape_place [OF shape h] shape by (simp add: pool_shape_def)
  then have "po_values p ! i \<in> set (cr_entries (cd_release c))" using vals by simp
  then have "metadataForEntry (po_values p ! i) = Inr md" using man assms(4) by (auto simp: manifest_ok_def)
  then have "entry_verified (lc_env cfg) (po_values p ! j) v"
    if "holds_place p w j" "resolveEntry (lc_env cfg) (lc_opts cfg) now (po_aborted p) (po_values p ! i) md replies = Inr v" for j v
    using that h resolveEntry_verified by (auto simp: holds_place_def)
  from pool_shape_settle [OF shape this] show ?thesis using man vals by (simp add: fetching_ok_def)
qed

lemma resolved_snapshot_identity: "sn_identity (resolved_snapshot ident vs) = ident"
  by (simp add: resolved_snapshot_def newReleaseSnapshot_def split: prod.split)

lemma pool_outcome_good:
  assumes "fetching_ok cfg c ident p" "pool_outcome ident aborted p = Inr s"
  shows "good_snapshot cfg c s"
proof -
  have shape: "pool_shape (entry_verified (lc_env cfg)) p" and man: "manifest_ok (lc_env cfg) (lc_opts cfg) c ident"
    and vals: "po_values p = cr_entries (cd_release c)" using assms(1) by (auto simp: fetching_ok_def)
  have s: "None \<notin> set (po_results p)" "s = resolved_snapshot ident (map the (po_results p))"
    using assms(2) by (auto simp: pool_outcome_def pool_result_def split: option.splits if_splits)
  have "list_all2 (entry_verified (lc_env cfg)) (cr_entries (cd_release c)) (map the (po_results p))"
    unfolding list_all2_conv_all_nth vals [symmetric]
  proof (intro conjI allI impI)
    show len: "length (po_values p) = length (map the (po_results p))" using shape by (simp add: pool_shape_def)
    fix i
    assume i: "i < length (po_values p)"
    then have "po_results p ! i \<noteq> None" using s(1) len by (metis length_map nth_mem)
    then show "entry_verified (lc_env cfg) (po_values p ! i) (map the (po_results p) ! i)"
      using shape i len by (auto simp: pool_shape_def)
  qed
  from resolved_snapshot_exact [OF this] man show ?thesis unfolding s(2) by (simp add: good_snapshot_def manifest_ok_def resolved_snapshot_identity)
qed

lemma advance_protocol:
  assumes "advance cfg c aborted pc pc'" "protocol cfg t c pc cs"
  shows "protocol cfg t c pc' cs"
  using assms
proof (induction rule: advance.induct)
  case (resolved p ident)
  then show ?case using pool_outcome_good by (cases "pool_outcome ident aborted p") auto
qed (auto simp: fetch_pool_ok fetching_ok_settle ended_calls_def protocol_ended)

lemma resolveCandidate_protocol: "protocol cfg t c (resolveCandidate cfg c aborted) []"
  using candidate_manifest_ok by (auto simp: resolveCandidate_def fetch_pool_ok split: sum.split)

lemma protocol_abort: "protocol cfg t c pc cs \<Longrightarrow> protocol cfg t c (abort_pc pc) cs"
  by (cases pc) (auto simp: abort_pc_def fetching_ok_def pool_shape_def pool_abort_def holds_place_def)

lemma trace_core_update:
  assumes "trace_core cfg k" "\<And>t'. t' \<noteq> t \<Longrightarrow> map_get (co_tasks k') t' = map_get (co_tasks k) t' \<and> calls_of t' k' = calls_of t' k"
    and "map_get (co_tasks k') t = Some b" "protocol cfg t (tk_candidate b) (tk_pc b) (calls_of t k')"
  shows "trace_core cfg k'"
  using assms unfolding trace_core_def by (metis option.distinct(1) option.inject)

lemma trace_core_same:
  "trace_core cfg k \<Longrightarrow> co_tasks k' = co_tasks k \<Longrightarrow> co_calls k' = co_calls k \<Longrightarrow> trace_core cfg k'"
  unfolding trace_core_def calls_of_def by simp

lemma trace_core_move:
  assumes "trace_core cfg k" "map_get (co_tasks k) t = Some a" "co_tasks k' = map_set t (a\<lparr>tk_pc := pc\<rparr>) (co_tasks k)"
    "co_calls k' = co_calls k @ es" "\<forall>e \<in> set es. call_task e = Some t"
    "\<And>cs. protocol cfg t (tk_candidate a) (tk_pc a) cs \<Longrightarrow> protocol cfg t (tk_candidate a) pc (cs @ es)"
  shows "trace_core cfg k'"
proof (rule trace_core_update [OF assms(1)])
  show "map_get (co_tasks k') t = Some (a\<lparr>tk_pc := pc\<rparr>)" using assms(3) by simp
  have es: "filter (\<lambda>e. call_task e = Some t) es = es" using assms(5) by (simp add: filter_id_conv)
  show "protocol cfg t (tk_candidate (a\<lparr>tk_pc := pc\<rparr>)) (tk_pc (a\<lparr>tk_pc := pc\<rparr>)) (calls_of t k')"
    using assms(6) [OF trace_coreD [OF assms(1,2)]] es assms(4) by (simp add: calls_of_def)
  fix t'
  assume "t' \<noteq> t"
  then have "filter (\<lambda>e. call_task e = Some t') es = []" using assms(5) by (auto simp: filter_empty_conv)
  then show "map_get (co_tasks k') t' = map_get (co_tasks k) t' \<and> calls_of t' k' = calls_of t' k"
    using assms(3,4) \<open>t' \<noteq> t\<close> by (simp add: calls_of_def)
qed

lemma trace_core_start:
  assumes "trace_core cfg k" "base_core k"
  shows "trace_core cfg (start_core cfg now c k)"
proof (rule trace_core_update [OF assms(1)])
  have "map_get (co_tasks k) (co_next k) = None" using new_task [OF assms(2)] by (simp add: map_get_None)
  then have "calls_of (co_next k) k = []" using assms(1) unfolding trace_core_def by blast
  then show "protocol cfg (co_next k) (tk_candidate \<lparr>tk_candidate = c, tk_aborted = co_aborted k, tk_started = now, tk_pc = resolveCandidate cfg c (co_aborted k)\<rparr>)
      (tk_pc \<lparr>tk_candidate = c, tk_aborted = co_aborted k, tk_started = now, tk_pc = resolveCandidate cfg c (co_aborted k)\<rparr>)
      (calls_of (co_next k) (start_core cfg now c k))"
    by (simp add: calls_of_def start_core_def resolveCandidate_protocol)
qed (simp_all add: start_core_def calls_of_def)

lemma trace_core_abort_tasks:
  assumes "trace_core cfg k" "co_calls k' = co_calls k"
    and "\<And>t. map_get (co_tasks k') t = map_get (co_tasks k) t \<or> map_get (co_tasks k') t = map_option abort_task (map_get (co_tasks k) t)"
  shows "trace_core cfg k'"
proof -
  have c: "calls_of t k' = calls_of t k" for t using assms(2) by (simp add: calls_of_def)
  have p: "protocol cfg t (tk_candidate (abort_task a)) (tk_pc (abort_task a)) cs" if "protocol cfg t (tk_candidate a) (tk_pc a) cs" for t a cs
    using protocol_abort [OF that] by (simp add: abort_task_def)
  have n: "map_get (co_tasks k) t = None" if "map_get (co_tasks k') t = None" for t
    using assms(3) [of t] that by (cases "map_get (co_tasks k) t") auto
  have s: "\<exists>b. map_get (co_tasks k) t = Some b \<and> (a = b \<or> a = abort_task b)" if "map_get (co_tasks k') t = Some a" for t a
    using assms(3) [of t] that by (cases "map_get (co_tasks k) t") auto
  show ?thesis using assms(1) n s p unfolding trace_core_def c by metis
qed


lemma trace_core_step:
  assumes "core_step cfg k k'" "base_core k" "trace_core cfg k"
  shows "trace_core cfg k'"
  using assms(1)
proof (cases rule: core_step.cases)
  case (advance t a pc)
  then show ?thesis using trace_core_move [OF assms(3) advance(2), of _ pc "[]"] advance_protocol [OF advance(3)] by (simp add: move_def)
next
  case (prepare t a s)
  then show ?thesis using trace_core_move [OF assms(3) prepare(2), of _ TPreparing "[PrepareCall t s]"] by (simp add: move_def call_def)
next
  case (prepared t a p)
  then show ?thesis using trace_core_move [OF assms(3) prepared(2), of _ "TChecking p" "[PrepareReturned t]"]
    by (auto simp: move_def call_def)
next
  case (prepared_late t a r)
  show ?thesis unfolding prepared_late(1)
    by (rule trace_core_move [OF assms(3) prepared_late(2), of _ "TSettled r" "[PrepareReturned t, AbortCall t]"])
      (use prepared_late(3) in \<open>auto simp: move_def call_def ended_calls_def\<close>)
next
  case (withdraw t a p r)
  show ?thesis unfolding withdraw(1)
    by (rule trace_core_move [OF assms(3) withdraw(2), of _ "TSettled r" "[AbortCall t]"])
      (use withdraw(3) in \<open>auto simp: move_def call_def ended_calls_def\<close>)
next
  case (commit t a p r res k'')
  show ?thesis unfolding commit(1)
    by (rule trace_core_move [OF assms(3) commit(2), of _ "TSettled r" "[CommitCall t (tk_candidate a) res]"])
      (use commit(3,6) in \<open>auto simp: move_def call_def ended_calls_def\<close>)
next
  case (settle_failed t a r)
  then show ?thesis using trace_core_move [OF assms(3) settle_failed(2), of _ TDone "[]"] by (simp add: move_def idle_def)
next
  case (settle_startup t a r)
  then show ?thesis using trace_core_move [OF assms(3) settle_startup(2), of _ "TStartupRead r" "[]"] by (simp add: move_def idle_def)
next
  case (settle_last t a r)
  then show ?thesis using trace_core_move [OF assms(3) settle_last(2), of _ TDone "[]"] by (simp add: move_def idle_def)
next
  case (settle_next t a r c now)
  let ?k = "(idle (move t a TDone k))\<lparr>co_pending := None\<rparr>"
  have "trace_core cfg ?k" using trace_core_move [OF assms(3) settle_next(2), of ?k TDone "[]"] settle_next(3) by (simp add: move_def idle_def)
  moreover have "base_core ?k" using base_core_off(1) [OF assms(2) settle_next(2)] settle_next(3) by simp
  ultimately show ?thesis using settle_next(1) trace_core_start by simp
next
  case (offer_start c now)
  have "trace_core cfg (admit c k)" using assms(3) by (rule trace_core_same) simp_all
  then show ?thesis using offer_start(1) trace_core_start assms(2) by simp
next
  case (offer_supersede c)
  then show ?thesis by (intro trace_core_abort_tasks [OF assms(3)]) (auto simp: map_get_abort_current)
next
  case (catch_abort t a)
  then show ?thesis using trace_core_move [OF assms(3) catch_abort(2), of _ TDone "[]"] by (simp add: move_def idle_def protocol_ended)
next
  case abort_current
  then show ?thesis by (intro trace_core_abort_tasks [OF assms(3)]) (auto simp: map_get_abort_current)
next
  case abort_all
  then show ?thesis by (intro trace_core_abort_tasks [OF assms(3)]) (auto simp: map_get_upd_all)
next
  case new_run
  then show ?thesis by (simp add: trace_core_def fresh_core_def calls_of_def)
next
  case fail
  then show ?thesis using assms(3) by (auto intro: trace_core_same)
qed

section \<open>Commits\<close>

text \<open>The releases given to \<open>commit\<close>, oldest first, and what the last successful one makes applied.\<close>

fun committed :: "loader_event list \<Rightarrow> (nat \<times> candidate) list" where
  "committed [] = []"
| "committed (CommitCall t c res # es) = (t, c) # committed es"
| "committed (_ # es) = committed es"

definition newer :: "candidate \<Rightarrow> candidate \<Rightarrow> bool" where
  "newer c d \<longleftrightarrow> cd_sequence c < cd_sequence d \<and> cd_revision c \<le> cd_revision d"

fun applied_by :: "int \<times> int \<times> int \<Rightarrow> loader_event list \<Rightarrow> int \<times> int \<times> int" where
  "applied_by x [] = x"
| "applied_by x (CommitCall t c ReturnsUndefined # es) =
     applied_by (cr_version (cd_release c), cd_revision c, cd_fleetRevision c) es"
| "applied_by x (_ # es) = applied_by x es"

lemma committed_append [simp]: "committed (es @ fs) = committed es @ committed fs"
  by (induction es rule: committed.induct) auto

lemma applied_by_append [simp]: "applied_by x (es @ fs) = applied_by (applied_by x es) fs"
  by (induction x es rule: applied_by.induct) auto

lemma committed_in: "(t, c) \<in> set (committed es) \<longleftrightarrow> (\<exists>res. CommitCall t c res \<in> set es)"
  by (induction es rule: committed.induct) auto

definition commits_core :: "loader_core \<Rightarrow> bool" where
  "commits_core k \<longleftrightarrow> sorted_wrt newer (map snd (committed (co_calls k)))"

definition applied_core :: "loader_core \<Rightarrow> bool" where
  "applied_core k \<longleftrightarrow> co_applied k = applied_by (0, 0, 0) (co_calls k)"

lemma applied_by_commit [simp]:
  "applied_by x [CommitCall t c res] = (if res = ReturnsUndefined
     then (cr_version (cd_release c), cd_revision c, cd_fleetRevision c) else x)"
  by (cases res) auto

lemma applied_core_step: "core_step cfg k k' \<Longrightarrow> applied_core k \<Longrightarrow> applied_core k'"
  by (cases rule: core_step.cases)
    (auto simp: applied_core_def move_def call_def idle_def start_core_def admit_def fresh_core_def abort_current_def split: option.split)


lemma commit_task:
  assumes "trace_core cfg k" "(t, c) \<in> set (committed (co_calls k))"
  obtains a where "map_get (co_tasks k) t = Some a" "tk_candidate a = c" "\<And>p. tk_pc a \<noteq> TChecking p"
proof -
  obtain res where "CommitCall t c res \<in> set (co_calls k)" using assms(2) committed_in by blast
  then have res: "CommitCall t c res \<in> set (calls_of t k)" by (simp add: calls_of_def)
  then obtain a where a: "map_get (co_tasks k) t = Some a"
    using assms(1) unfolding trace_core_def by (cases "map_get (co_tasks k) t") auto
  have "protocol cfg t (tk_candidate a) (tk_pc a) (calls_of t k)" by (rule trace_coreD [OF assms(1) a])
  then have "tk_candidate a = c \<and> (\<forall>p. tk_pc a \<noteq> TChecking p)"
    using res by (cases "(cfg, t, tk_candidate a, tk_pc a, calls_of t k)" rule: protocol.cases) (auto simp: ended_calls_def)
  then show thesis using a that by blast
qed

lemma commit_newer:
  assumes "trace_core cfg k" "order_core k" "map_get (co_tasks k) t = Some a" "tk_pc a = TChecking p" "\<not> tk_aborted a"
    and "(t', c') \<in> set (committed (co_calls k))"
  shows "newer c' (tk_candidate a)"
proof -
  obtain b where b: "map_get (co_tasks k) t' = Some b" "tk_candidate b = c'" "\<And>p. tk_pc b \<noteq> TChecking p"
    using commit_task [OF assms(1,6)] by metis
  have ne: "(t', b) \<noteq> (t, a)" using b(3) assms(4) by auto
  have inb: "(t', b) \<in> set (co_tasks k)" "(t, a) \<in> set (co_tasks k)" using map_get_in b(1) assms(3) by fast+
  have lat: "co_latest k = Some (tk_candidate a)" using assms(2-5) by (auto simp: order_core_def)
  have "distinct (task_seqs (co_tasks k))" using assms(2) strict_sorted_iff by (auto simp: order_core_def)
  then have "cd_sequence c' \<noteq> cd_sequence (tk_candidate a)"
    using inb ne b(2) unfolding task_seqs_def distinct_map inj_on_def by fastforce
  moreover have "cd_sequence c' \<in> set (task_seqs (co_tasks k))" "cd_revision c' \<in> set (task_revs (co_tasks k))"
    using inb(1) b(2) by (force simp: task_seqs_def task_revs_def)+
  ultimately show ?thesis using assms(2) lat unfolding order_core_def newer_def by fastforce
qed

lemma commits_core_step:
  assumes "core_step cfg k k'" "trace_core cfg k" "order_core k" "commits_core k"
  shows "commits_core k'"
  using assms(1)
proof (cases rule: core_step.cases)
  case (commit t a p r res k'')
  have "newer c' (tk_candidate a)" if "(t', c') \<in> set (committed (co_calls k))" for t' c'
    by (rule commit_newer [OF assms(2,3) commit(2-4) that])
  then show ?thesis using commit(1,6) assms(4) by (auto simp: commits_core_def move_def call_def sorted_wrt_append)
qed (use assms(4) in \<open>auto simp: commits_core_def move_def call_def idle_def start_core_def fresh_core_def\<close>)

section \<open>The loader\<close>

definition safe_core :: "loader_cfg \<Rightarrow> loader_core \<Rightarrow> bool" where
  "safe_core cfg k \<longleftrightarrow> base_core k \<and> trace_core cfg k \<and> applied_core k \<and> (\<not> co_finished k \<longrightarrow> order_core k \<and> commits_core k)"

lemma still_running: "core_step cfg k k' \<Longrightarrow> \<not> co_finished k' \<Longrightarrow> \<not> co_finished k \<or> k' = fresh_core (co_next k)"
  by (cases rule: core_step.cases) (auto simp: move_def call_def idle_def start_core_def)

lemma safe_core_fresh: "safe_core cfg (fresh_core n)"
proof -
  have "trace_core cfg (fresh_core n)" "applied_core (fresh_core n)" "commits_core (fresh_core n)"
    by (simp_all add: trace_core_def applied_core_def commits_core_def fresh_core_def calls_of_def)
  then show ?thesis by (simp add: safe_core_def order_core_fresh)
qed

lemma safe_core_step:
  assumes "core_step cfg k k'" "safe_core cfg k"
  shows "safe_core cfg k'"
proof (cases "k' = fresh_core (co_next k)")
  case False
  then have "order_core k' \<and> commits_core k'" if fin: "\<not> co_finished k'"
    using still_running [OF assms(1) fin] assms order_core_step [OF assms(1) _ _ fin] commits_core_step [OF assms(1)]
    unfolding safe_core_def by blast
  then show ?thesis using assms base_core_step trace_core_step applied_core_step unfolding safe_core_def by blast
qed (simp add: safe_core_fresh)

lemma safe_core_steps: "core_steps cfg k k' \<Longrightarrow> safe_core cfg k \<Longrightarrow> safe_core cfg k'"
  by (induction rule: rtranclp_induct) (auto intro: safe_core_step)

lemma core_new: "core newReleaseLoader = fresh_core 0"
  by (simp add: core_def newReleaseLoader_def fresh_core_def applied_of_def idle_status_def)

text \<open>The interface the properties use: the loader with the waits it can hold and a safe core.\<close>

definition loader_safe :: "loader_cfg \<Rightarrow> loader \<Rightarrow> bool" where
  "loader_safe cfg ld \<longleftrightarrow> sched_inv ld \<and> safe_core cfg (core ld)"

interpretation loader_safety: invariant_system "loader_step cfg" "loader_safe cfg"
proof
  fix ld act
  assume "loader_safe cfg ld"
  then show "loader_safe cfg (loader_step cfg act ld)"
    using sched_inv_step core_refines [of ld cfg act] safe_core_steps unfolding loader_safe_def sched_inv_def by blast
qed

lemma loader_run_safe: "loader_safe cfg (run (loader_step cfg) acts newReleaseLoader)"
  by (rule loader_safety.inv_run) (simp add: loader_safe_def sched_inv_new core_new safe_core_fresh)


lemma core_calls [simp]:
  "committed (co_calls (core ld)) = committed (ld_log ld)" "applied_by x (co_calls (core ld)) = applied_by x (ld_log ld)"
proof -
  have "committed (filter (\<lambda>e. call_task e \<noteq> None) es) = committed es" for es
    by (induction es rule: committed.induct) auto
  moreover have "applied_by x (filter (\<lambda>e. call_task e \<noteq> None) es) = applied_by x es" for es
    by (induction x es rule: applied_by.induct) auto
  ultimately show "committed (co_calls (core ld)) = committed (ld_log ld)" "applied_by x (co_calls (core ld)) = applied_by x (ld_log ld)"
    by (simp_all add: core_def)
qed

lemma calls_of_core: "calls_of t (core ld) = filter (\<lambda>e. call_task e = Some t) (ld_log ld)"
  by (auto simp: calls_of_def core_def intro!: arg_cong [of _ _ "\<lambda>f. filter f (ld_log ld)"])

lemma safe_run: "safe_core cfg (core (run (loader_step cfg) acts newReleaseLoader))"
  using loader_run_safe by (simp add: loader_safe_def)

text \<open>C17: the order of releases. As long as \<open>run\<close> has not failed, the releases handed to \<open>commit\<close> are
  each newer than the one before: queued later, and of a revision at least as high. A release that was
  superseded is never committed after its successor.\<close>

theorem commits_in_order:
  assumes "ld = run (loader_step cfg) acts newReleaseLoader" "ld_finished ld = None"
  shows "sorted_wrt newer (map snd (committed (ld_log ld)))"
  using safe_run [of cfg acts] assms(2) unfolding assms(1) [symmetric]
  by (simp add: safe_core_def commits_core_def)

text \<open>C18: the status never lies. At every moment of every run the version, revision and activation
  revision that \<open>status\<close> reports as applied are those of the last release whose \<open>commit\<close> succeeded,
  and zero when there is none.\<close>

theorem applied_is_last_commit:
  "applied_of (ld_status (run (loader_step cfg) acts newReleaseLoader)) =
     applied_by (0, 0, 0) (ld_log (run (loader_step cfg) acts newReleaseLoader))"
  using safe_run [of cfg acts] by (simp add: safe_core_def applied_core_def)

lemma protocol_calls:
  assumes "protocol cfg t c pc cs"
  shows "cs = [] \<or> (\<exists>s. good_snapshot cfg c s \<and> (cs = [PrepareCall t s] \<or> cs = [PrepareCall t s, PrepareReturned t] \<or>
     cs = [PrepareCall t s, PrepareReturned t, AbortCall t] \<or> (\<exists>res. cs = [PrepareCall t s, PrepareReturned t, CommitCall t c res])))"
  using assms by (cases "(cfg, t, c, pc, cs)" rule: protocol.cases) (auto simp: ended_calls_def)

text \<open>C16: the callback protocol. Whatever happens, the callbacks of one candidate are: nothing; or
  \<open>prepare\<close> with a verified snapshot of its own release; and once that has returned, at most one of
  \<open>commit\<close> and \<open>abort\<close>, once.\<close>

theorem prepared_once:
  "let cs = filter (\<lambda>e. call_task e = Some t) (ld_log (run (loader_step cfg) acts newReleaseLoader))
   in cs = [] \<or> (\<exists>c s. good_snapshot cfg c s \<and> (cs = [PrepareCall t s] \<or> cs = [PrepareCall t s, PrepareReturned t] \<or>
     cs = [PrepareCall t s, PrepareReturned t, AbortCall t] \<or> (\<exists>res. cs = [PrepareCall t s, PrepareReturned t, CommitCall t c res])))"
proof -
  let ?k = "core (run (loader_step cfg) acts newReleaseLoader)"
  have tr: "trace_core cfg ?k" using safe_run by (simp add: safe_core_def)
  show ?thesis unfolding calls_of_core [symmetric] Let_def
  proof (cases "map_get (co_tasks ?k) t")
    case (Some a)
    from protocol_calls [OF trace_coreD [OF tr Some]] show "calls_of t ?k = [] \<or> (\<exists>c s. good_snapshot cfg c s \<and>
      (calls_of t ?k = [PrepareCall t s] \<or> calls_of t ?k = [PrepareCall t s, PrepareReturned t] \<or>
       calls_of t ?k = [PrepareCall t s, PrepareReturned t, AbortCall t] \<or>
       (\<exists>res. calls_of t ?k = [PrepareCall t s, PrepareReturned t, CommitCall t c res])))" by blast
  qed (use tr in \<open>simp add: trace_core_def\<close>)
qed

text \<open>C19: one candidate at a time. Under every interleaving at most one candidate is between its
  first read and its settlement, so the application never prepares two releases at once.\<close>

theorem one_candidate_at_a_time:
  assumes "ld = run (loader_step cfg) acts newReleaseLoader"
    and "map_get (ld_tasks ld) t = Some a" "active_pc (tk_pc a)" "map_get (ld_tasks ld) t' = Some b" "active_pc (tk_pc b)"
  shows "t = t'"
proof -
  have "base_core (core ld)" using safe_run assms(1) by (simp add: safe_core_def)
  from active_unique [OF this, of t a] active_unique [OF this, of t' b] assms(2-5) show ?thesis by simp
qed


section \<open>Who commits\<close>

abbreviation commits_of :: "loader \<Rightarrow> (nat \<times> candidate) list" where
  "commits_of ld \<equiv> committed (ld_log ld)"

lemma commits_side [simp]:
  "commits_of (snd (ack_candidate cfg now c st ko d ld)) = commits_of ld" "commits_of (snd (reject cfg now c k ld)) = commits_of ld"
  "commits_of (recordRejected now k ld) = commits_of ld" "commits_of (recordReconnect ld) = commits_of ld"
  "commits_of (set_state st ld) = commits_of ld" "commits_of (observe c ld) = commits_of ld" "commits_of (on_acks g ld) = commits_of ld"
  "commits_of (see_revision r ld) = commits_of ld" "commits_of (leave_stream att sx rec thrown ld) = commits_of ld"
  "commits_of (watch_loop_head att ld) = commits_of ld" "commits_of (set_pc t pc ld) = commits_of ld"
  "commits_of (finish_reject f ld) = commits_of ld" "commits_of (abort_active ld) = commits_of ld" "commits_of (start cfg now c ld) = commits_of ld"
  "commits_of (task_catch t ld) = commits_of ld" "commits_of (abort_run ld) = commits_of ld" "commits_of (run_finally f ld) = commits_of ld"
  "commits_of (start_pending cfg now ld) = commits_of ld"
  by (auto simp: side_defs set_pc_def set_task_def finish_reject_def abort_active_eq start_def task_catch_def abort_run_def
      run_finally_def start_pending_def Let_def split: option.split)

lemma commits_log [simp]: "commits_of (log_event e ld) = commits_of ld @ committed [e]"
  by (simp add: log_event_def)

lemma commits_offer [simp]: "commits_of (offer cfg now c ld) = commits_of ld"
  by (cases rule: offer_cases [of cfg now c ld]) auto

lemma commits_settle [simp]:
  "commits_of (settle_rejected cfg now t c k f ld) = commits_of ld" "commits_of (settle_aborting cfg now t c p k ld) = commits_of ld"
  by (auto simp: settle_rejected_eq settle_aborting_def Let_def)

lemma commits_active_settled:
  "commits_of (active_settled cfg now t reply ld) = commits_of ld \<or>
   (\<exists>a p active. map_get (ld_tasks ld) t = Some a \<and> tk_pc a = TChecking p \<and> \<not> tk_aborted a \<and>
     Option.bind (getActive cfg ld reply) (active_candidate cfg) = Some active \<and> sameActiveCandidate (tk_candidate a) active \<and>
     commits_of (active_settled cfg now t reply ld) = commits_of ld @ [(t, tk_candidate a)])"
  by (auto simp: active_settled_def commit_def Let_def split: option.split task_pc.split)

lemma commits_other:
  assumes "\<And>now t reply. act \<noteq> ActiveSettled now t reply"
  shows "commits_of (loader_step cfg act ld) = commits_of ld \<or> commits_of (loader_step cfg act ld) = []"
proof (cases act)
  case (RunBegin pc sa uuid)
  then show ?thesis by (simp add: run_begin_def Let_def)
qed (use assms in \<open>auto simp: run_registered_def run_initial_def run_race_ends_def run_drain_def stop_loader_def validate_reply_def
    entry_reply_def pool_end_def resolve_settled_def prepare_settled_def task_settled_def startup_read_def ack_waited_def settle_within_def
    chain_send_failed_def watch_opened_def watch_replay_def watch_flushed_def watch_event_received_def watch_ended_def watch_closed_def
    watch_backoff_done_def recon_wake_def recon_read_def Let_def
    split: option.split task_pc.split sum.split lrun_pc.split lwatch_pc.split lrecon_pc.split list.split bool.split
      pool_worker.split prepare_reply.split release_watch_event.split wait_result.split\<close>)


text \<open>C15: what a commit rests on. As long as \<open>run\<close> has not failed, when an action hands a release to \<open>commit\<close>, that action is the answer
  of a fresh read which still names this very release as active; the release is the latest one queued,
  neither it nor the run has been aborted, and the application prepared it from a verified snapshot.\<close>

theorem commit_confirmed:
  assumes "ld = run (loader_step cfg) acts newReleaseLoader" "ld_finished ld = None"
    and "(t, c) \<in> set (committed (ld_log (loader_step cfg act ld)))" "(t, c) \<notin> set (committed (ld_log ld))"
  shows "\<exists>now reply active s. act = ActiveSettled now t reply \<and>
    Option.bind (getActive cfg ld reply) (active_candidate cfg) = Some active \<and> sameActiveCandidate c active \<and>
    ld_latest ld = Some c \<and> \<not> ld_runAborted ld \<and> PrepareCall t s \<in> set (ld_log ld) \<and> good_snapshot cfg c s"
proof -
  have safe: "safe_core cfg (core ld)" unfolding assms(1) by (rule safe_run)
  obtain now t' reply where act: "act = ActiveSettled now t' reply"
    using commits_other [of act cfg ld] assms(3,4) by (metis empty_iff list.set(1))
  then have ne: "commits_of (active_settled cfg now t' reply ld) \<noteq> commits_of ld" using assms(3,4) by auto
  then obtain a p active where a: "map_get (ld_tasks ld) t' = Some a" "tk_pc a = TChecking p" "\<not> tk_aborted a"
    "Option.bind (getActive cfg ld reply) (active_candidate cfg) = Some active" "sameActiveCandidate (tk_candidate a) active"
    "commits_of (active_settled cfg now t' reply ld) = commits_of ld @ [(t', tk_candidate a)]"
    using commits_active_settled [of cfg now t' reply ld] by blast
  have tc: "t' = t" "tk_candidate a = c" using a(6) assms(3,4) act by auto
  have "order_core (core ld)" "base_core (core ld)" using safe assms(2) by (auto simp: safe_core_def)
  then have latest: "ld_latest ld = Some c" "\<not> ld_runAborted ld"
    using a(1-3) tc unfolding order_core_def base_core_def by fastforce+
  have "protocol cfg t c (TChecking p) (calls_of t (core ld))"
    using trace_coreD [of cfg "core ld" t a] a(1,2) tc safe by (simp add: safe_core_def)
  then obtain s where s: "calls_of t (core ld) = [PrepareCall t s, PrepareReturned t]" "good_snapshot cfg c s" by auto
  then have "PrepareCall t s \<in> set (filter (\<lambda>e. call_task e = Some t) (ld_log ld))" unfolding calls_of_core [symmetric] by simp
  then show ?thesis using act tc a(4,5) latest s(2) by auto
qed

end
