(* ===== verification/Loader_Runs.thy ===== *)
theory Loader_Runs
  imports Loader_Safety
begin

text \<open>
  Concrete runs of the release loader: a release that is offered, resolved, prepared and committed, and
  a run in which a startup rejection that became stale ends the loader after a newer release was
  committed.
\<close>

section \<open>A small service\<close>

text \<open>One parameter per release. Versions stand for themselves on the wire, release 3 has no digest.\<close>

definition zeros :: string where
  "zeros = replicate 64 CHR ''0''"

definition run_entry :: release_entry where
  "run_entry = (demo_entry ''x'')\<lparr>re_parameterDigest := zeros\<rparr>"

definition run_release :: "int \<Rightarrow> configuration_release" where
  "run_release n = (demo_release [] n)\<lparr>cr_entries := [run_entry], cr_digest := (if n = 3 then [] else zeros)\<rparr>"

definition run_cfg :: loader_cfg where
  "run_cfg = \<lparr>lc_env = \<lparr>env_sha256 = \<lambda>_. zeros, env_encode = \<lambda>r. replicate (nat (cr_version r)) CHR ''v'',
       env_decode = \<lambda>s. run_release (int (length s))\<rparr>,
     lc_opts = demo_opts, lc_register = True, lc_instance = True\<rparr>"

definition run_target :: "int \<Rightarrow> instance_target" where
  "run_target n = \<lparr>it_release = Some (run_release n), it_targetRevision = n, it_activationRevision = n\<rparr>"

definition run_reply :: entry_replies where
  "run_reply = \<lparr>er_parameter = Some \<lparr>wp_ref = re_ref run_entry, wp_value = ''1'', wp_contentType = [], wp_version = 1\<rparr>,
     er_metadata = None, er_secret = \<lambda>_. None\<rparr>"

definition run_prepared :: prepared_release where
  "run_prepared = \<lparr>pr_commit = ReturnsUndefined, pr_abort = ReturnsUndefined, pr_divergence = NoReporter\<rparr>"

lemma hex64_zeros [simp]: "hex64 zeros"
  by code_simp

lemma run_release_simps [simp]:
  "cr_version (run_release n) = n" "cr_namespace (run_release n) = Some \<lparr>ns_env = ''e'', ns_app = ''a''\<rparr>"
  "cr_entries (run_release n) = [run_entry]" "cr_name (run_release n) = ''r''" "cr_schemaVersion (run_release n) = 0"
  "cr_metadataJson (run_release n) = []" "cr_digest (run_release n) = (if n = 3 then [] else zeros)"
  by (simp_all add: run_release_def demo_release_def)

lemma run_cfg_simps [simp]:
  "lc_opts run_cfg = demo_opts" "lc_register run_cfg" "lc_instance run_cfg" "env_sha256 (lc_env run_cfg) s = zeros"
  "0 \<le> n \<Longrightarrow> cloneRelease (lc_env run_cfg) (run_release n) = run_release n"
  by (simp_all add: run_cfg_def cloneRelease_def)

lemma run_track [simp]: "releaseMatchesTrack (run_release n) demo_opts"
  by (simp add: releaseMatchesTrack_def demo_opts_def sameNamespace_def)

lemma run_digest:
  "releaseDigestMatches (env_sha256 (lc_env run_cfg)) (env_encode (lc_env run_cfg)) (run_release n) = Inr (n \<noteq> 3)"
proof -
  have "\<not> hex64 []" by code_simp
  then show ?thesis
    by (simp add: releaseDigestMatches_def decodeSha256_def deterministicReleaseDigest_def timingSafeEqual_def release_projection_def
      projectEntry_def run_entry_def demo_entry_def)
qed

definition run_md :: entry_metadata where
  "run_md = \<lparr>em_alias = ''x'', em_kind = ParameterEntry, em_path = ''/e/a/x'', em_version = 1, em_contentType = [],
     em_metadataJson = [], em_parameterDigest = zeros\<rparr>"

definition run_ident :: "int \<Rightarrow> release_identity" where
  "run_ident n = \<lparr>ri_namespace = namespacePath \<lparr>ns_env = ''e'', ns_app = ''a''\<rparr>, ri_name = ''r'', ri_version = n, ri_activationRevision = n, ri_targetRevision = n,
     ri_schemaVersion = 0, ri_digest = zeros, ri_metadataJson = [], ri_entries = [(''x'', run_md)]\<rparr>"

definition run_candidate :: "int \<Rightarrow> int \<Rightarrow> candidate" where
  "run_candidate n s = makeCandidate (lc_env run_cfg) (run_release n) n Reconciliation s n"

lemma run_candidate_simps [simp]:
  "0 \<le> n \<Longrightarrow> cd_release (run_candidate n s) = run_release n" "cd_revision (run_candidate n s) = n"
  "cd_fleetRevision (run_candidate n s) = n" "cd_sequence (run_candidate n s) = s" "cd_source (run_candidate n s) = Reconciliation"
  "(run_candidate n s)\<lparr>cd_sequence := s'\<rparr> = run_candidate n s'"
  by (simp_all add: run_candidate_def makeCandidate_def)

lemma run_manifest:
  "3 < n \<Longrightarrow> n < 100 \<Longrightarrow> candidate_manifest (lc_env run_cfg) demo_opts (run_candidate n s) = Inr (run_ident n)"
  "candidate_manifest (lc_env run_cfg) demo_opts (run_candidate 3 s) = Inl DigestMismatch"
proof -
  have "metadataForEntry run_entry = Inr run_md"
    by (simp add: metadataForEntry_def run_entry_def demo_entry_def run_md_def resourcePath_def newReleaseEntryMetadata_def in_uint64_def
        UINT64_MAX_def)
  then show "candidate_manifest (lc_env run_cfg) demo_opts (run_candidate n s) = Inr (run_ident n)" if "3 < n" "n < 100"
    using that run_digest [of n]
    by (simp add: candidate_manifest_def run_ident_def newReleaseIdentity_def in_uint64_def UINT64_MAX_def
        sameNamespace_def run_entry_def demo_entry_def run_md_def map_has_def map_get_def Let_def)
qed (use run_digest [of 3] in \<open>simp add: candidate_manifest_def\<close>)

lemma run_active [simp]:
  "se_registered (ld_session ld) \<Longrightarrow> getActive run_cfg ld (Some (run_target n)) =
     Some \<lparr>ac_release = Some (run_release n), ac_activationRevision = n, ac_previousVersion = 0, ac_fleetRevision = n\<rparr>"
  "active_candidate run_cfg \<lparr>ac_release = Some (run_release n), ac_activationRevision = n, ac_previousVersion = 0, ac_fleetRevision = n\<rparr> =
     Some (run_candidate n 0)"
  by (simp_all add: getActive_def run_target_def active_candidate_def run_candidate_def)

lemma run_resolve [simp]:
  "3 < n \<Longrightarrow> n < 100 \<Longrightarrow>
     resolveCandidate run_cfg (run_candidate n s) False = TFetching (run_ident n) (fetch_pool run_cfg (run_candidate n s))"
  "resolveCandidate run_cfg (run_candidate 3 s) False = TResolved (Inl DigestMismatch)"
proof -
  have "\<not> no_validateManifest demo_opts" by (simp add: demo_opts_def)
  then show "3 < n \<Longrightarrow> n < 100 \<Longrightarrow>
      resolveCandidate run_cfg (run_candidate n s) False = TFetching (run_ident n) (fetch_pool run_cfg (run_candidate n s))"
    "resolveCandidate run_cfg (run_candidate 3 s) False = TResolved (Inl DigestMismatch)"
    by (simp_all add: resolveCandidate_def run_manifest)
qed

lemma same_run_candidate [simp]: "0 \<le> n \<Longrightarrow> 0 \<le> m \<Longrightarrow> sameActiveCandidate (run_candidate n s) (run_candidate m s') \<longleftrightarrow> n = m"
  by (auto simp: sameActiveCandidate_def sameResourceRef_def sameNamespace_def)

lemma run_fetch [simp]:
  "0 \<le> n \<Longrightarrow> fetch_pool run_cfg (run_candidate n s) =
     \<lparr>po_values = [run_entry], po_results = [None], po_index = 1, po_firstError = None, po_aborted = False, po_workers = [Busy 0]\<rparr>"
  by (simp add: fetch_pool_def mapConcurrent_start demo_opts_def)

lemma run_fetched [simp]:
  "resolveEntry (lc_env run_cfg) demo_opts now False run_entry run_md run_reply =
     Inr \<lparr>rv_metadata = run_md, rv_parameter = Some \<lparr>rp_value = ''1'', rp_entry = run_md\<rparr>, rv_secret = None\<rparr>"
  by (simp add: resolveEntry_def resolve_parameter_def run_reply_def run_entry_def demo_entry_def sameResourceRef_def sameNamespace_def)

definition run_snapshot :: "int \<Rightarrow> release_snapshot" where
  "run_snapshot n = newReleaseSnapshot (run_ident n) [(''x'', \<lparr>rp_value = ''1'', rp_entry = run_md\<rparr>)] []"

lemma run_md_alias [simp]: "em_alias run_md = ''x''" "re_alias run_entry = ''x''" "ri_entries (run_ident n) = [(''x'', run_md)]"
  by (simp_all add: run_md_def run_entry_def demo_entry_def run_ident_def)

lemma run_resolved [simp]:
  "resolved_snapshot (run_ident n) [\<lparr>rv_metadata = run_md, rv_parameter = Some \<lparr>rp_value = ''1'', rp_entry = run_md\<rparr>, rv_secret = None\<rparr>] =
     run_snapshot n"
  by (simp add: resolved_snapshot_def put_resolved_def run_snapshot_def)

section \<open>Runs\<close>

text \<open>
  The initial release is rejected: its digest does not match. The task reads the active release again,
  finds it unchanged and waits for its rejection to be acknowledged. Meanwhile the reconcile loop
  finds release 4, which is resolved, prepared and committed. Then the wait times out.
\<close>

definition rejected_acts :: "loader_action list" where
  "rejected_acts = [RunBegin True False ''u'', RunRegistered (Some True), RunInitial 0 (Some (run_target 3)), ResolveSettled 0 0,
     TaskSettled 0 0, StartupReadReply 0 0 (Some (run_target 3)), ReconWake, ReconReply 0 (Some (run_target 4))]"

definition prepared_acts :: "loader_action list" where
  "prepared_acts = rejected_acts @ [EntryReply 0 1 0 run_reply, PoolEnd 1, ResolveSettled 0 1,
     PrepareSettled 0 1 (PrepareReturns run_prepared)]"

definition confirm :: loader_action where
  "confirm = ActiveSettled 0 1 (Some (run_target 4))"

lemmas run_evals = run_begin_def run_registered_def run_initial_def Let_def log_event_def resolve_settled_def task_settled_def
  startup_read_def offer_def offer_ignored_def observe_def start_def watch_loop_head_def settle_rejected_def reject_def ack_candidate_def
  recordRejected_def set_pc_def set_task_def ack_def scheduleAckFlush_def waitForAcknowledgement_def flushed_item_def no_acks_def
  newReleaseLoader_def idle_status_def resolutionCategory_def rejected_result_def recon_wake_def recon_read_def entry_reply_def
  pool_settle_def pool_take_def pool_ended_def pool_result_def run_prepared_def make_ack_def map_del_def
  pool_end_def prepare_settled_def active_settled_def commit_def ack_waited_def on_acks_def wait_timeout_def finish_wait_def
  finish_reject_def set_state_def sameQueuedCandidate_def applied_result_def start_pending_def map_get_or_def map_get_def
  rejected_acts_def prepared_acts_def confirm_def

text \<open>A stale startup rejection ends a loader that has applied a newer release. There is a run
  in which the rejection of the initial release is reported as the failure of \<open>run\<close> after the next release was
  committed and is reported as applied.\<close>

theorem startup_failure_after_commit:
  "\<exists>acts1 acts2. let ld1 = run (loader_step run_cfg) acts1 newReleaseLoader; ld2 = run (loader_step run_cfg) acts2 ld1 in
     ld_finished ld1 = None \<and> map snd (committed (ld_log ld1)) = [run_candidate 4 2] \<and> ms_appliedVersion (ld_status ld1) = 4 \<and>
     ld_finished ld2 = Some (StartupRejected DigestMismatch) \<and> ld_appliedOnce ld2"
  by (rule exI [of _ "prepared_acts @ [confirm]"], rule exI [of _ "[TaskSettled 0 1, WaitTimeout 1, AckWaited 0]"]) (simp add: run_evals)

text \<open>The reconcile loop finds a second release, which is committed after the first.\<close>

definition second_acts :: "loader_action list" where
  "second_acts = prepared_acts @ [confirm, TaskSettled 0 1, ReconWake, ReconReply 0 (Some (run_target 5)), EntryReply 0 2 0 run_reply, PoolEnd 2,
     ResolveSettled 0 2, PrepareSettled 0 2 (PrepareReturns run_prepared), ActiveSettled 0 2 (Some (run_target 5))]"

theorem commits_in_order_witness:
  "let ld = run (loader_step run_cfg) second_acts newReleaseLoader in
     ld_finished ld = None \<and> committed (ld_log ld) = [(1, run_candidate 4 2), (2, run_candidate 5 3)] \<and>
     sorted_wrt newer (map snd (committed (ld_log ld)))"
proof -
  have f: "ld_finished (run (loader_step run_cfg) second_acts newReleaseLoader) = None"
    "committed (ld_log (run (loader_step run_cfg) second_acts newReleaseLoader)) = [(1, run_candidate 4 2), (2, run_candidate 5 3)]"
    by (simp_all add: run_evals second_acts_def)
  from f commits_in_order [OF refl f(1)] show ?thesis unfolding Let_def by (intro conjI)
qed

theorem one_candidate_at_a_time_witness:
  "let ld = run (loader_step run_cfg) rejected_acts newReleaseLoader in
     (\<exists>a. map_get (ld_tasks ld) 1 = Some a \<and> active_pc (tk_pc a)) \<and>
     (\<forall>t. (\<exists>b. map_get (ld_tasks ld) t = Some b \<and> active_pc (tk_pc b)) \<longrightarrow> t = 1)"
proof -
  have "\<exists>a. map_get (ld_tasks (run (loader_step run_cfg) rejected_acts newReleaseLoader)) 1 = Some a \<and> active_pc (tk_pc a)"
    by (simp add: run_evals)
  then show ?thesis using one_candidate_at_a_time [OF refl] unfolding Let_def by blast
qed

theorem commit_confirmed_witness:
  "\<exists>s. PrepareCall 1 s \<in> set (ld_log (run (loader_step run_cfg) prepared_acts newReleaseLoader)) \<and> good_snapshot run_cfg (run_candidate 4 2) s"
proof -
  let ?ld = "run (loader_step run_cfg) prepared_acts newReleaseLoader"
  have f: "ld_finished ?ld = None" "(1, run_candidate 4 2) \<in> set (committed (ld_log (loader_step run_cfg confirm ?ld)))"
    "(1, run_candidate 4 2) \<notin> set (committed (ld_log ?ld))"
    by (simp_all add: run_evals)
  from commit_confirmed [OF refl f] show ?thesis by blast
qed

end
