(* ===== verification/Managed_Config.thy ===== *)
theory Managed_Config
  imports Config_Manager_Correct Loader_Runs
begin

text \<open>
  The managed configuration manager on top of the release loader. The loader works on one candidate at a
  time, so it never commits a release between the preparation and the commit of another one; this is
  exactly what the manager's guard of restart-required fields relies on. Together: whatever the server,
  the application and the timing do, a generation published after the first one has no field that
  requires a restart.
\<close>

section \<open>The loader never interleaves candidates\<close>

fun is_commit :: "loader_event \<Rightarrow> bool" where
  "is_commit (CommitCall t c r) = True"
| "is_commit _ = False"

definition pending_ok :: "loader_event list \<Rightarrow> nat \<Rightarrow> bool" where
  "pending_ok cs t \<longleftrightarrow> (\<forall>x s b. cs = x @ PrepareCall t s # b \<longrightarrow> \<not> list_ex is_commit b)"

definition serial_calls :: "loader_event list \<Rightarrow> bool" where
  "serial_calls cs \<longleftrightarrow> (\<forall>a t s b c r d. cs = a @ PrepareCall t s # b @ CommitCall t c r # d \<longrightarrow> \<not> list_ex is_commit b)"

fun waiting_pc :: "task_pc \<Rightarrow> bool" where
  "waiting_pc TPreparing = True"
| "waiting_pc (TChecking p) = True"
| "waiting_pc _ = False"

definition serial_core :: "loader_core \<Rightarrow> bool" where
  "serial_core k \<longleftrightarrow> serial_calls (co_calls k) \<and>
     (\<forall>t a. map_get (co_tasks k) t = Some a \<longrightarrow> waiting_pc (tk_pc a) \<longrightarrow> pending_ok (co_calls k) t)"

lemma pending_ok_snoc: "pending_ok cs t \<Longrightarrow> \<not> is_commit e \<Longrightarrow> pending_ok (cs @ [e]) t"
proof -
  assume ok: "pending_ok cs t" "\<not> is_commit e"
  have eq: "(cs @ [e] = x @ PrepareCall t s # b) \<longleftrightarrow> (b = [] \<and> e = PrepareCall t s \<and> x = cs \<or> (\<exists>b'. b = b' @ [e] \<and> cs = x @ PrepareCall t s # b'))"
    for x s b by (cases b rule: rev_cases) auto
  show ?thesis using ok unfolding pending_ok_def eq by auto
qed

lemma pending_ok_fresh: "\<forall>s. PrepareCall t s \<notin> set cs \<Longrightarrow> pending_ok cs t"
  by (auto simp: pending_ok_def)

lemma serial_calls_snoc: "serial_calls cs \<Longrightarrow> (\<And>t c r. e = CommitCall t c r \<Longrightarrow> pending_ok cs t) \<Longrightarrow> serial_calls (cs @ [e])"
proof -
  assume ok: "serial_calls cs" "\<And>t c r. e = CommitCall t c r \<Longrightarrow> pending_ok cs t"
  have eq: "(cs @ [e] = a @ PrepareCall t s # b @ CommitCall t c r # d) \<longleftrightarrow> (d = [] \<and> e = CommitCall t c r \<and> cs = a @ PrepareCall t s # b \<or>
      (\<exists>d'. d = d' @ [e] \<and> cs = a @ PrepareCall t s # b @ CommitCall t c r # d'))" for a t s b c r d
    by (cases d rule: rev_cases) auto
  show ?thesis using ok unfolding serial_calls_def pending_ok_def eq by blast
qed

lemma waiting_active: "waiting_pc pc \<Longrightarrow> active_pc pc"
  by (cases pc) simp_all

lemma advance_not_waiting: "advance cfg c aborted pc pc' \<Longrightarrow> \<not> waiting_pc pc'"
  by (induction rule: advance.induct) (auto dest: waiting_active)

lemma resolve_not_waiting: "\<not> waiting_pc (resolveCandidate cfg c aborted)"
  by (simp add: resolveCandidate_def split: sum.split)

lemma serial_core_keep:
  assumes "serial_core k" "co_calls k' = co_calls k"
    and "\<And>t a. map_get (co_tasks k') t = Some a \<Longrightarrow> waiting_pc (tk_pc a) \<Longrightarrow> \<exists>b. map_get (co_tasks k) t = Some b \<and> waiting_pc (tk_pc b)"
  shows "serial_core k'"
  using assms unfolding serial_core_def by metis

lemma serial_core_call:
  assumes "serial_core k" "\<not> is_commit e"
  shows "serial_core (call e k)"
  using assms unfolding serial_core_def call_def by (auto intro: pending_ok_snoc serial_calls_snoc)

lemma serial_core_move:
  assumes "serial_core k" "map_get (co_tasks k) t = Some a" "waiting_pc pc \<Longrightarrow> waiting_pc (tk_pc a)"
  shows "serial_core (move t a pc k)"
  using assms(1) by (rule serial_core_keep) (use assms(2,3) in \<open>auto simp: move_def split: if_splits\<close>)

lemma serial_core_simps [simp]:
  "serial_core (k\<lparr>co_finished := x\<rparr>) = serial_core k" "serial_core (k\<lparr>co_pending := y\<rparr>) = serial_core k"
  "serial_core (k\<lparr>co_applied := z\<rparr>) = serial_core k" "serial_core (idle k) = serial_core k" "serial_core (admit c k) = serial_core k"
  "serial_core (k\<lparr>co_finished := x, co_pending := y\<rparr>) = serial_core k" "serial_core (fresh_core n)"
  by (simp_all add: serial_core_def idle_def fresh_core_def serial_calls_def)

lemma serial_core_start: "serial_core k \<Longrightarrow> serial_core (start_core cfg now c k)"
  by (erule serial_core_keep) (auto simp: start_core_def resolve_not_waiting split: if_splits)

lemma abort_task_waiting: "waiting_pc (tk_pc (abort_task a)) \<Longrightarrow> waiting_pc (tk_pc a)"
  by (cases "tk_pc a") (auto simp: abort_task_def abort_pc_def)

lemma serial_core_abort_current: "serial_core k \<Longrightarrow> serial_core (abort_current k)"
  by (erule serial_core_keep) (auto simp: abort_current_def abort_task_waiting split: option.splits if_splits)

lemma no_prepare_yet:
  assumes "trace_core cfg k" "map_get (co_tasks k) t = Some a" "tk_pc a = TResolved (Inr s)"
  shows "PrepareCall t s' \<notin> set (co_calls k)"
proof
  assume "PrepareCall t s' \<in> set (co_calls k)"
  then have "PrepareCall t s' \<in> set (calls_of t k)" by (simp add: calls_of_def)
  then show False using trace_coreD [OF assms(1,2)] assms(3) by simp
qed

lemma serial_core_step:
  assumes "core_step cfg k k'" "safe_core cfg k" "serial_core k"
  shows "serial_core k'"
  using assms(1)
proof (cases rule: core_step.cases)
  case (advance t a pc)
  then show ?thesis using assms(3) advance_not_waiting by (auto intro!: serial_core_move)
next
  case (prepare t a s)
  have "pending_ok (co_calls k @ [PrepareCall t s]) t"
  proof -
    have "trace_core cfg k" using assms(2) by (simp add: safe_core_def)
    from no_prepare_yet [OF this prepare(2,3)] show ?thesis by (intro pending_ok_snoc pending_ok_fresh) auto
  qed
  then show ?thesis using assms(3) prepare unfolding serial_core_def call_def move_def
    by (auto intro!: serial_calls_snoc pending_ok_snoc split: if_splits)
next
  case (commit t a p r res k1)
  have w: "waiting_pc (tk_pc a)" using commit by simp
  have only: "\<not> waiting_pc (tk_pc b)" if "map_get (co_tasks k) t' = Some b" "t' \<noteq> t" for t' b
    using that w active_unique [of k t a] active_unique [of k t' b] commit(2) assms(2) waiting_active by (auto simp: safe_core_def)
  have "serial_calls (co_calls k @ [CommitCall t (tk_candidate a) res])"
    using assms(3) commit(2) w unfolding serial_core_def by (auto intro!: serial_calls_snoc)
  then show ?thesis using commit only unfolding serial_core_def call_def move_def by (auto split: if_splits)
next
  case abort_all
  then show ?thesis using assms(3) by (auto intro!: serial_core_keep [OF assms(3)] abort_task_waiting)
qed (use assms(3) in \<open>auto intro!: serial_core_move serial_core_call serial_core_start serial_core_abort_current\<close>)

lemma serial_core_steps: "core_steps cfg k k' \<Longrightarrow> safe_core cfg k \<and> serial_core k \<Longrightarrow> safe_core cfg k' \<and> serial_core k'"
  by (induction rule: rtranclp_induct) (blast intro: safe_core_step serial_core_step)+

lemma serial_run: "serial_core (core (run (loader_step cfg) acts newReleaseLoader))"
proof (induction acts rule: rev_induct)
  case (snoc act acts)
  then show ?case using serial_core_steps [OF core_refines [OF waits_inv_reach]] safe_run by (metis run_append run_Cons run_Nil)
qed (simp add: core_new)

section \<open>The manager under the loader\<close>

text \<open>The manager's methods are the callbacks of the loader: the calls the manager gets are those the
  loader makes, in the same order. What happens between them (answers of the binding, manifests, the
  lifecycle methods) is arbitrary.\<close>

fun call_act :: "loader_event \<Rightarrow> managed_act option" where
  "call_act (PrepareCall t s) = Some (MgrPrepare t s)"
| "call_act (CommitCall t c r) = Some (MgrCommit t)"
| "call_act (AbortCall t) = Some (MgrAbort t)"
| "call_act _ = None"

fun manager_calls :: "loader_event list \<Rightarrow> managed_act list" where
  "manager_calls [] = []"
| "manager_calls (e # es) = (case call_act e of None \<Rightarrow> manager_calls es | Some a \<Rightarrow> a # manager_calls es)"

fun is_loader_call :: "managed_act \<Rightarrow> bool" where
  "is_loader_call (MgrPrepare t s) = True"
| "is_loader_call (MgrCommit t) = True"
| "is_loader_call (MgrAbort t) = True"
| "is_loader_call _ = False"

lemma manager_calls_split:
  "manager_calls es = xs @ y # ys \<Longrightarrow> \<exists>a e b. es = a @ e # b \<and> call_act e = Some y \<and> manager_calls a = xs \<and> manager_calls b = ys"
proof (induction es arbitrary: xs)
  case (Cons e es)
  show ?case
  proof (cases "call_act e")
    case None
    then obtain a f b where "es = a @ f # b" "call_act f = Some y" "manager_calls a = xs" "manager_calls b = ys"
      using Cons.IH [of xs] Cons.prems by auto
    then have "e # es = (e # a) @ f # b \<and> call_act f = Some y \<and> manager_calls (e # a) = xs \<and> manager_calls b = ys"
      using None by simp
    then show ?thesis by blast
  next
    case (Some x)
    show ?thesis
    proof (cases xs)
      case Nil
      then have "e # es = [] @ e # es \<and> call_act e = Some y \<and> manager_calls [] = xs \<and> manager_calls es = ys"
        using Some Cons.prems by simp
      then show ?thesis by blast
    next
      case (Cons x' xs')
      then obtain a f b where "es = a @ f # b" "call_act f = Some y" "manager_calls a = xs'" "manager_calls b = ys"
        using Cons.IH [of xs'] Cons.prems Some by auto
      then have "e # es = (e # a) @ f # b \<and> call_act f = Some y \<and> manager_calls (e # a) = xs \<and> manager_calls b = ys"
        using Some Cons Cons.prems by simp
      then show ?thesis by blast
    qed
  qed
qed simp

lemma call_act_cases:
  "call_act e = Some (MgrPrepare t s) \<Longrightarrow> e = PrepareCall t s"
  "call_act e = Some (MgrCommit t) \<Longrightarrow> \<exists>c r. e = CommitCall t c r"
  by (cases e; simp)+

lemma manager_calls_commit: "MgrCommit t \<in> set (manager_calls es) \<Longrightarrow> list_ex is_commit es"
proof -
  assume "MgrCommit t \<in> set (manager_calls es)"
  then obtain xs ys where "manager_calls es = xs @ MgrCommit t # ys" by (meson split_list)
  then obtain a e b where "es = a @ e # b" "call_act e = Some (MgrCommit t)" using manager_calls_split by blast
  then show ?thesis using call_act_cases(2) by fastforce
qed

lemma uninterrupted_by_loader:
  assumes "filter is_loader_call acts = manager_calls es" "serial_calls es"
  shows "uninterrupted acts"
  unfolding uninterrupted_def
proof (intro allI impI notI)
  fix a t s b c t'
  assume acts: "acts = a @ MgrPrepare t s # b @ MgrCommit t # c" and bad: "MgrCommit t' \<in> set b"
  have "manager_calls es = filter is_loader_call a @ MgrPrepare t s # filter is_loader_call b @ MgrCommit t # filter is_loader_call c"
    using assms(1) acts by simp
  then obtain x e y where e: "es = x @ e # y" "call_act e = Some (MgrPrepare t s)"
    "manager_calls y = filter is_loader_call b @ MgrCommit t # filter is_loader_call c"
    using manager_calls_split by metis
  then obtain u f v where f: "y = u @ f # v" "call_act f = Some (MgrCommit t)" "manager_calls u = filter is_loader_call b"
    using manager_calls_split by metis
  obtain cd r where "f = CommitCall t cd r" using f(2) call_act_cases(2) by blast
  then have "\<not> list_ex is_commit u" using assms(2) e(1,2) f(1) call_act_cases(1) unfolding serial_calls_def by blast
  moreover have "MgrCommit t' \<in> set (manager_calls u)" using bad f(3) by simp
  ultimately show False using manager_calls_commit by blast
qed

lemma manager_calls_core: "manager_calls (co_calls (core ld)) = manager_calls (ld_log ld)"
proof -
  have "call_task e = None \<Longrightarrow> call_act e = None" for e by (cases e) simp_all
  then have "manager_calls (filter (\<lambda>e. call_task e \<noteq> None) es) = manager_calls es" for es
    by (induction es) (auto split: option.split)
  then show ?thesis by (simp add: core_def)
qed

text \<open>C21: no restart-required field ever changes in a running process. Take any run of the loader, with
  any server and any timing, and any run of the manager whose callbacks are called by that loader. The
  first generation the manager publishes is a startup generation; every generation published after a
  successful publication is a runtime generation, and none of them has restart-required fields.\<close>

theorem restart_guard:
  assumes "ld = run (loader_step cfg) lacts newReleaseLoader"
    and "filter is_loader_call acts = manager_calls (ld_log ld)"
    and "m = run (managed_step opts) acts newManagedConfigManager"
    and "filter is_publish (mc_calls m) = pre @ PublishCall t ph restart divergent res # post"
  shows "if list_ex successful pre then ph = Runtime \<and> restart = [] else ph = Startup"
proof -
  have "serial_calls (co_calls (core ld))" using serial_run unfolding assms(1) serial_core_def by blast
  then have "uninterrupted acts" using assms(2) by (intro uninterrupted_by_loader) (simp_all add: manager_calls_core)
  then have "guarded (publishes m)" unfolding assms(3) by (rule guarded_run)
  then have "phase_ok (list_ex successful pre) (PublishCall t ph restart divergent res)"
    using assms(4) unfolding guarded_def publishes_def by blast
  then show ?thesis by simp
qed

definition guard_acts :: "managed_act list" where
  "guard_acts = [MgrStart, MgrPrepare 1 (run_snapshot 4), MgrReturn 1 False (Inr (Some (managed_demo_candidate (Items [Some ''port''])))), MgrCommit 1]"

lemma run_identity: "\<exists>i. identity_from (run_ident 4) = Inr i"
  by (simp add: identity_from_def newConfigIdentity_def assertUint64_def in_uint64_def UINT64_MAX_def run_ident_def)

theorem restart_guard_witness:
  "filter is_loader_call guard_acts =
       manager_calls (ld_log (run (loader_step run_cfg) (prepared_acts @ [confirm]) newReleaseLoader)) \<and>
   filter is_publish (mc_calls (run (managed_step managed_demo_opts) guard_acts newManagedConfigManager)) =
     [PublishCall 1 Startup [''port''] True ReturnsUndefined]"
proof -
  have calls: "filter is_loader_call guard_acts =
      manager_calls (ld_log (run (loader_step run_cfg) (prepared_acts @ [confirm]) newReleaseLoader))"
    by (simp add: run_evals guard_acts_def)
  obtain i where i: "identity_from (run_ident 4) = Inr i" using run_identity by blast
  have sn: "sn_identity (run_snapshot 4) = run_ident 4" by (simp add: run_snapshot_def newReleaseSnapshot_def)
  obtain ph where pub: "filter is_publish (mc_calls (run (managed_step managed_demo_opts) guard_acts newManagedConfigManager)) =
     [] @ PublishCall 1 ph [''port''] True ReturnsUndefined # []"
    by (simp add: guard_acts_def managed_demo_candidate_def managed_demo_opts_def managed_eval i sn start_manager_def)
  from restart_guard [OF refl calls refl pub] have "ph = Startup" by simp
  then show ?thesis using calls pub by simp
qed

end
