(* ===== verification/Loader_Told.thy ===== *)
theory Loader_Told
  imports Loader_Runs
begin

text \<open>
  What the release loader tells the server is true. An acknowledgement waits in the retained set, in a
  chained flush or in a replay, and may be sent long after it was made, on another stream; whatever the
  interleaving, one that says received, prepared or applied speaks of a release for which that callback
  has been called, has returned, or has succeeded, and its sequence number identifies it.
\<close>

section \<open>Where acknowledgements are\<close>

definition retained_acks :: "(release_state \<times> pending_ack) list \<Rightarrow> release_ack set" where
  "retained_acks items = pa_ack ` snd ` set items"

definition job_acks :: "ack_job \<Rightarrow> release_ack set" where
  "job_acks job = (case aj_items job of None \<Rightarrow> {} | Some items \<Rightarrow> retained_acks items)"

definition ack_set :: "ack_state \<Rightarrow> release_ack set" where
  "ack_set ak = retained_acks (ak_pending ak) \<union> \<Union> (job_acks ` set (ak_chain ak)) \<union> snd ` set (ak_sent ak)"

fun replay_acks :: "lwatch_pc \<Rightarrow> release_ack set" where
  "replay_acks (WReplaying attempt stream items) = retained_acks items"
| "replay_acks _ = {}"

definition all_acks :: "loader \<Rightarrow> release_ack set" where
  "all_acks ld = ack_set (ld_acks ld) \<union> replay_acks (ld_watch ld)"

lemma retained_Cons [simp]: "retained_acks (e # items) = insert (pa_ack (snd e)) (retained_acks items)"
  by (simp add: retained_acks_def)

lemma retained_Nil [simp]: "retained_acks [] = {}"
  by (simp add: retained_acks_def)

lemma retained_set: "retained_acks (map_set k v m) \<subseteq> insert (pa_ack v) (retained_acks m)"
  by (induction m) (auto split: if_splits)

lemma retained_del: "retained_acks (map_del k m) \<subseteq> retained_acks m"
  by (auto simp: retained_acks_def)

lemma retained_get: "map_get m k = Some v \<Longrightarrow> pa_ack v \<in> retained_acks m"
  by (auto simp: retained_acks_def dest!: map_get_in intro!: rev_image_eqI)

lemma retained_flush: "retained_acks (flush_items replay ak) \<subseteq> retained_acks (ak_pending ak)"
  by (auto simp: flush_items_def retained_acks_def)

lemma ack_set_updates [simp]:
  "ack_set (ak\<lparr>ak_waiters := w\<rparr>) = ack_set ak" "ack_set (ak\<lparr>ak_settled := x\<rparr>) = ack_set ak" "ack_set (ak\<lparr>ak_currentStream := s\<rparr>) = ack_set ak"
  "ack_set (ak\<lparr>ak_generation := g\<rparr>) = ack_set ak" "ack_set (ak\<lparr>ak_nextJob := n\<rparr>) = ack_set ak" "ack_set (ak\<lparr>ak_jobDone := j\<rparr>) = ack_set ak"
  by (simp_all add: ack_set_def)

lemma ack_set_finish [simp]: "ack_set (finish_wait gen res ak) = ack_set ak" "ak_generation (finish_wait gen res ak) = ak_generation ak"
  by (simp_all add: finish_wait_def split: option.split)

lemma ack_set_schedule [simp]: "ack_set (scheduleAckFlush ak) = ack_set ak" "ak_generation (scheduleAckFlush ak) = ak_generation ak"
  by (auto simp: scheduleAckFlush_def ack_set_def job_acks_def split: option.split)

lemma ack_set_flush_sent:
  "ack_set (flush_sent stream item ak) \<subseteq> insert (pa_ack (snd item)) (ack_set ak)" "ak_generation (flush_sent stream item ak) = ak_generation ak"
proof -
  let ?ak1 = "ak\<lparr>ak_sent := ak_sent ak @ [(stream, pa_ack (snd item))]\<rparr>"
  have sent: "ack_set ?ak1 = insert (pa_ack (snd item)) (ack_set ak)" by (auto simp: ack_set_def)
  have "ack_set (?ak1\<lparr>ak_pending := map_set k (cur\<lparr>pa_dirty := False, pa_flushedOn := Some stream\<rparr>) (ak_pending ak)\<rparr>) \<subseteq> ack_set ?ak1"
    if "map_get (ak_pending ak) k = Some cur" for k cur
    using retained_set [of k "cur\<lparr>pa_dirty := False, pa_flushedOn := Some stream\<rparr>" "ak_pending ak"] retained_get [OF that]
    by (auto simp: ack_set_def)
  then show "ack_set (flush_sent stream item ak) \<subseteq> insert (pa_ack (snd item)) (ack_set ak)"
    using sent by (auto simp: flush_sent_def Let_def split: option.split)
  show "ak_generation (flush_sent stream item ak) = ak_generation ak" by (simp add: flush_sent_def Let_def split: option.split)
qed

lemma ack_set_chain:
  "ack_set (chain_start ak) \<subseteq> ack_set ak" "ack_set (chain_send ok ak) \<subseteq> ack_set ak" "ack_set (chain_finish ak) \<subseteq> ack_set ak"
  "ak_generation (chain_start ak) = ak_generation ak" "ak_generation (chain_send ok ak) = ak_generation ak"
  "ak_generation (chain_finish ak) = ak_generation ak"
proof -
  show "ack_set (chain_start ak) \<subseteq> ack_set ak"
    using retained_flush [of False ak] by (auto simp: chain_start_def ack_set_def job_acks_def split: list.split option.split)
  show "ack_set (chain_finish ak) \<subseteq> ack_set ak" "ak_generation (chain_finish ak) = ak_generation ak"
    by (auto simp: chain_finish_def ack_set_def split: list.split option.split)
  show "ak_generation (chain_start ak) = ak_generation ak" by (simp add: chain_start_def split: list.split option.split)
  show "ak_generation (chain_send ok ak) = ak_generation ak"
    by (simp add: chain_send_def ack_set_flush_sent split: list.split option.split)
  show "ack_set (chain_send ok ak) \<subseteq> ack_set ak"
  proof (cases "ak_chain ak")
    case (Cons job rest)
    show ?thesis
    proof (cases "aj_items job")
      case (Some items)
      show ?thesis
      proof (cases items)
        case (Cons item more)
        note sent = ack_set_flush_sent(1) [of "aj_stream job" item "ak\<lparr>ak_chain := job\<lparr>aj_items := Some more\<rparr> # rest\<rparr>"]
        show ?thesis using sent Some Cons \<open>ak_chain ak = job # rest\<close>
          by (auto simp: chain_send_def ack_set_def job_acks_def)
      qed (use Some \<open>ak_chain ak = job # rest\<close> in \<open>simp add: chain_send_def\<close>)
    qed (use Cons in \<open>simp add: chain_send_def\<close>)
  qed (simp add: chain_send_def)
qed

lemma ack_set_waits:
  "ack_set (waitForAcknowledgement t gen aborted ak) = ack_set ak" "ak_generation (waitForAcknowledgement t gen aborted ak) = ak_generation ak"
  "ack_set (wait_timeout gen ak) = ack_set ak" "ak_generation (wait_timeout gen ak) = ak_generation ak"
  "ack_set (abort_waits ak) = ack_set ak" "ak_generation (abort_waits ak) = ak_generation ak"
proof -
  show "ack_set (waitForAcknowledgement t gen aborted ak) = ack_set ak" "ak_generation (waitForAcknowledgement t gen aborted ak) = ak_generation ak"
    "ack_set (wait_timeout gen ak) = ack_set ak" "ak_generation (wait_timeout gen ak) = ak_generation ak"
    by (simp_all add: waitForAcknowledgement_def wait_timeout_def Let_def split: option.split)
  have "ack_set (fold (\<lambda>g. finish_wait g WaitAborted) gs ak') = ack_set ak' \<and> ak_generation (fold (\<lambda>g. finish_wait g WaitAborted) gs ak') = ak_generation ak'"
    for gs ak' by (induction gs arbitrary: ak') simp_all
  then show "ack_set (abort_waits ak) = ack_set ak" "ak_generation (abort_waits ak) = ak_generation ak" by (simp_all add: abort_waits_def)
qed

lemma ack_set_rejected:
  "ack_set (handleAcknowledgementRejected opts se ev ak) \<subseteq> ack_set ak"
  "ak_generation (handleAcknowledgementRejected opts se ev ak) = ak_generation ak"
proof -
  have "ack_set (ak\<lparr>ak_pending := map_del k (ak_pending ak)\<rparr>) \<subseteq> ack_set ak" for k
    using retained_del [of k "ak_pending ak"] by (auto simp: ack_set_def)
  then show "ack_set (handleAcknowledgementRejected opts se ev ak) \<subseteq> ack_set ak"
    "ak_generation (handleAcknowledgementRejected opts se ev ak) = ak_generation ak"
    by (auto simp: handleAcknowledgementRejected_def split: option.split)
qed

lemma ack_set_ack:
  "ack_set (snd (ack opts se now c st k d ak)) \<subseteq> insert (make_ack opts se now c st k d (ak_generation ak + 1)) (ack_set ak)"
  "ak_generation (snd (ack opts se now c st k d ak)) = ak_generation ak + 1"
proof -
  let ?a = "make_ack opts se now c st k d (ak_generation ak + 1)"
  let ?i = "\<lparr>pa_ack = ?a, pa_generation = ak_generation ak + 1, pa_dirty = True, pa_flushedOn = None\<rparr>"
  have "ack_set (ak\<lparr>ak_generation := g, ak_pending := map_set st ?i (ak_pending ak)\<rparr>) \<subseteq> insert ?a (ack_set ak)" for g
    using retained_set [of st ?i "ak_pending ak"] by (auto simp: ack_set_def)
  moreover have "ack_set (ak\<lparr>ak_generation := g, ak_pending := ak_pending ak\<rparr>) = ack_set ak" for g by (simp add: ack_set_def)
  ultimately show "ack_set (snd (ack opts se now c st k d ak)) \<subseteq> insert ?a (ack_set ak)" by (auto simp: ack_def Let_def)
qed (simp add: ack_def Let_def)

section \<open>Steps that only move acknowledgements\<close>

definition keeps :: "loader \<Rightarrow> loader \<Rightarrow> bool" where
  "keeps ld ld' \<longleftrightarrow> all_acks ld' \<subseteq> all_acks ld \<and> set (ld_log ld) \<subseteq> set (ld_log ld') \<and>
     ak_generation (ld_acks ld') = ak_generation (ld_acks ld)"

lemma keeps_refl [simp]: "keeps ld ld"
  by (simp add: keeps_def)

lemma keeps_trans: "keeps ld ld' \<Longrightarrow> keeps ld' ld'' \<Longrightarrow> keeps ld ld''"
  by (auto simp: keeps_def)

lemma keeps_view:
  "ld_acks ld' = ld_acks ld \<Longrightarrow> ld_watch ld' = ld_watch ld \<Longrightarrow> set (ld_log ld) \<subseteq> set (ld_log ld') \<Longrightarrow> keeps ld ld'"
  by (simp add: keeps_def all_acks_def)

lemma keeps_acks:
  assumes "ack_set ak \<subseteq> ack_set (ld_acks ld)" "ak_generation ak = ak_generation (ld_acks ld)"
  shows "keeps ld (ld\<lparr>ld_acks := ak\<rparr>)"
  using assms by (auto simp: keeps_def all_acks_def)

lemma view_side [simp]:
  "ld_acks (finish_reject f ld) = ld_acks ld" "ld_watch (finish_reject f ld) = ld_watch ld" "ld_log (finish_reject f ld) = ld_log ld"
  "ld_acks (abort_active ld) = ld_acks ld" "ld_watch (abort_active ld) = ld_watch ld" "ld_log (abort_active ld) = ld_log ld"
  "ld_acks (start cfg now c ld) = ld_acks ld" "ld_watch (start cfg now c ld) = ld_watch ld" "ld_log (start cfg now c ld) = ld_log ld"
  "ld_acks (observe c ld) = ld_acks ld" "ld_watch (observe c ld) = ld_watch ld" "ld_log (observe c ld) = ld_log ld"
  "ld_acks (see_revision r ld) = ld_acks ld" "ld_watch (see_revision r ld) = ld_watch ld" "ld_log (see_revision r ld) = ld_log ld"
  "ld_acks (log_event e ld) = ld_acks ld" "ld_watch (log_event e ld) = ld_watch ld" "ld_log (log_event e ld) = ld_log ld @ [e]"
  "ld_acks (recordReconnect ld) = ld_acks ld" "ld_log (recordReconnect ld) = ld_log ld"
  by (auto simp: finish_reject_def abort_active_def set_task_def start_def Let_def observe_def see_revision_def log_event_def recordReconnect_def
      split: option.split)

lemma view_queue [simp]:
  "ld_acks (offer cfg now c ld) = ld_acks ld" "ld_watch (offer cfg now c ld) = ld_watch ld" "ld_log (offer cfg now c ld) = ld_log ld"
  "ld_acks (start_pending cfg now ld) = ld_acks ld" "ld_watch (start_pending cfg now ld) = ld_watch ld" "ld_log (start_pending cfg now ld) = ld_log ld"
  by (auto simp: offer_def start_pending_def Let_def split: option.split)

lemma keeps_tasks:
  "keeps ld (task_settled cfg now t ld)" "keeps ld (validate_reply cfg t reply ld)" "keeps ld (entry_reply cfg now t w replies ld)"
  "keeps ld (pool_end t ld)" "keeps ld (settle_within t rejects ld)" "keeps ld (ack_waited t ld)"
  by (auto intro!: keeps_view simp: task_settled_def validate_reply_def entry_reply_def pool_end_def settle_within_def ack_waited_def
      task_catch_def Let_def split: option.split task_pc.split pool_worker.split wait_result.split)

lemma keeps_startup_read: "keeps ld (startup_read cfg now t reply ld)"
proof -
  have "keeps ld (set_pc t pc (ld\<lparr>ld_acks := waitForAcknowledgement t gen ab (ld_acks ld)\<rparr>))" for pc gen ab
    by (rule keeps_trans [OF keeps_acks [of "waitForAcknowledgement t gen ab (ld_acks ld)"] keeps_view]) (simp_all add: ack_set_waits)
  then show ?thesis
    by (auto simp: startup_read_def Let_def split: option.split task_pc.split intro!: keeps_view)
qed

lemma keeps_abort_run: "keeps ld (abort_run ld)"
  by (auto simp: abort_run_def keeps_def all_acks_def ack_set_waits)

lemma keeps_run_finally: "keeps ld (run_finally f ld)"
proof -
  have "keeps ld (abort_active ld)" by (rule keeps_view) simp_all
  then have "keeps ld (abort_run (abort_active ld))" using keeps_abort_run keeps_trans by blast
  then show ?thesis by (auto simp: run_finally_def keeps_def all_acks_def)
qed

lemma keeps_leave_stream: "keeps ld (leave_stream attempt stream received thrown ld)"
  by (auto simp: leave_stream_def Let_def keeps_def all_acks_def split: option.split)

lemma keeps_watch_loop_head: "keeps ld (watch_loop_head attempt ld)"
  by (auto simp: watch_loop_head_def keeps_def all_acks_def)

lemma keeps_watch:
  "keeps ld (watch_opened thrown ld)" "keeps ld (watch_replay thrown ld)" "keeps ld (watch_flushed code ld)"
  "keeps ld (watch_ended thrown ld)" "keeps ld (watch_closed ld)" "keeps ld (watch_backoff_done ld)"
proof -
  have "keeps ld (ld\<lparr>ld_watch := WReplaying a s (flush_items True (ld_acks ld)), ld_nextStream := n\<rparr>)" for a s n
    using retained_flush [of True "ld_acks ld"] by (auto simp: keeps_def all_acks_def ack_set_def)
  then show "keeps ld (watch_opened thrown ld)"
    by (simp add: watch_opened_def keeps_leave_stream split: lwatch_pc.split option.split)
  show "keeps ld (watch_flushed code ld)"
    by (auto simp: watch_flushed_def keeps_leave_stream split: lwatch_pc.split option.split bool.split)
      (auto simp: keeps_def all_acks_def)
  show "keeps ld (watch_ended thrown ld)" by (simp add: watch_ended_def keeps_leave_stream split: lwatch_pc.split)
  show "keeps ld (watch_closed ld)"
    by (auto simp: watch_closed_def keeps_def all_acks_def split: lwatch_pc.split option.split)
  show "keeps ld (watch_backoff_done ld)"
    by (auto simp: watch_backoff_done_def keeps_watch_loop_head split: lwatch_pc.split) (auto simp: keeps_def all_acks_def)
  show "keeps ld (watch_replay thrown ld)"
  proof (cases "ld_watch ld")
    case (WReplaying attempt stream items)
    show ?thesis
    proof (cases items)
      case (Cons item more)
      have "keeps ld (ld\<lparr>ld_acks := flush_sent stream item (ld_acks ld), ld_watch := WReplaying attempt stream more\<rparr>)"
        using WReplaying Cons ack_set_flush_sent [of stream item "ld_acks ld"] by (auto simp: keeps_def all_acks_def)
      then show ?thesis using WReplaying Cons by (simp add: watch_replay_def keeps_leave_stream split: option.split)
    qed (use WReplaying in \<open>simp add: watch_replay_def keeps_def all_acks_def Let_def\<close>)
  qed (simp_all add: watch_replay_def)
qed

lemma keeps_loops:
  "keeps ld (watch_event_received cfg now ev revision ld)" "keeps ld (recon_wake ld)" "keeps ld (recon_read cfg now reply ld)"
  "keeps ld (chain_send_failed ld)"
proof -
  have off: "keeps ld (offer cfg now c (see_revision r (ld\<lparr>ld_watch := WStreaming a s b\<rparr>)))" "keeps ld (see_revision r (ld\<lparr>ld_watch := WStreaming a s b\<rparr>))"
    for c r a s b by (auto simp: keeps_def all_acks_def)
  have rej: "keeps ld (ld\<lparr>ld_watch := WStreaming a s b, ld_acks := handleAcknowledgementRejected o' se r (ld_acks ld)\<rparr>)" for a s b o' se r
    using ack_set_rejected [of o' se r "ld_acks ld"] by (auto simp: keeps_def all_acks_def)
  show "keeps ld (watch_event_received cfg now ev revision ld)"
    using off rej by (auto simp: watch_event_received_def keeps_leave_stream split: lwatch_pc.split release_watch_event.split option.split)
  show "keeps ld (recon_wake ld)" "keeps ld (recon_read cfg now reply ld)"
    by (auto simp: recon_wake_def recon_read_def Let_def intro!: keeps_view split: lrecon_pc.split option.split)
  have "keeps ld (log_event e (on_acks (chain_send False) ld))" for e
    using ack_set_chain(2,5) [of False "ld_acks ld"] by (auto simp: keeps_def all_acks_def on_acks_def)
  then show "keeps ld (chain_send_failed ld)"
    by (auto simp: chain_send_failed_def split: list.split option.split)
qed

lemma keeps_on_acks:
  "keeps ld (on_acks chain_start ld)" "keeps ld (on_acks (chain_send ok) ld)" "keeps ld (on_acks chain_finish ld)" "keeps ld (on_acks (wait_timeout gen) ld)"
  unfolding on_acks_def by (rule keeps_acks; simp add: ack_set_chain ack_set_waits)+

lemma keeps_running:
  "keeps ld (run_registered capable ld)" "keeps ld (run_initial cfg now target ld)" "keeps ld (run_race_ends ld)" "keeps ld (run_drain ld)"
  "keeps ld (stop_loader ld)"
proof -
  show "keeps ld (run_registered capable ld)"
    by (auto simp: run_registered_def keeps_run_finally intro!: keeps_view split: lrun_pc.split option.split bool.split)
  show "keeps ld (run_race_ends ld)" by (simp add: run_race_ends_def keeps_run_finally split: lrun_pc.split option.split)
  show "keeps ld (run_drain ld)"
    by (auto simp: run_drain_def Let_def keeps_def all_acks_def split: lrun_pc.split option.split)
  show "keeps ld (stop_loader ld)" by (simp add: stop_loader_def keeps_abort_run)
  let ?h = "\<lambda>r x. (watch_loop_head 0 (ld\<lparr>ld_lastSeenRevision := r\<rparr>))\<lparr>ld_recon := x, ld_run := RRacing\<rparr>"
  have "keeps ld (?h r x)" for r x by (auto simp: watch_loop_head_def keeps_def all_acks_def)
  moreover have "keeps (?h r x) (offer cfg now c (?h r x))" for r x c by (rule keeps_view) simp_all
  ultimately have "keeps ld (offer cfg now c (?h r x))" "keeps ld (?h r x)" for r x c using keeps_trans by blast+
  then show "keeps ld (run_initial cfg now target ld)"
    by (simp add: run_initial_def Let_def keeps_run_finally split: lrun_pc.split option.split)
qed

section \<open>What acknowledgements say\<close>

definition told :: "loader_event list \<Rightarrow> release_ack \<Rightarrow> bool" where
  "told es a \<longleftrightarrow>
     (ra_state a = Received \<or> ra_state a = Prepared \<longrightarrow>
        (\<exists>t s. PrepareCall t s \<in> set es \<and> ri_version (sn_identity s) = ra_version a \<and>
           (ra_state a = Prepared \<longrightarrow> PrepareReturned t \<in> set es))) \<and>
     (ra_state a = Applied \<longrightarrow>
        (\<exists>t c. CommitCall t c ReturnsUndefined \<in> set es \<and> cr_version (cd_release c) = ra_version a \<and>
           cd_fleetRevision c = ra_activationRevision a))"

definition told_inv :: "loader \<Rightarrow> bool" where
  "told_inv ld \<longleftrightarrow> (\<forall>a \<in> all_acks ld. told (ld_log ld) a \<and> ra_sequence a \<le> ak_generation (ld_acks ld)) \<and>
     inj_on ra_sequence (all_acks ld)"

lemma told_mono: "told es a \<Longrightarrow> set es \<subseteq> set es' \<Longrightarrow> told es' a"
  unfolding told_def by blast

lemma told_inv_keeps: "told_inv ld \<Longrightarrow> keeps ld ld' \<Longrightarrow> told_inv ld'"
  unfolding told_inv_def keeps_def using told_mono by (metis inj_on_subset subsetD)

lemma told_inv_new:
  assumes "told_inv ld" "all_acks ld' \<subseteq> insert a (all_acks ld)" "set (ld_log ld) \<subseteq> set (ld_log ld')"
    and "ak_generation (ld_acks ld') = ak_generation (ld_acks ld) + 1" "ra_sequence a = ak_generation (ld_acks ld) + 1" "told (ld_log ld') a"
  shows "told_inv ld'"
proof -
  have old: "told (ld_log ld') b \<and> ra_sequence b < ra_sequence a" if "b \<in> all_acks ld" for b
    using assms(1,3,5) that told_mono unfolding told_inv_def by fastforce
  have "inj_on ra_sequence (all_acks ld)" using assms(1) unfolding told_inv_def by blast
  moreover have "ra_sequence a \<notin> ra_sequence ` all_acks ld" using old by force
  ultimately have "inj_on ra_sequence (insert a (all_acks ld))" by auto
  then have "inj_on ra_sequence (all_acks ld')" using assms(2) by (rule inj_on_subset)
  moreover have "told (ld_log ld') b \<and> ra_sequence b \<le> ak_generation (ld_acks ld')" if "b \<in> all_acks ld'" for b
  proof (cases "b = a")
    case False
    then have "b \<in> all_acks ld" using that assms(2) by blast
    then show ?thesis using old [of b] assms(4,5) by simp
  qed (simp add: assms(4,5,6))
  ultimately show ?thesis unfolding told_inv_def by blast
qed

text \<open>The acknowledgement an operation makes.\<close>

abbreviation new_ack ::
  "loader_cfg \<Rightarrow> real \<Rightarrow> candidate \<Rightarrow> release_state \<Rightarrow> release_category option \<Rightarrow> ack_divergence \<Rightarrow> loader \<Rightarrow> release_ack" where
  "new_ack cfg now c st k d ld \<equiv> make_ack (lc_opts cfg) (ld_session ld) now c st k d (ak_generation (ld_acks ld) + 1)"

lemma make_ack_fields [simp]:
  "ra_state (make_ack opts se now c st k d n) = st" "ra_sequence (make_ack opts se now c st k d n) = n"
  "ra_version (make_ack opts se now c st k d n) = cr_version (cd_release c)"
  "ra_activationRevision (make_ack opts se now c st k d n) = cd_fleetRevision c"
  by (simp_all add: make_ack_def Let_def)

lemma told_inv_ack:
  assumes "told_inv ld" "told (ld_log ld') (new_ack cfg now c st k d ld)" "set (ld_log ld) \<subseteq> set (ld_log ld')"
    and "ld_acks ld' = ld_acks (snd (ack_candidate cfg now c st k d ld))" "ld_watch ld' = ld_watch ld"
  shows "told_inv ld'"
proof (rule told_inv_new [OF assms(1) _ assms(3) _ _ assms(2)])
  show "all_acks ld' \<subseteq> insert (new_ack cfg now c st k d ld) (all_acks ld)"
    using ack_set_ack(1) [of "lc_opts cfg" "ld_session ld" now c st k d "ld_acks ld"] unfolding all_acks_def assms(4,5)
    by (auto simp: ack_candidate_snd)
qed (simp_all add: assms(4) ack_candidate_snd ack_set_ack)

lemma told_inv_rejected: "told_inv ld \<Longrightarrow> told_inv (settle_rejected cfg now t c k fatal ld)"
  unfolding settle_rejected_eq reject_snd
  by (rule told_inv_ack [where st = Rejected and k = "Some k" and d = NO_DIVERGENCE and cfg = cfg and now = now and c = c])
    (auto simp: told_def recordRejected_def ack_candidate_snd)

lemma told_inv_aborting: "told_inv ld \<Longrightarrow> told_inv (settle_aborting cfg now t c p k ld)"
  unfolding settle_aborting_def Let_def by (rule told_inv_rejected) (erule told_inv_keeps, rule keeps_view, auto)

lemma told_inv_commit: "told_inv ld \<Longrightarrow> told_inv (commit cfg now t c p ld)"
proof -
  assume inv: "told_inv ld"
  let ?ld1 = "log_event (CommitCall t c (pr_commit p)) ld"
  have inv1: "told_inv ?ld1" using inv by (rule told_inv_keeps) (rule keeps_view, auto)
  show ?thesis
  proof (cases "pr_commit p = ReturnsUndefined")
    case True
    show ?thesis
      by (rule told_inv_ack [OF inv1, where st = Applied and k = None and d = "divergenceOf (pr_divergence p)" and cfg = cfg and now = now and c = c])
        (auto simp: told_def commit_def Let_def True ack_candidate_snd)
  next
    case False
    have "told_inv (set_pc t (TSettled broken_commit) (recordRejected now Internal ?ld1))"
      using inv1 by (rule told_inv_keeps) (rule keeps_view, simp_all add: recordRejected_def)
    then show ?thesis using False by (simp add: commit_def Let_def)
  qed
qed

lemma told_inv_resolve:
  assumes "told_inv ld" "trace_core cfg (core ld)"
  shows "told_inv (resolve_settled cfg now t ld)"
proof (cases "map_get (ld_tasks ld) t")
  case (Some task)
  let ?ld1 = "ld\<lparr>ld_status := (ld_status ld)\<lparr>ms_lastResolutionDurationMs := max 0 (now - tk_started task)\<rparr>\<rparr>"
  have inv1: "told_inv ?ld1" using assms(1) by (rule told_inv_keeps) (rule keeps_view, auto)
  show ?thesis
  proof (cases "tk_pc task")
    case (TResolved outcome)
    show ?thesis
    proof (cases outcome)
      case (Inl k)
      then show ?thesis using Some TResolved told_inv_rejected [OF inv1] by (simp add: resolve_settled_def Let_def)
    next
      case (Inr s)
      have "good_snapshot cfg (tk_candidate task) s"
        using trace_coreD [OF assms(2), of t task] Some TResolved Inr by (simp add: core_def)
      then have v: "ri_version (sn_identity s) = cr_version (cd_release (tk_candidate task))" by (auto simp: good_snapshot_def)
      show ?thesis
        by (rule told_inv_ack [OF inv1, where st = Received and k = None and d = NO_DIVERGENCE and cfg = cfg and now = now and c = "tk_candidate task"])
          (use v in \<open>auto simp: told_def resolve_settled_def Some TResolved Inr Let_def ack_candidate_snd set_state_def\<close>)
    qed
  qed (simp_all add: resolve_settled_def Some assms(1))
qed (simp add: resolve_settled_def assms(1))

lemma told_inv_prepare:
  assumes "told_inv ld" "trace_core cfg (core ld)"
  shows "told_inv (prepare_settled cfg now t reply ld)"
proof (cases "map_get (ld_tasks ld) t")
  case (Some task)
  show ?thesis
  proof (cases "tk_pc task = TPreparing")
    case pc: True
    let ?ld1 = "log_event (PrepareReturned t) ld"
    have inv1: "told_inv ?ld1" using assms(1) by (rule told_inv_keeps) (rule keeps_view, auto)
    obtain s where c: "calls_of t (core ld) = [PrepareCall t s]" and g: "good_snapshot cfg (tk_candidate task) s"
      using trace_coreD [OF assms(2), of t task] Some pc by (auto simp: core_def)
    have "PrepareCall t s \<in> set (calls_of t (core ld))" by (simp add: c)
    then have s: "PrepareCall t s \<in> set (ld_log ld)" by (simp add: core_def calls_of_def)
    from g have v: "ri_version (sn_identity s) = cr_version (cd_release (tk_candidate task))" by (auto simp: good_snapshot_def)
    have "told_inv (set_pc t (TChecking p)
      (set_state Prepared (snd (ack_candidate cfg now (tk_candidate task) Prepared None NO_DIVERGENCE ?ld1))))" for p
      by (rule told_inv_ack [OF inv1, where st = Prepared and k = None and d = NO_DIVERGENCE and cfg = cfg and now = now and c = "tk_candidate task"])
        (use s v in \<open>auto simp: told_def ack_candidate_snd set_state_def\<close>)
    then show ?thesis
      using Some pc told_inv_rejected [OF assms(1)] told_inv_aborting [OF inv1]
      by (simp add: prepare_settled_def Let_def split: prepare_reply.split)
  next
    case False
    then show ?thesis using Some assms(1) by (simp add: prepare_settled_def split: task_pc.split)
  qed
qed (simp add: prepare_settled_def assms(1))

lemma told_inv_active: "told_inv ld \<Longrightarrow> told_inv (active_settled cfg now t reply ld)"
  by (simp add: active_settled_def Let_def told_inv_aborting told_inv_commit split: option.split task_pc.split)

lemma told_inv_empty: "all_acks ld = {} \<Longrightarrow> told_inv ld"
  by (simp add: told_inv_def)

lemma told_inv_begin: "told_inv ld \<Longrightarrow> told_inv (run_begin cfg p a uuid ld)"
  by (auto simp: run_begin_def Let_def all_acks_def ack_set_def no_acks_def intro!: told_inv_empty told_inv_keeps [OF _ keeps_run_finally])

lemma told_inv_step:
  assumes "told_inv ld" "trace_core cfg (core ld)"
  shows "told_inv (loader_step cfg act ld)"
proof (cases act)
qed (simp_all add: assms told_inv_begin told_inv_resolve told_inv_prepare told_inv_active
  told_inv_keeps [OF assms(1)] keeps_loops keeps_on_acks keeps_running keeps_tasks keeps_startup_read keeps_watch)

lemma told_run: "told_inv (run (loader_step cfg) acts newReleaseLoader)"
proof (induction acts rule: rev_induct)
  case Nil
  show ?case by (rule told_inv_empty) (simp add: run_def newReleaseLoader_def all_acks_def ack_set_def no_acks_def)
next
  case (snoc act acts)
  have "trace_core cfg (core (run (loader_step cfg) acts newReleaseLoader))" using safe_run [of cfg acts] by (simp add: safe_core_def)
  then show ?case using snoc told_inv_step by (simp add: run_def)
qed

section \<open>What the server is told\<close>

text \<open>C20: what the loader tells the server is true. Whatever the interleaving of release processing, streams and flushes, an
  acknowledgement that was sent and says received or prepared speaks of a release for which \<open>prepare\<close> was called with
  a snapshot of that very version, and has returned when it says prepared; one that says applied speaks of a release whose
  \<open>commit\<close> was called and succeeded, at the activation revision it names. Two sent acknowledgements with the same
  sequence number are the same acknowledgement.\<close>

theorem acks_truthful:
  assumes "ld = run (loader_step cfg) acts newReleaseLoader" "(stream, a) \<in> set (ak_sent (ld_acks ld))"
  shows "(ra_state a = Received \<or> ra_state a = Prepared \<longrightarrow>
      (\<exists>t s. PrepareCall t s \<in> set (ld_log ld) \<and> ri_version (sn_identity s) = ra_version a \<and>
         (ra_state a = Prepared \<longrightarrow> PrepareReturned t \<in> set (ld_log ld)))) \<and>
    (ra_state a = Applied \<longrightarrow>
      (\<exists>t c. CommitCall t c ReturnsUndefined \<in> set (ld_log ld) \<and> cr_version (cd_release c) = ra_version a \<and>
         cd_fleetRevision c = ra_activationRevision a)) \<and>
    (\<forall>stream' b. (stream', b) \<in> set (ak_sent (ld_acks ld)) \<and> ra_sequence b = ra_sequence a \<longrightarrow> b = a)"
proof -
  have inv: "told_inv ld" unfolding assms(1) by (rule told_run)
  have sent: "b \<in> all_acks ld" if "(stream', b) \<in> set (ak_sent (ld_acks ld))" for stream' b
    using that by (force simp: all_acks_def ack_set_def)
  have "told (ld_log ld) a" "inj_on ra_sequence (all_acks ld)" using inv sent [OF assms(2)] unfolding told_inv_def by blast+
  then show ?thesis using sent assms(2) unfolding told_def inj_on_def by blast
qed

definition replay_acts :: "loader_action list" where
  "replay_acts = prepared_acts @ [confirm, WatchOpened None] @ replicate 4 (WatchReplay None)"

lemma replay_sent:
  "map (\<lambda>e. (ra_state (snd e), ra_version (snd e), ra_activationRevision (snd e)))
     (ak_sent (ld_acks (run (loader_step run_cfg) replay_acts newReleaseLoader))) =
   [(Rejected, 3, 3), (Received, 4, 4), (Prepared, 4, 4), (Applied, 4, 4)]"
  by (simp add: run_evals replay_acts_def numeral_eq_Suc watch_opened_def watch_replay_def flush_items_def flush_sent_def)

theorem acks_truthful_witness:
  "\<exists>t c. CommitCall t c ReturnsUndefined \<in> set (ld_log (run (loader_step run_cfg) replay_acts newReleaseLoader)) \<and>
     cr_version (cd_release c) = 4 \<and> cd_fleetRevision c = 4"
proof -
  let ?sent = "ak_sent (ld_acks (run (loader_step run_cfg) replay_acts newReleaseLoader))"
  have "(Applied, 4, 4) \<in> set (map (\<lambda>e. (ra_state (snd e), ra_version (snd e), ra_activationRevision (snd e))) ?sent)"
    unfolding replay_sent by simp
  then obtain stream a where a: "(stream, a) \<in> set ?sent" "ra_state a = Applied" "ra_version a = 4" "ra_activationRevision a = 4"
    by auto
  show ?thesis using acks_truthful [OF refl a(1)] a(2-4) by simp
qed

end
