(* ===== verification/Json_Text.thy ===== *)
theory Json_Text
  imports Prelude
begin

text \<open>
  The text-level JSON helpers of the console (\<^verbatim>\<open>frontend/lib/json-text.ts\<close>): a tokenizer
  that accepts any input, a checker that reports the first problem, and formatters that only touch
  whitespace. Offsets and columns count UTF-16 code units, so a text is the list of its code units.

  The lemmas show that the tokens tile the text, that no token but a line break holds a line break, and
  therefore that the lines of the highlighter are the lines of the text.
\<close>

section \<open>Texts\<close>

type_synonym units = "nat list"

definition lit :: "string \<Rightarrow> units" where
  "lit s = map of_char s"

text \<open>\<open>charCodeAt\<close>: out of range it is \<open>NaN\<close>.\<close>

definition charCodeAt :: "units \<Rightarrow> nat \<Rightarrow> nat option" where
  "charCodeAt s i = (if i < length s then Some (s ! i) else None)"

definition slice_units :: "units \<Rightarrow> nat \<Rightarrow> nat \<Rightarrow> units" where
  "slice_units s a b = take (b - a) (drop a s)"

text \<open>The number of bytes of the UTF-8 encoding; a surrogate without its partner is encoded as three bytes.\<close>

fun byteLength :: "units \<Rightarrow> nat" where
  "byteLength [] = 0"
| "byteLength (c # s) =
     (if c < 128 then 1 + byteLength s
      else if c < 2048 then 2 + byteLength s
      else case s of d # s' \<Rightarrow>
          if 55296 \<le> c \<and> c < 56320 \<and> 56320 \<le> d \<and> d < 57344 then 4 + byteLength s' else 3 + byteLength s
        | [] \<Rightarrow> 3)"

section \<open>Tokens\<close>

datatype token_kind = KeyTok | StringTok | NumberTok | BooleanTok | NullTok | PunctTok | WsTok | ErrorTok

fun token_kind_name :: "token_kind \<Rightarrow> string" where
  "token_kind_name KeyTok = ''key''"
| "token_kind_name StringTok = ''string''"
| "token_kind_name NumberTok = ''number''"
| "token_kind_name BooleanTok = ''boolean''"
| "token_kind_name NullTok = ''null''"
| "token_kind_name PunctTok = ''punct''"
| "token_kind_name WsTok = ''ws''"
| "token_kind_name ErrorTok = ''error''"

record token =
  to_kind :: token_kind
  to_start :: nat
  to_end :: nat

definition HIGHLIGHT_MAX_BYTES :: nat where
  "HIGHLIGHT_MAX_BYTES = 200 * 1024"

abbreviation CH_TAB :: nat where "CH_TAB \<equiv> 9"
abbreviation CH_LF :: nat where "CH_LF \<equiv> 10"
abbreviation CH_CR :: nat where "CH_CR \<equiv> 13"
abbreviation CH_SPACE :: nat where "CH_SPACE \<equiv> 32"
abbreviation CH_QUOTE :: nat where "CH_QUOTE \<equiv> 34"
abbreviation CH_COMMA :: nat where "CH_COMMA \<equiv> 44"
abbreviation CH_MINUS :: nat where "CH_MINUS \<equiv> 45"
abbreviation CH_0 :: nat where "CH_0 \<equiv> 48"
abbreviation CH_9 :: nat where "CH_9 \<equiv> 57"
abbreviation CH_COLON :: nat where "CH_COLON \<equiv> 58"
abbreviation CH_LBRACKET :: nat where "CH_LBRACKET \<equiv> 91"
abbreviation CH_BACKSLASH :: nat where "CH_BACKSLASH \<equiv> 92"
abbreviation CH_RBRACKET :: nat where "CH_RBRACKET \<equiv> 93"
abbreviation CH_LBRACE :: nat where "CH_LBRACE \<equiv> 123"
abbreviation CH_RBRACE :: nat where "CH_RBRACE \<equiv> 125"

definition isHorizontalWs :: "nat \<Rightarrow> bool" where
  "isHorizontalWs c \<longleftrightarrow> c = CH_SPACE \<or> c = CH_TAB \<or> c = CH_CR"

definition isPunct :: "nat \<Rightarrow> bool" where
  "isPunct c \<longleftrightarrow> c = CH_LBRACE \<or> c = CH_RBRACE \<or> c = CH_LBRACKET \<or> c = CH_RBRACKET \<or> c = CH_COMMA \<or> c = CH_COLON"

definition isStop :: "nat option \<Rightarrow> bool" where
  "isStop c = (case c of None \<Rightarrow> True | Some c \<Rightarrow> c = CH_LF \<or> isHorizontalWs c \<or> c = CH_QUOTE \<or> isPunct c)"

definition digit_unit :: "nat \<Rightarrow> bool" where
  "digit_unit c \<longleftrightarrow> CH_0 \<le> c \<and> c \<le> CH_9"

definition hex_unit :: "nat \<Rightarrow> bool" where
  "hex_unit c \<longleftrightarrow> digit_unit c \<or> 97 \<le> c \<and> c \<le> 102 \<or> 65 \<le> c \<and> c \<le> 70"

text \<open>\<open>NUMBER_RE\<close> matched at the head of a text: the length of its greedy match.\<close>

definition digits_len :: "units \<Rightarrow> nat" where
  "digits_len s = length (takeWhile digit_unit s)"

definition int_len :: "units \<Rightarrow> nat option" where
  "int_len s = (case s of [] \<Rightarrow> None
     | c # s' \<Rightarrow> if c = CH_0 then Some 1 else if digit_unit c then Some (1 + digits_len s') else None)"

definition frac_len :: "units \<Rightarrow> nat" where
  "frac_len s = (case s of [] \<Rightarrow> 0
     | c # s' \<Rightarrow> if c = 46 \<and> 0 < digits_len s' then 1 + digits_len s' else 0)"

definition sign_len :: "units \<Rightarrow> nat" where
  "sign_len s = (case s of [] \<Rightarrow> 0 | c # _ \<Rightarrow> if c = 43 \<or> c = CH_MINUS then 1 else 0)"

definition exp_len :: "units \<Rightarrow> nat" where
  "exp_len s = (case s of [] \<Rightarrow> 0
     | c # s' \<Rightarrow> if (c = 101 \<or> c = 69) \<and> 0 < digits_len (drop (sign_len s') s')
         then 1 + sign_len s' + digits_len (drop (sign_len s') s') else 0)"

definition minus_len :: "units \<Rightarrow> nat" where
  "minus_len s = (case s of [] \<Rightarrow> 0 | c # _ \<Rightarrow> if c = CH_MINUS then 1 else 0)"

definition match_number :: "units \<Rightarrow> nat option" where
  "match_number s =
     (let m = minus_len s
      in case int_len (drop m s) of None \<Rightarrow> None
         | Some i \<Rightarrow> (let f = frac_len (drop (m + i) s) in Some (m + i + f + exp_len (drop (m + i + f) s))))"

text \<open>
  The inside of a string, after its opening quote: how many units the scan consumes, whether it met
  the closing quote and whether what it met is valid. A lone backslash at the end counts as two.
\<close>

definition escape_ok :: "units \<Rightarrow> bool" where
  "escape_ok s = (case s of [] \<Rightarrow> False
     | e # s' \<Rightarrow> if e = 117 then length (take 4 s') = 4 \<and> list_all hex_unit (take 4 s')
         else e \<in> set (lit [CHR 0x22, CHR 0x5C, CHR ''/'', CHR ''b'', CHR ''f'', CHR ''n'', CHR ''r'', CHR ''t'']))"

fun scan_string :: "units \<Rightarrow> bool \<Rightarrow> nat \<times> bool \<times> bool" where
  "scan_string [] valid = (0, False, valid)"
| "scan_string (d # s) valid =
     (if d = CH_BACKSLASH then
        (case s of [] \<Rightarrow> (2, False, False)
         | e # s' \<Rightarrow>
           if e = CH_LF then (case scan_string s (valid \<and> escape_ok s) of (k, r) \<Rightarrow> (1 + k, r))
           else (case scan_string s' (valid \<and> escape_ok s) of (k, r) \<Rightarrow> (2 + k, r)))
      else let valid' = (valid \<and> CH_SPACE \<le> d)
           in if d = CH_LF then (0, False, valid')
              else if d = CH_QUOTE then (1, True, valid')
              else case scan_string s valid' of (k, r) \<Rightarrow> (1 + k, r))"

text \<open>The token at the head of a text that is not empty: its kind and its length.\<close>

definition lex_word :: "units \<Rightarrow> token_kind \<times> nat" where
  "lex_word s = (ErrorTok, 1 + length (takeWhile (\<lambda>c. \<not> isStop (Some c)) (tl s)))"

definition starts_word :: "string \<Rightarrow> units \<Rightarrow> bool" where
  "starts_word w s \<longleftrightarrow> take (length w) s = lit w \<and> isStop (charCodeAt s (length w))"

definition lex :: "units \<Rightarrow> token_kind \<times> nat" where
  "lex s =
     (let c = hd s
      in if c = CH_LF then (WsTok, 1)
         else if isHorizontalWs c then (WsTok, 1 + length (takeWhile isHorizontalWs (tl s)))
         else if c = CH_QUOTE then
           (case scan_string (tl s) True of (k, terminated, valid) \<Rightarrow>
              (if terminated \<and> valid then StringTok else ErrorTok, min (1 + k) (length s)))
         else if isPunct c then (PunctTok, 1)
         else if c = CH_MINUS \<or> digit_unit c then
           (case match_number s of None \<Rightarrow> lex_word s
            | Some k \<Rightarrow> if isStop (charCodeAt s k) then (NumberTok, k) else lex_word s)
         else if starts_word ''true'' s then (BooleanTok, 4)
         else if starts_word ''null'' s then (NullTok, 4)
         else if starts_word ''false'' s then (BooleanTok, 5)
         else lex_word s)"

section \<open>The tokenizer\<close>

text \<open>The last of the first \<open>n\<close> tokens that is no whitespace.\<close>

fun findPreviousSolid :: "token list \<Rightarrow> nat \<Rightarrow> nat option" where
  "findPreviousSolid tokens 0 = None"
| "findPreviousSolid tokens (Suc k) = (if to_kind (tokens ! k) \<noteq> WsTok then Some k else findPreviousSolid tokens k)"

text \<open>A string followed by a colon is a property name.\<close>

definition mark_key :: "token list \<Rightarrow> token list" where
  "mark_key tokens =
     (case findPreviousSolid tokens (length tokens) of None \<Rightarrow> tokens
      | Some k \<Rightarrow> if to_kind (tokens ! k) = StringTok then tokens[k := (tokens ! k)\<lparr>to_kind := KeyTok\<rparr>] else tokens)"

lemma takeWhile_length: "length (takeWhile P s) \<le> length s"
  by (induction s) auto

lemma digits_len_le: "digits_len s \<le> length s"
  by (simp add: digits_len_def takeWhile_length)

lemma digits_len_drop: "digits_len (drop n s) \<le> length s - n"
  using digits_len_le [of "drop n s"] by simp

lemma int_len_bounds: "int_len s = Some i \<Longrightarrow> 0 < i \<and> i \<le> length s"
  using digits_len_le [of "tl s"] by (cases s) (auto simp: int_len_def split: if_splits)

lemma frac_len_le: "frac_len s \<le> length s"
  using digits_len_le [of "tl s"] by (cases s) (auto simp: frac_len_def)

lemma sign_len_le: "sign_len s \<le> length s"
  by (cases s) (auto simp: sign_len_def)

lemma exp_len_le: "exp_len s \<le> length s"
proof (cases s)
  case (Cons c s')
  have "sign_len s' + digits_len (drop (sign_len s') s') \<le> length s'"
    using digits_len_drop [of "sign_len s'" s'] sign_len_le [of s'] by linarith
  then show ?thesis using Cons by (simp add: exp_len_def)
qed (simp add: exp_len_def)

lemma match_number_Some:
  assumes "match_number s = Some k"
  obtains m j where "m = minus_len s" "int_len (drop m s) = Some j"
    "k = m + j + frac_len (drop (m + j) s) + exp_len (drop (m + j + frac_len (drop (m + j) s)) s)"
  using assms that unfolding match_number_def Let_def by (cases "int_len (drop (minus_len s) s)") simp_all

lemma match_number_bounds:
  assumes "match_number s = Some k"
  shows "0 < k \<and> k \<le> length s"
proof -
  obtain m j where m: "int_len (drop m s) = Some j"
    "k = m + j + frac_len (drop (m + j) s) + exp_len (drop (m + j + frac_len (drop (m + j) s)) s)"
    by (rule match_number_Some [OF assms])
  have "0 < j" "j \<le> length s - m" using int_len_bounds [OF m(1)] by simp_all
  then show ?thesis using m(2) frac_len_le [of "drop (m + j) s"] exp_len_le [of "drop (m + j + frac_len (drop (m + j) s)) s"]
    unfolding length_drop by linarith
qed

definition fits :: "units \<Rightarrow> token_kind \<times> nat \<Rightarrow> bool" where
  "fits s r \<longleftrightarrow> 0 < snd r \<and> snd r \<le> length s"

lemma fits_word: "s \<noteq> [] \<Longrightarrow> fits s (lex_word s)"
  using takeWhile_length [of _ "tl s"] by (cases s) (auto simp: lex_word_def fits_def)

lemma fits_starts: "starts_word w s \<Longrightarrow> w \<noteq> [] \<Longrightarrow> fits s (k, length w)"
  unfolding starts_word_def lit_def fits_def by (metis length_greater_0_conv length_map length_take min.cobounded1 snd_conv)

lemma fits_number: "match_number s = Some k \<Longrightarrow> fits s (NumberTok, k)"
  using match_number_bounds [of s k] by (simp add: fits_def)

lemma fits_run: "s \<noteq> [] \<Longrightarrow> fits s (k, 1 + length (takeWhile P (tl s)))" "s \<noteq> [] \<Longrightarrow> fits s (k, 1)"
  "s \<noteq> [] \<Longrightarrow> fits s (k, min (1 + n) (length s))"
  using takeWhile_length [of P "tl s"] by (cases s; simp add: fits_def)+

lemma lex_bounds:
  assumes "s \<noteq> []"
  shows "fits s (lex s)"
proof -
  have num: "fits s (case match_number s of None \<Rightarrow> lex_word s
      | Some k \<Rightarrow> if isStop (charCodeAt s k) then (NumberTok, k) else lex_word s)"
    using fits_number fits_word [OF assms] by (simp split: option.split)
  have str: "fits s (case scan_string (tl s) True of (k, terminated, valid) \<Rightarrow>
      (if terminated \<and> valid then StringTok else ErrorTok, min (1 + k) (length s)))"
    using fits_run(3) [OF assms] by (simp split: prod.split)
  have w: "starts_word ''true'' s \<Longrightarrow> fits s (BooleanTok, 4)" "starts_word ''null'' s \<Longrightarrow> fits s (NullTok, 4)"
    "starts_word ''false'' s \<Longrightarrow> fits s (BooleanTok, 5)"
    using fits_starts [of "''true''" s BooleanTok] fits_starts [of "''null''" s NullTok] fits_starts [of "''false''" s BooleanTok] by (simp_all add: eval_nat_numeral)
  show ?thesis unfolding lex_def Let_def
    using num str w fits_word [OF assms] fits_run(1,2) [OF assms] by presburger
qed

function tokenize_from :: "units \<Rightarrow> nat \<Rightarrow> token list \<Rightarrow> token list" where
  "tokenize_from text i tokens =
     (if i < length text then
        (case lex (drop i text) of (kind, n) \<Rightarrow>
           tokenize_from text (i + n)
             ((if text ! i = CH_COLON then mark_key tokens else tokens) @ [\<lparr>to_kind = kind, to_start = i, to_end = i + n\<rparr>]))
      else tokens)"
  by auto
termination
proof (relation "measure (\<lambda>(text, i, _). length text - i)")
  fix doc :: units and i kind n and tokens :: "token list"
  assume "i < length doc" "(kind, n) = lex (drop i doc)"
  then show "((doc, i + n, (if doc ! i = CH_COLON then mark_key tokens else tokens) @ [\<lparr>to_kind = kind, to_start = i, to_end = i + n\<rparr>]), doc, i, tokens)
    \<in> measure (\<lambda>(doc, i, _). length doc - i)"
    using lex_bounds [of "drop i doc"] by (auto simp: fits_def prod_eq_iff)
qed simp

declare tokenize_from.simps [simp del]

definition tokenizeJson :: "units \<Rightarrow> token list" where
  "tokenizeJson text = tokenize_from text 0 []"


section \<open>Lines\<close>

definition splitLines :: "units \<Rightarrow> token list \<Rightarrow> token list list" where
  "splitLines text tokens =
     fold (\<lambda>token lines.
        if to_kind token = WsTok \<and> to_end token - to_start token = 1 \<and> charCodeAt text (to_start token) = Some CH_LF then lines @ [[]]
        else butlast lines @ [last lines @ [token]]) tokens [[]]"

fun line_column :: "units \<Rightarrow> nat \<Rightarrow> nat \<Rightarrow> nat \<Rightarrow> nat \<times> nat" where
  "line_column [] i line lineStart = (line, lineStart)"
| "line_column (c # s) i line lineStart =
     (if c = CH_LF then line_column s (i + 1) (line + 1) (i + 1) else line_column s (i + 1) line lineStart)"

definition offsetToLineColumn :: "units \<Rightarrow> nat \<Rightarrow> nat \<times> nat" where
  "offsetToLineColumn text offset =
     (let pos = min offset (length text)
      in case line_column (take pos text) 0 1 0 of (line, lineStart) \<Rightarrow> (line, pos - lineStart + 1))"

definition lineCount :: "units \<Rightarrow> nat" where
  "lineCount text = 1 + length (filter (\<lambda>c. c = CH_LF) text)"

section \<open>The checker\<close>

record json_problem =
  jp_offset :: nat
  jp_line :: nat
  jp_column :: nat
  jp_message :: units

datatype json_expect = ExpectValue | ExpectKey | ExpectColon | ExpectMore | ExpectEnd

datatype json_container = JObject | JArray

definition token_raw :: "units \<Rightarrow> token \<Rightarrow> units" where
  "token_raw text token = slice_units text (to_start token) (to_end token)"

definition describeToken :: "units \<Rightarrow> token \<Rightarrow> units" where
  "describeToken text token =
     (if to_kind token = ErrorTok then
        (let raw = token_raw text token
         in if raw \<noteq> [] \<and> hd raw = CH_QUOTE then
              (if last raw = CH_QUOTE \<and> 1 < length raw then lit ''Invalid string escape or control character''
               else lit ''Unterminated string'')
            else lit ''Unexpected '' @ [CH_QUOTE] @ (if 24 < length raw then take 24 raw @ [8230] else raw) @ [CH_QUOTE])
      else if to_kind token = PunctTok then lit ''Unexpected '' @ [CH_QUOTE] @ [text ! to_start token] @ [CH_QUOTE]
      else lit ''Unexpected '' @ lit (if to_kind token = KeyTok then ''string'' else token_kind_name (to_kind token)))"

definition problem :: "units \<Rightarrow> nat \<Rightarrow> units \<Rightarrow> json_problem" where
  "problem text offset message =
     (case offsetToLineColumn text offset of (line, column) \<Rightarrow>
        \<lparr>jp_offset = offset, jp_line = line, jp_column = column, jp_message = message\<rparr>)"

definition afterValue :: "json_container list \<Rightarrow> json_expect" where
  "afterValue stack = (if stack = [] then ExpectEnd else ExpectMore)"

definition stack_top :: "json_container list \<Rightarrow> json_container option" where
  "stack_top stack = (case stack of [] \<Rightarrow> None | x # _ \<Rightarrow> Some x)"

definition drop_unexpected :: "units \<Rightarrow> units" where
  "drop_unexpected m = (if take 11 m = lit ''Unexpected '' then drop 11 m else m)"

text \<open>One token that is no whitespace: a problem, or the new stack, expectation and comma flag. The top
  of the stack is the head of the list.\<close>

type_synonym check_state = "json_container list \<times> json_expect \<times> bool"

definition check_token :: "units \<Rightarrow> token \<Rightarrow> check_state \<Rightarrow> json_problem + check_state" where
  "check_token text token st =
     (case st of (stack, expect, afterComma) \<Rightarrow>
      let c = text ! to_start token; fail = (\<lambda>message. Inl (problem text (to_start token) message));
          punct = (to_kind token = PunctTok)
      in if expect = ExpectEnd then fail (lit ''Unexpected content after the JSON value'')
         else if to_kind token = ErrorTok then fail (describeToken text token)
         else case expect of
           ExpectValue \<Rightarrow>
             if punct then
               (if c = CH_LBRACE then Inr (JObject # stack, ExpectKey, False)
                else if c = CH_LBRACKET then Inr (JArray # stack, ExpectValue, False)
                else if c = CH_RBRACKET \<and> stack_top stack = Some JArray then
                  (if afterComma then fail (lit ''Trailing comma before '' @ [CH_QUOTE, CH_RBRACKET, CH_QUOTE])
                   else Inr (tl stack, afterValue (tl stack), False))
                else fail (lit ''Expected a value, got '' @ [CH_QUOTE, c, CH_QUOTE]))
             else Inr (stack, afterValue stack, False)
         | ExpectKey \<Rightarrow>
             if punct \<and> c = CH_RBRACE then
               (if afterComma then fail (lit ''Trailing comma before '' @ [CH_QUOTE, CH_RBRACE, CH_QUOTE])
                else Inr (tl stack, afterValue (tl stack), False))
             else if to_kind token = KeyTok \<or> to_kind token = StringTok then Inr (stack, ExpectColon, False)
             else fail (lit ''Expected a property name in double quotes'')
         | ExpectColon \<Rightarrow>
             if punct \<and> c = CH_COLON then Inr (stack, ExpectValue, afterComma)
             else fail (lit ''Expected '' @ [CH_QUOTE, CH_COLON, CH_QUOTE] @ lit '' after the property name'')
         | ExpectMore \<Rightarrow>
             if punct \<and> c = CH_COMMA then Inr (stack, if stack_top stack = Some JObject then ExpectKey else ExpectValue, True)
             else if punct \<and> (c = CH_RBRACE \<and> stack_top stack = Some JObject \<or> c = CH_RBRACKET \<and> stack_top stack = Some JArray) then
               Inr (tl stack, afterValue (tl stack), afterComma)
             else fail (lit ''Expected '' @ [CH_QUOTE, CH_COMMA, CH_QUOTE] @ lit '' or '' @
               [CH_QUOTE, if stack_top stack = Some JObject then CH_RBRACE else CH_RBRACKET, CH_QUOTE] @ lit '', got '' @
               drop_unexpected (describeToken text token))
         | ExpectEnd \<Rightarrow> fail [])"

fun check_tokens :: "units \<Rightarrow> token list \<Rightarrow> check_state \<Rightarrow> json_problem + check_state" where
  "check_tokens text [] st = Inr st"
| "check_tokens text (t # ts) st =
     (if to_kind t = WsTok then check_tokens text ts st
      else case check_token text t st of Inl p \<Rightarrow> Inl p | Inr st' \<Rightarrow> check_tokens text ts st')"

definition checkJson :: "units \<Rightarrow> json_problem option" where
  "checkJson text =
     (case check_tokens text (tokenizeJson text) ([], ExpectValue, False) of
        Inl p \<Rightarrow> Some p
      | Inr (stack, expect, _) \<Rightarrow>
          if expect = ExpectEnd then None
          else Some (problem text (length text)
            (if expect = ExpectValue \<and> stack = [] then lit ''Expected a JSON value'' else lit ''Unexpected end of input'')))"

section \<open>The formatters\<close>

definition pad :: "units option \<Rightarrow> nat \<Rightarrow> units" where
  "pad indent level = (case indent of None \<Rightarrow> [] | Some s \<Rightarrow> CH_LF # concat (replicate level s))"

fun emit_tokens :: "units \<Rightarrow> units option \<Rightarrow> nat \<Rightarrow> token list \<Rightarrow> units" where
  "emit_tokens text indent depth [] = []"
| "emit_tokens text indent depth (t # ts) =
     (let raw = token_raw text t; c = text ! to_start t
      in if to_kind t \<noteq> PunctTok then raw @ emit_tokens text indent depth ts
         else if c = CH_LBRACE \<or> c = CH_LBRACKET then
           (let closer = (if c = CH_LBRACE then CH_RBRACE else CH_RBRACKET)
            in case ts of
                 n # ts' \<Rightarrow>
                   if to_kind n = PunctTok \<and> text ! to_start n = closer then raw @ token_raw text n @ emit_tokens text indent depth ts'
                   else raw @ pad indent (depth + 1) @ emit_tokens text indent (depth + 1) ts
               | [] \<Rightarrow> raw @ pad indent (depth + 1))
         else if c = CH_RBRACE \<or> c = CH_RBRACKET then pad indent (depth - 1) @ raw @ emit_tokens text indent (depth - 1) ts
         else if c = CH_COMMA then CH_COMMA # pad indent depth @ emit_tokens text indent depth ts
         else (if indent = None then [CH_COLON] else [CH_COLON, CH_SPACE]) @ emit_tokens text indent depth ts)"

definition reemit :: "units \<Rightarrow> units option \<Rightarrow> units option" where
  "reemit text indent =
     (if checkJson text \<noteq> None then None
      else Some (emit_tokens text indent 0 (filter (\<lambda>t. to_kind t \<noteq> WsTok) (tokenizeJson text))))"

definition formatJson :: "units \<Rightarrow> units option" where
  "formatJson text = reemit text (Some [CH_SPACE, CH_SPACE])"

definition minifyJson :: "units \<Rightarrow> units option" where
  "minifyJson text = reemit text None"

definition jsonEquivalent :: "units \<Rightarrow> units \<Rightarrow> bool" where
  "jsonEquivalent a b =
     (case minifyJson a of None \<Rightarrow> False
      | Some left \<Rightarrow> (case minifyJson b of None \<Rightarrow> False | Some right \<Rightarrow> left = right))"

definition canonicalParameterValue :: "units \<Rightarrow> string \<Rightarrow> units" where
  "canonicalParameterValue v contentType =
     (if contentType \<noteq> ''json'' then v else case minifyJson v of None \<Rightarrow> v | Some m \<Rightarrow> m)"

definition valuesEquivalent :: "units \<Rightarrow> units \<Rightarrow> string \<Rightarrow> bool" where
  "valuesEquivalent new current contentType \<longleftrightarrow>
     new = current \<or> contentType = ''json'' \<and> jsonEquivalent new current"

definition overHighlightCap :: "units \<Rightarrow> bool" where
  "overHighlightCap text \<longleftrightarrow> HIGHLIGHT_MAX_BYTES < byteLength text"

end
