(* ===== verification/Json_Text_Correct.thy ===== *)
theory Json_Text_Correct
  imports Json_Text
begin

text \<open>
  The tokenizer, the checker and the formatters of \<^verbatim>\<open>frontend/lib/json-text.ts\<close>: the tokens tile
  the text and split into its lines; the checker accepts exactly the texts whose tokens form a JSON
  document, with a grammar as the reference; formatting and minifying change whitespace only.
\<close>

section \<open>Lexemes\<close>

text \<open>The tokens without their positions and without the marking of keys.\<close>

function raw_lexemes :: "units \<Rightarrow> (token_kind \<times> units) list" where
  "raw_lexemes s = (if s = [] then [] else (fst (lex s), take (snd (lex s)) s) # raw_lexemes (drop (snd (lex s)) s))"
  by auto
termination
  using lex_bounds by (relation "measure length") (auto simp: fits_def)

declare raw_lexemes.simps [simp del]

lemma raw_lexemes_Nil [simp]: "raw_lexemes [] = []"
  by (simp add: raw_lexemes.simps)

definition unmark :: "token_kind \<Rightarrow> token_kind" where
  "unmark k = (if k = KeyTok then StringTok else k)"

lemma unmark_eq [simp]: "unmark k = WsTok \<longleftrightarrow> k = WsTok" "unmark k = PunctTok \<longleftrightarrow> k = PunctTok" "unmark k = ErrorTok \<longleftrightarrow> k = ErrorTok"
  "unmark k = StringTok \<longleftrightarrow> k = StringTok \<or> k = KeyTok"
  by (auto simp: unmark_def)

definition lexeme :: "units \<Rightarrow> token \<Rightarrow> token_kind \<times> units" where
  "lexeme s t = (unmark (to_kind t), token_raw s t)"

lemma map_list_update_same: "k < length xs \<Longrightarrow> f y = f (xs ! k) \<Longrightarrow> map f (xs[k := y]) = map f xs"
  by (metis list_update_id map_update nth_map)

lemma findPreviousSolid_bound: "findPreviousSolid tokens n = Some k \<Longrightarrow> k < n \<and> to_kind (tokens ! k) \<noteq> WsTok"
  by (induction n) (auto split: if_splits)

lemma mark_key_map:
  assumes "\<And>t. to_kind t = StringTok \<Longrightarrow> f (t\<lparr>to_kind := KeyTok\<rparr>) = f t"
  shows "map f (mark_key tokens) = map f tokens"
  using assms findPreviousSolid_bound [of tokens "length tokens"]
  by (auto simp: mark_key_def intro!: map_list_update_same split: option.split)

lemma mark_key_lexemes: "map (lexeme s) (mark_key tokens) = map (lexeme s) tokens"
  by (rule mark_key_map) (simp add: lexeme_def token_raw_def unmark_def)

lemma mark_key_spans: "map (\<lambda>t. (to_start t, to_end t)) (mark_key tokens) = map (\<lambda>t. (to_start t, to_end t)) tokens"
  by (rule mark_key_map) simp

lemma lex_not_key: "fst (lex s) \<noteq> KeyTok"
proof -
  have w: "fst (lex_word s) \<noteq> KeyTok" by (simp add: lex_word_def)
  have n: "fst (case match_number s of None \<Rightarrow> lex_word s
      | Some k \<Rightarrow> if isStop (charCodeAt s k) then (NumberTok, k) else lex_word s) \<noteq> KeyTok"
    using w by (simp split: option.split)
  have q: "fst (case scan_string (tl s) True of (k, terminated, valid) \<Rightarrow>
      (if terminated \<and> valid then StringTok else ErrorTok, min (1 + k) (length s))) \<noteq> KeyTok"
    by (simp split: prod.split)
  show ?thesis unfolding lex_def Let_def using w n q by (simp del: One_nat_def)
qed

lemma tokenize_lexemes:
  "i \<le> length s \<Longrightarrow> map (lexeme s) (tokenize_from s i tokens) = map (lexeme s) tokens @ raw_lexemes (drop i s)"
proof (induction s i tokens rule: tokenize_from.induct)
  case (1 s i tokens)
  show ?case
  proof (cases "i < length s")
    case True
    obtain k n where l: "lex (drop i s) = (k, n)" by fastforce
    have n: "0 < n" "i + n \<le> length s" using lex_bounds [of "drop i s"] True by (auto simp: l fits_def)
    let ?t = "\<lparr>to_kind = k, to_start = i, to_end = i + n\<rparr>"
    let ?tokens = "(if s ! i = CH_COLON then mark_key tokens else tokens) @ [?t]"
    have k: "unmark k = k" using l lex_not_key [of "drop i s"] by (simp add: unmark_def)
    have "tokenize_from s i tokens = tokenize_from s (i + n) ?tokens" using True l by (subst tokenize_from.simps) simp
    also have "map (lexeme s) \<dots> = map (lexeme s) ?tokens @ raw_lexemes (drop (i + n) s)" using "1.IH" [OF True] l n(2) by simp
    also have "map (lexeme s) ?tokens = map (lexeme s) tokens @ [(k, take n (drop i s))]"
      using mark_key_lexemes [of s tokens] k by (simp add: lexeme_def token_raw_def slice_units_def)
    also have "raw_lexemes (drop i s) = (k, take n (drop i s)) # raw_lexemes (drop (i + n) s)"
      using True l by (subst raw_lexemes.simps) (simp add: add.commute)
    ultimately show ?thesis by simp
  next
    case False
    then show ?thesis using "1.prems" by (subst tokenize_from.simps) simp
  qed
qed

lemma tokens_lexemes: "map (lexeme s) (tokenizeJson s) = raw_lexemes s"
  using tokenize_lexemes [of 0 s "[]"] by (simp add: tokenizeJson_def)

lemma concat_raw_lexemes: "concat (map snd (raw_lexemes s)) = s"
proof (induction s rule: raw_lexemes.induct)
  case (1 s)
  then show ?case by (subst raw_lexemes.simps) simp
qed

section \<open>Tiling\<close>

fun tiles :: "nat \<Rightarrow> token list \<Rightarrow> nat \<Rightarrow> bool" where
  "tiles i [] j = (i = j)"
| "tiles i (t # ts) j = (to_start t = i \<and> i < to_end t \<and> tiles (to_end t) ts j)"

lemma tiles_snoc: "tiles i (ts @ [t]) j \<longleftrightarrow> tiles i ts (to_start t) \<and> to_start t < to_end t \<and> to_end t = j"
  by (induction ts arbitrary: i) auto

lemma tiles_bound: "tiles i ts j \<Longrightarrow> t \<in> set ts \<Longrightarrow> to_start t < to_end t \<and> to_end t \<le> j"
proof (induction ts arbitrary: i)
  case (Cons u ts)
  have "i \<le> j" if "tiles i ts j" for i using that by (induction ts arbitrary: i) (auto intro: order.trans less_imp_le)
  then show ?case using Cons by auto
qed simp

lemma tiles_map: "map (\<lambda>t. (to_start t, to_end t)) ts = map (\<lambda>t. (to_start t, to_end t)) ts' \<Longrightarrow> tiles i ts j = tiles i ts' j"
proof (induction ts arbitrary: i ts')
  case (Cons t ts)
  obtain t' us where ts': "ts' = t' # us" "to_start t' = to_start t" "to_end t' = to_end t"
    "map (\<lambda>t. (to_start t, to_end t)) ts = map (\<lambda>t. (to_start t, to_end t)) us"
    using Cons.prems by (cases ts') simp_all
  from Cons.IH [OF ts'(4)] ts'(1-3) show ?case by simp
qed simp

lemma tokenize_tiles: "i \<le> length s \<Longrightarrow> tiles 0 tokens i \<Longrightarrow> tiles 0 (tokenize_from s i tokens) (length s)"
proof (induction s i tokens rule: tokenize_from.induct)
  case (1 s i tokens)
  show ?case
  proof (cases "i < length s")
    case True
    obtain k n where l: "lex (drop i s) = (k, n)" by fastforce
    have n: "0 < n" "i + n \<le> length s" using lex_bounds [of "drop i s"] True by (auto simp: l fits_def)
    let ?tokens = "(if s ! i = CH_COLON then mark_key tokens else tokens) @ [\<lparr>to_kind = k, to_start = i, to_end = i + n\<rparr>]"
    have "tiles 0 (mark_key tokens) i" using "1.prems"(2) tiles_map [OF mark_key_spans] by blast
    then have "tiles 0 ?tokens (i + n)" using "1.prems"(2) n(1) by (simp add: tiles_snoc)
    then have "tiles 0 (tokenize_from s (i + n) ?tokens) (length s)" using "1.IH" [OF True] l n(2) by simp
    then show ?thesis using True l by (subst tokenize_from.simps) simp
  next
    case False
    then show ?thesis using "1.prems" by (subst tokenize_from.simps) simp
  qed
qed

text \<open>The tokens tile the text. Whatever the input, the tokens are non-empty, the first starts at
  the beginning, each starts where the one before ends, the last ends at the end, and so their
  texts put together are the input.\<close>

theorem tokens_tile:
  "tiles 0 (tokenizeJson s) (length s) \<and> concat (map (token_raw s) (tokenizeJson s)) = s"
proof -
  have "map (token_raw s) (tokenizeJson s) = map snd (map (lexeme s) (tokenizeJson s))" by (simp add: lexeme_def comp_def)
  then show ?thesis using tokenize_tiles [of 0 s "[]"] concat_raw_lexemes [of s] unfolding tokens_lexemes by (simp add: tokenizeJson_def)
qed


section \<open>Lines\<close>

text \<open>Splitting at line breaks, as \<open>split\<close> does.\<close>

fun split_lf :: "units \<Rightarrow> units list" where
  "split_lf [] = [[]]"
| "split_lf (c # s) = (if c = CH_LF then [] # split_lf s else (case split_lf s of [] \<Rightarrow> [[c]] | l # ls \<Rightarrow> (c # l) # ls))"

lemma split_lf_nonempty [simp]: "split_lf s \<noteq> []"
  by (induction s) (auto split: list.split)

lemma split_lf_append: "split_lf (a @ b) = butlast (split_lf a) @ (last (split_lf a) @ hd (split_lf b)) # tl (split_lf b)"
proof (induction a)
  case (Cons c a)
  then show ?case by (cases "split_lf a") (auto simp: neq_Nil_conv split: list.split)
qed (cases "split_lf b", auto)

lemma split_lf_line: "CH_LF \<notin> set w \<Longrightarrow> split_lf w = [w]"
  by (induction w) auto

lemma length_split_lf: "length (split_lf s) = lineCount s"
proof (induction s)
  case (Cons c s)
  then show ?case using split_lf_nonempty [of s] by (cases "split_lf s") (auto simp: lineCount_def)
qed (simp add: lineCount_def)

lemma takeWhile_no_lf: "\<not> P CH_LF \<Longrightarrow> CH_LF \<notin> set (takeWhile P s)"
  by (auto dest: set_takeWhileD)

lemma digits_no_lf: "CH_LF \<notin> set (take (digits_len s) s)"
  using takeWhile_no_lf [of digit_unit s] by (simp add: digits_len_def digit_unit_def flip: takeWhile_eq_take)

lemma take_add_no_lf: "CH_LF \<notin> set (take m s) \<Longrightarrow> CH_LF \<notin> set (take n (drop m s)) \<Longrightarrow> CH_LF \<notin> set (take (m + n) s)"
  by (simp add: take_add)

lemma int_no_lf: "int_len s = Some i \<Longrightarrow> CH_LF \<notin> set (take i s)"
  using digits_no_lf [of "tl s"] by (cases s) (auto simp: int_len_def digit_unit_def split: if_splits)

lemma frac_no_lf: "CH_LF \<notin> set (take (frac_len s) s)"
  using digits_no_lf [of "tl s"] by (cases s) (auto simp: frac_len_def)

lemma exp_no_lf: "CH_LF \<notin> set (take (exp_len s) s)"
proof (cases s)
  case (Cons c s')
  have "CH_LF \<notin> set (take (sign_len s') s')" by (cases s') (auto simp: sign_len_def)
  from take_add_no_lf [OF this digits_no_lf] Cons show ?thesis by (auto simp: exp_len_def)
qed simp

lemma number_no_lf: "match_number s = Some k \<Longrightarrow> CH_LF \<notin> set (take k s)"
proof (elim match_number_Some)
  fix m j
  assume m: "m = minus_len s" "int_len (drop m s) = Some j"
    "k = m + j + frac_len (drop (m + j) s) + exp_len (drop (m + j + frac_len (drop (m + j) s)) s)"
  have "CH_LF \<notin> set (take m s)" using m(1) by (cases s) (auto simp: minus_len_def)
  from take_add_no_lf [OF take_add_no_lf [OF take_add_no_lf [OF this int_no_lf [OF m(2)]]]]
  show ?thesis unfolding m(3) using frac_no_lf exp_no_lf by blast
qed

lemma scan_no_lf: "CH_LF \<notin> set (take (fst (scan_string s v)) s)"
proof (induction s v rule: scan_string.induct)
  case (2 d s v)
  show ?case
  proof (cases "d = CH_BACKSLASH")
    case True
    then show ?thesis using 2 by (cases s) (auto split: prod.split)
  next
    case False
    then show ?thesis using "2.IH"(3) [OF False refl] by (auto simp: Let_def split: prod.split)
  qed
qed simp

lemma lex_no_lf: "s \<noteq> [] \<Longrightarrow> hd s \<noteq> CH_LF \<Longrightarrow> CH_LF \<notin> set (take (snd (lex s)) s)"
proof -
  assume s: "s \<noteq> []" "hd s \<noteq> CH_LF"
  have run: "CH_LF \<notin> set (take (1 + length (takeWhile P (tl s))) s)" if "\<not> P CH_LF" for P
    using s takeWhile_no_lf [of P "tl s"] that by (cases s) (auto simp flip: takeWhile_eq_take)
  have w: "CH_LF \<notin> set (take (snd (lex_word s)) s)" using run [of "\<lambda>c. \<not> isStop (Some c)"] by (simp add: lex_word_def isStop_def)
  have n: "CH_LF \<notin> set (take (snd (case match_number s of None \<Rightarrow> lex_word s
      | Some k \<Rightarrow> if isStop (charCodeAt s k) then (NumberTok, k) else lex_word s)) s)"
    using w number_no_lf [of s] by (simp split: option.split)
  have q: "CH_LF \<notin> set (take (snd (case scan_string (tl s) True of (k, terminated, valid) \<Rightarrow>
      (if terminated \<and> valid then StringTok else ErrorTok, min (1 + k) (length s)))) s)"
    using s scan_no_lf [of "tl s" True] by (cases s) (auto simp: min_def split: prod.splits if_splits)
  have t: "CH_LF \<notin> set (take (length v) s)" if "starts_word v s" "CH_LF \<notin> set (lit v)" for v
    using that by (simp add: starts_word_def)
  have "CH_LF \<notin> set (take 4 s)" if "starts_word ''true'' s \<or> starts_word ''null'' s"
    using t [of "''true''"] t [of "''null''"] that by (auto simp: lit_def eval_nat_numeral)
  moreover have "CH_LF \<notin> set (take 5 s)" if "starts_word ''false'' s" using t [OF that] by (auto simp: lit_def eval_nat_numeral)
  moreover have "CH_LF \<notin> set (take 1 s)" using s by (cases s) auto
  ultimately show ?thesis unfolding lex_def Let_def using s(2) w n q run [of isHorizontalWs] by (simp add: isHorizontalWs_def)
qed


text \<open>A lexeme is a line break or holds none.\<close>

lemma lexeme_lines: "(k, w) \<in> set (raw_lexemes s) \<Longrightarrow> (k, w) = (WsTok, [CH_LF]) \<or> CH_LF \<notin> set w"
proof (induction s rule: raw_lexemes.induct)
  case (1 s)
  show ?case
  proof (cases "s = []")
    case False
    from "1.prems" have "(k, w) = (fst (lex s), take (snd (lex s)) s) \<or> (k, w) \<in> set (raw_lexemes (drop (snd (lex s)) s))"
      using False by (subst (asm) raw_lexemes.simps) simp
    then show ?thesis
    proof
      assume "(k, w) = (fst (lex s), take (snd (lex s)) s)"
      moreover have "lex s = (WsTok, 1) \<and> take 1 s = [CH_LF]" if "hd s = CH_LF" using that False by (cases s) (auto simp: lex_def)
      ultimately show ?thesis using lex_no_lf [OF False] by (cases "hd s = CH_LF") auto
    qed (use "1.IH" [OF False] in blast)
  qed (use "1.prems" in simp)
qed

definition breaks_line :: "units \<Rightarrow> token \<Rightarrow> bool" where
  "breaks_line s t \<longleftrightarrow> to_kind t = WsTok \<and> to_end t - to_start t = 1 \<and> charCodeAt s (to_start t) = Some CH_LF"

lemma breaks_line_raw:
  assumes "t \<in> set (tokenizeJson s)"
  shows "if breaks_line s t then token_raw s t = [CH_LF] else CH_LF \<notin> set (token_raw s t)"
proof -
  have "lexeme s t = (WsTok, [CH_LF]) \<or> CH_LF \<notin> set (token_raw s t)"
    using lexeme_lines assms unfolding tokens_lexemes [symmetric] lexeme_def by force
  moreover have "token_raw s t = [CH_LF]" if "breaks_line s t"
    using that by (auto simp: breaks_line_def charCodeAt_def token_raw_def slice_units_def take_Suc_conv_app_nth Cons_nth_drop_Suc [symmetric] split: if_splits)
  moreover have "breaks_line s t" if "lexeme s t = (WsTok, [CH_LF])"
  proof -
    have raw: "take (to_end t - to_start t) (drop (to_start t) s) = [CH_LF]" "to_kind t = WsTok"
      using that by (auto simp: lexeme_def token_raw_def slice_units_def unmark_def split: if_splits)
    have b: "to_start t < to_end t" "to_end t \<le> length s"
      using tiles_bound [OF tokenize_tiles [of 0 s "[]"]] assms by (auto simp: tokenizeJson_def)
    then have n: "to_end t - to_start t = 1" using arg_cong [OF raw(1), of length] by simp
    then have "s ! to_start t = CH_LF" using raw(1) b by (simp add: Cons_nth_drop_Suc [symmetric])
    then show ?thesis using n raw(2) b by (simp add: breaks_line_def charCodeAt_def)
  qed
  ultimately show ?thesis by auto
qed


text \<open>The highlighter's lines are the text's lines. The tokens of the \<open>n\<close>-th group that
  \<open>splitLines\<close> makes, put together, are the \<open>n\<close>-th line of the text; their number is \<open>lineCount\<close>.\<close>

theorem split_lines_exact:
  "map (\<lambda>l. concat (map (token_raw s) l)) (splitLines s (tokenizeJson s)) = split_lf s \<and>
   length (splitLines s (tokenizeJson s)) = lineCount s"
proof -
  let ?f = "\<lambda>token lines. if breaks_line s token then lines @ [[]] else butlast lines @ [last lines @ [token]]"
  let ?r = "\<lambda>l. concat (map (token_raw s) l)"
  have step: "map ?r (fold ?f ts [[]]) = split_lf (concat (map (token_raw s) ts)) \<and> fold ?f ts [[]] \<noteq> []"
    if "set ts \<subseteq> set (tokenizeJson s)" for ts
    using that
  proof (induction ts rule: rev_induct)
    case (snoc t ts)
    let ?L = "fold ?f ts [[]]" and ?p = "concat (map (token_raw s) ts)"
    have ih: "map ?r ?L = split_lf ?p" "?L \<noteq> []" using snoc by auto
    have b: "if breaks_line s t then token_raw s t = [CH_LF] else CH_LF \<notin> set (token_raw s t)"
      using snoc.prems by (intro breaks_line_raw) simp
    show ?case
    proof (cases "breaks_line s t")
      case True
      then show ?thesis using b ih split_lf_append [of ?p "[CH_LF]"] by simp
    next
      case False
      then have w: "split_lf (token_raw s t) = [token_raw s t]" using b split_lf_line by simp
      have "map ?r (butlast ?L @ [last ?L @ [t]]) = butlast (map ?r ?L) @ [last (map ?r ?L) @ token_raw s t]"
        using ih(2) by (simp add: map_butlast last_map)
      then show ?thesis using False ih split_lf_append [of ?p "token_raw s t"] w by simp
    qed
  qed simp
  have "splitLines s (tokenizeJson s) = fold ?f (tokenizeJson s) [[]]" by (simp add: splitLines_def breaks_line_def)
  moreover have "concat (map (token_raw s) (tokenizeJson s)) = s" using concat_raw_lexemes [of s]
    by (simp add: tokens_lexemes [symmetric] lexeme_def comp_def)
  ultimately have e: "map ?r (splitLines s (tokenizeJson s)) = split_lf s" using step [of "tokenizeJson s"] by simp
  then show ?thesis using length_split_lf [of s] by (metis length_map)
qed


section \<open>The grammar\<close>

text \<open>
  JSON documents as sequences of symbols: a punctuation mark, a string, or another scalar. This is the
  reference the checker is compared with.
\<close>

datatype sym = Mark nat | Str | Scalar

inductive json_value :: "sym list \<Rightarrow> bool" and json_elements :: "sym list \<Rightarrow> bool" and json_members :: "sym list \<Rightarrow> bool" where
  str: "json_value [Str]"
| scalar: "json_value [Scalar]"
| empty_array: "json_value [Mark CH_LBRACKET, Mark CH_RBRACKET]"
| array: "json_elements e \<Longrightarrow> json_value (Mark CH_LBRACKET # e @ [Mark CH_RBRACKET])"
| empty_object: "json_value [Mark CH_LBRACE, Mark CH_RBRACE]"
| object: "json_members m \<Longrightarrow> json_value (Mark CH_LBRACE # m @ [Mark CH_RBRACE])"
| element: "json_value v \<Longrightarrow> json_elements v"
| elements: "json_elements e \<Longrightarrow> json_value v \<Longrightarrow> json_elements (e @ Mark CH_COMMA # v)"
| member: "json_value v \<Longrightarrow> json_members (Str # Mark CH_COLON # v)"
| members: "json_members m \<Longrightarrow> json_value v \<Longrightarrow> json_members (m @ Mark CH_COMMA # Str # Mark CH_COLON # v)"

text \<open>The checker on symbols: the next state, or \<open>None\<close> where it reports a problem.\<close>

fun sym_step :: "sym \<Rightarrow> check_state \<Rightarrow> check_state option" where
  "sym_step x (st, ExpectEnd, f) = None"
| "sym_step x (st, ExpectValue, f) = (case x of
      Mark c \<Rightarrow> if c = CH_LBRACE then Some (JObject # st, ExpectKey, False)
        else if c = CH_LBRACKET then Some (JArray # st, ExpectValue, False)
        else if c = CH_RBRACKET \<and> stack_top st = Some JArray \<and> \<not> f then Some (tl st, afterValue (tl st), False)
        else None
    | _ \<Rightarrow> Some (st, afterValue st, False))"
| "sym_step x (st, ExpectKey, f) = (case x of
      Mark c \<Rightarrow> if c = CH_RBRACE \<and> \<not> f then Some (tl st, afterValue (tl st), False) else None
    | Str \<Rightarrow> Some (st, ExpectColon, False) | Scalar \<Rightarrow> None)"
| "sym_step x (st, ExpectColon, f) = (if x = Mark CH_COLON then Some (st, ExpectValue, f) else None)"
| "sym_step x (st, ExpectMore, f) =
     (if x = Mark CH_COMMA then Some (st, if stack_top st = Some JObject then ExpectKey else ExpectValue, True)
      else if x = Mark CH_RBRACE \<and> stack_top st = Some JObject \<or> x = Mark CH_RBRACKET \<and> stack_top st = Some JArray
        then Some (tl st, afterValue (tl st), f) else None)"

fun sym_run :: "sym list \<Rightarrow> check_state \<Rightarrow> check_state option" where
  "sym_run [] s = Some s"
| "sym_run (x # xs) s = (case sym_step x s of None \<Rightarrow> None | Some s' \<Rightarrow> sym_run xs s')"

lemma sym_run_append: "sym_run (xs @ ys) s = (case sym_run xs s of None \<Rightarrow> None | Some s' \<Rightarrow> sym_run ys s')"
  by (induction xs arbitrary: s) (auto split: option.split)

lemma stack_top_Cons [simp]: "stack_top (x # st) = Some x"
  by (simp add: stack_top_def)

lemma afterValue_Cons [simp]: "afterValue (x # st) = ExpectMore"
  by (simp add: afterValue_def)

text \<open>Completeness: a value takes the checker past it.\<close>

lemma grammar_accepted:
  "json_value v \<Longrightarrow> sym_run v (st, ExpectValue, f) = Some (st, afterValue st, False)"
  "json_elements e \<Longrightarrow> sym_run e (JArray # st, ExpectValue, f) = Some (JArray # st, ExpectMore, False)"
  "json_members m \<Longrightarrow> sym_run m (JObject # st, ExpectKey, f) = Some (JObject # st, ExpectMore, False)"
  by (induction arbitrary: st f and st f and st f rule: json_value_json_elements_json_members.inducts)
    (simp_all add: sym_run_append)

text \<open>Soundness: what may still follow in each state. \<open>closes st\<close> closes the open containers.\<close>

inductive closes :: "json_container list \<Rightarrow> sym list \<Rightarrow> bool" where
  nothing_open: "closes [] []"
| close_array: "closes st r \<Longrightarrow> closes (JArray # st) (Mark CH_RBRACKET # r)"
| close_object: "closes st r \<Longrightarrow> closes (JObject # st) (Mark CH_RBRACE # r)"
| more_array: "json_value v \<Longrightarrow> closes (JArray # st) r \<Longrightarrow> closes (JArray # st) (Mark CH_COMMA # v @ r)"
| more_object: "json_value v \<Longrightarrow> closes (JObject # st) r \<Longrightarrow> closes (JObject # st) (Mark CH_COMMA # Str # Mark CH_COLON # v @ r)"

lemma closes_array: "closes (JArray # st) r \<Longrightarrow> json_elements e \<Longrightarrow>
   \<exists>e' r'. e @ r = e' @ Mark CH_RBRACKET # r' \<and> json_elements e' \<and> closes st r'"
proof (induction "JArray # st" r arbitrary: e rule: closes.induct)
  case (more_array v r)
  from more_array(3) [OF elements [OF more_array(4,1)]] show ?case by simp
qed blast

lemma closes_object: "closes (JObject # st) r \<Longrightarrow> json_members m \<Longrightarrow>
   \<exists>m' r'. m @ r = m' @ Mark CH_RBRACE # r' \<and> json_members m' \<and> closes st r'"
proof (induction "JObject # st" r arbitrary: m rule: closes.induct)
  case (more_object v r)
  from more_object(3) [OF members [OF more_object(4,1)]] show ?case by simp
qed blast

definition value_then :: "json_container list \<Rightarrow> sym list \<Rightarrow> bool" where
  "value_then st xs \<longleftrightarrow> (\<exists>v r. xs = v @ r \<and> json_value v \<and> closes st r)"

fun may_follow :: "check_state \<Rightarrow> sym list \<Rightarrow> bool" where
  "may_follow (st, ExpectEnd, f) xs = (st = [] \<longrightarrow> xs = [])"
| "may_follow (st, ExpectMore, f) xs = closes st xs"
| "may_follow (st, ExpectValue, f) xs = (value_then st xs \<or> (\<not> f \<and> (\<exists>st' r. st = JArray # st' \<and> xs = Mark CH_RBRACKET # r \<and> closes st' r)))"
| "may_follow (st, ExpectColon, f) xs = (\<exists>ys. xs = Mark CH_COLON # ys \<and> value_then st ys)"
| "may_follow (st, ExpectKey, f) xs = ((\<exists>ys. xs = Str # Mark CH_COLON # ys \<and> value_then st ys) \<or>
     (\<not> f \<and> (\<exists>r. xs = Mark CH_RBRACE # r \<and> closes (tl st) r)))"


fun ok_state :: "check_state \<Rightarrow> bool" where
  "ok_state (st, ExpectEnd, f) = (st = [])"
| "ok_state (st, ExpectMore, f) = (st \<noteq> [])"
| "ok_state (st, ExpectValue, f) = True"
| "ok_state (st, _, f) = (stack_top st = Some JObject)"

lemma stack_top_eq: "stack_top st = Some x \<longleftrightarrow> (\<exists>st'. st = x # st')"
  by (cases st) (auto simp: stack_top_def)

lemma after_value [simp]: "ok_state (st, afterValue st, f)" "may_follow (st, afterValue st, f) xs \<longleftrightarrow> closes st xs"
  by (cases st; auto simp: afterValue_def intro: closes.intros elim: closes.cases)+

lemma value_then_array: "value_then (JArray # st) xs \<Longrightarrow> value_then st (Mark CH_LBRACKET # xs)"
proof -
  assume "value_then (JArray # st) xs"
  then obtain v r where v: "xs = v @ r" "json_value v" "closes (JArray # st) r" by (auto simp: value_then_def)
  obtain e r' where "v @ r = e @ Mark CH_RBRACKET # r'" "json_elements e" "closes st r'"
    using closes_array [OF v(3) element [OF v(2)]] by blast
  then show ?thesis using array v(1) unfolding value_then_def by (metis append.assoc append_Cons append_Nil)
qed

lemma value_then_object: "value_then (JObject # st) xs \<Longrightarrow> value_then st (Mark CH_LBRACE # Str # Mark CH_COLON # xs)"
proof -
  assume "value_then (JObject # st) xs"
  then obtain v r where v: "xs = v @ r" "json_value v" "closes (JObject # st) r" by (auto simp: value_then_def)
  obtain m r' where "(Str # Mark CH_COLON # v) @ r = m @ Mark CH_RBRACE # r'" "json_members m" "closes st r'"
    using closes_object [OF v(3) member [OF v(2)]] by blast
  then show ?thesis using object v(1) unfolding value_then_def by (metis append.assoc append_Cons append_Nil)
qed

lemma value_then_single: "json_value v \<Longrightarrow> closes st xs \<Longrightarrow> value_then st (v @ xs)"
  by (auto simp: value_then_def)

lemma value_then_more:
  "value_then (JArray # st) xs \<Longrightarrow> closes (JArray # st) (Mark CH_COMMA # xs)"
  "value_then (JObject # st) xs \<Longrightarrow> closes (JObject # st) (Mark CH_COMMA # Str # Mark CH_COLON # xs)"
  by (auto simp: value_then_def intro: more_array more_object)

lemma sym_step_ok: "sym_step x s = Some s' \<Longrightarrow> ok_state s \<Longrightarrow> ok_state s'"
  by (cases "(x, s)" rule: sym_step.cases) (auto simp: stack_top_eq split: sym.splits if_splits)

lemma sym_step_follow:
  assumes "sym_step x s = Some s'" "ok_state s" "may_follow s' xs"
  shows "may_follow s (x # xs)"
proof (cases "(x, s)" rule: sym_step.cases)
  case (2 y st f)
  then show ?thesis
    using assms value_then_single [OF str, of st xs] value_then_single [OF scalar, of st xs]
      value_then_single [OF empty_array, of st] value_then_single [OF empty_object, of st]
    by (auto simp: stack_top_eq intro: value_then_array value_then_object split: sym.splits if_splits)
next
  case (3 y st f)
  then show ?thesis using assms by (auto simp: stack_top_eq split: sym.splits if_splits)
next
  case (5 y st f)
  then show ?thesis using assms
    by (cases st; cases "hd st") (auto simp: stack_top_eq intro: closes.intros value_then_more split: if_splits)
qed (use assms in \<open>auto split: if_splits\<close>)

lemma sym_run_sound:
  "sym_run xs s = Some (st, ExpectEnd, f) \<Longrightarrow> ok_state s \<Longrightarrow> may_follow s xs \<and> st = []"
proof (induction xs arbitrary: s)
  case Nil
  then show ?case by simp
next
  case (Cons x xs)
  then obtain s' where "sym_step x s = Some s'" "sym_run xs s' = Some (st, ExpectEnd, f)" by (auto split: option.splits)
  then show ?case using Cons.IH Cons.prems(2) sym_step_ok sym_step_follow by blast
qed

lemma sym_run_grammar:
  "(\<exists>st f. sym_run xs ([], ExpectValue, False) = Some (st, ExpectEnd, f)) \<longleftrightarrow> json_value xs"
proof
  assume "json_value xs"
  from grammar_accepted(1) [OF this, of "[]" False] have "sym_run xs ([], ExpectValue, False) = Some ([], ExpectEnd, False)"
    by (simp add: afterValue_def)
  then show "\<exists>st f. sym_run xs ([], ExpectValue, False) = Some (st, ExpectEnd, f)" by blast
next
  assume "\<exists>st f. sym_run xs ([], ExpectValue, False) = Some (st, ExpectEnd, f)"
  then have "may_follow ([], ExpectValue, False) xs" using sym_run_sound by fastforce
  then show "json_value xs" by (auto simp: value_then_def elim: closes.cases)
qed


section \<open>The checker accepts the grammar\<close>

definition solid :: "token \<Rightarrow> bool" where
  "solid t \<longleftrightarrow> to_kind t \<noteq> WsTok"

definition sym_of :: "units \<Rightarrow> token \<Rightarrow> sym" where
  "sym_of s t = (if to_kind t = PunctTok then Mark (s ! to_start t)
     else if to_kind t = StringTok \<or> to_kind t = KeyTok then Str else Scalar)"

lemma check_token_sym:
  "solid t \<Longrightarrow> check_token s t st = Inr st' \<longleftrightarrow> to_kind t \<noteq> ErrorTok \<and> sym_step (sym_of s t) st = Some st'"
  by (cases "(sym_of s t, st)" rule: sym_step.cases)
    (auto simp: check_token_def Let_def sym_of_def solid_def split: if_splits token_kind.splits sym.splits)

lemma check_tokens_sym:
  "check_tokens s ts st = Inr st' \<longleftrightarrow> (\<forall>t \<in> set ts. to_kind t \<noteq> ErrorTok) \<and> sym_run (map (sym_of s) (filter solid ts)) st = Some st'"
proof (induction ts arbitrary: st)
  case (Cons t ts)
  show ?case
  proof (cases "solid t")
    case True
    then have "check_tokens s (t # ts) st = Inr st' \<longleftrightarrow> (\<exists>st1. check_token s t st = Inr st1 \<and> check_tokens s ts st1 = Inr st')"
      by (auto simp: solid_def split: sum.split)
    also have "\<dots> \<longleftrightarrow> to_kind t \<noteq> ErrorTok \<and> (\<forall>t \<in> set ts. to_kind t \<noteq> ErrorTok) \<and>
        (\<exists>st1. sym_step (sym_of s t) st = Some st1 \<and> sym_run (map (sym_of s) (filter solid ts)) st1 = Some st')"
      unfolding check_token_sym [OF True] Cons by blast
    finally show ?thesis using True by (auto split: option.split)
  qed (use Cons in \<open>auto simp: solid_def\<close>)
qed simp

text \<open>C37: the checker accepts exactly JSON. \<open>checkJson\<close> reports no problem exactly when no token is
  in error and the tokens that are no whitespace form one JSON value of the grammar.\<close>

theorem check_json_grammar:
  "checkJson s = None \<longleftrightarrow> list_all (\<lambda>t. to_kind t \<noteq> ErrorTok) (tokenizeJson s) \<and>
     json_value (map (sym_of s) (filter solid (tokenizeJson s)))"
proof -
  let ?xs = "map (sym_of s) (filter solid (tokenizeJson s))"
  have "checkJson s = None \<longleftrightarrow> (\<exists>st f. check_tokens s (tokenizeJson s) ([], ExpectValue, False) = Inr (st, ExpectEnd, f))"
    by (auto simp: checkJson_def split: sum.split)
  also have "\<dots> \<longleftrightarrow> (\<forall>t \<in> set (tokenizeJson s). to_kind t \<noteq> ErrorTok) \<and> (\<exists>st f. sym_run ?xs ([], ExpectValue, False) = Some (st, ExpectEnd, f))"
    unfolding check_tokens_sym by blast
  finally show ?thesis unfolding sym_run_grammar list_all_iff .
qed

end
