(* ===== verification/Json_Format.thy ===== *)
theory Json_Format
  imports Json_Text_Correct
begin

text \<open>
  The formatters of \<^verbatim>\<open>frontend/lib/json-text.ts\<close> only touch whitespace. A lexeme is lexed the
  same whatever follows it, as long as a bare word or number is followed by a delimiter; in a document
  the checker accepts, two scalars are never adjacent. So the text a formatter emits has the lexemes of
  its input, and formatting the result again is formatting the input.
\<close>

section \<open>Lexemes do not depend on what follows\<close>

definition stops :: "units \<Rightarrow> bool" where
  "stops rest \<longleftrightarrow> isStop (charCodeAt rest 0)"

lemma stops_Nil [simp]: "stops []"
  by (simp add: stops_def charCodeAt_def isStop_def)

lemma stops_Cons: "stops (c # rest) \<longleftrightarrow> c = CH_LF \<or> isHorizontalWs c \<or> c = CH_QUOTE \<or> isPunct c"
  by (simp add: stops_def charCodeAt_def isStop_def)

lemma digits_len_take: "rest = [] \<or> \<not> digit_unit (hd rest) \<Longrightarrow> digits_len (take (digits_len s) s @ rest) = digits_len s"
proof -
  assume a: "rest = [] \<or> \<not> digit_unit (hd rest)"
  have t: "take (digits_len s) s = takeWhile digit_unit s" by (simp add: digits_len_def flip: takeWhile_eq_take)
  have "takeWhile digit_unit (takeWhile digit_unit s @ rest) = takeWhile digit_unit s @ takeWhile digit_unit rest"
    by (rule takeWhile_append2) (auto dest: set_takeWhileD)
  moreover have "takeWhile digit_unit rest = []" using a by (cases rest) auto
  ultimately show ?thesis unfolding t by (simp add: digits_len_def)
qed

lemma stop_units: "stops rest \<Longrightarrow> rest \<noteq> [] \<Longrightarrow> \<not> digit_unit (hd rest) \<and> hd rest \<noteq> 46 \<and> hd rest \<noteq> 101 \<and> hd rest \<noteq> 69"
  by (cases rest) (auto simp: stops_Cons isHorizontalWs_def isPunct_def digit_unit_def)

lemma exp_len_take:
  assumes "stops rest"
  shows "exp_len (take (exp_len s) s @ rest) = exp_len s"
proof (cases "exp_len s = 0")
  case True
  then show ?thesis using stop_units [OF assms] by (cases rest) (auto simp: exp_len_def)
next
  case False
  then obtain c s' where s: "s = c # s'" by (cases s) (auto simp: exp_len_def)
  let ?g = "sign_len s'" and ?d = "digits_len (drop (sign_len s') s')"
  have c: "c = 101 \<or> c = 69" "0 < ?d" "exp_len s = 1 + ?g + ?d" using False s by (auto simp: exp_len_def split: if_splits)
  have t: "take (exp_len s) s = c # take ?g s' @ take ?d (drop ?g s')" using s c(3) by (simp add: take_add)
  have "drop ?g s' \<noteq> []" using c(2) by (auto simp: digits_len_def)
  then have g: "sign_len (take ?g s' @ take ?d (drop ?g s') @ rest) = ?g"
    using c(2) by (cases s'; cases "drop ?g s'") (auto simp: sign_len_def digits_len_def digit_unit_def split: if_splits)
  have len: "length (take ?g s') = ?g" using sign_len_le [of s'] by simp
  have "digits_len (take ?d (drop ?g s') @ rest) = ?d" using stop_units [OF assms] by (intro digits_len_take) auto
  then show ?thesis using c g len unfolding t by (simp add: exp_len_def)
qed

lemma frac_len_take:
  assumes "X = [] \<or> \<not> digit_unit (hd X) \<and> hd X \<noteq> 46"
  shows "frac_len (take (frac_len s) s @ X) = frac_len s"
proof (cases "frac_len s = 0")
  case True
  then show ?thesis using assms by (cases X) (auto simp: frac_len_def)
next
  case False
  then obtain s' where s: "s = 46 # s'" "frac_len s = 1 + digits_len s'" "0 < digits_len s'"
    by (cases s) (auto simp: frac_len_def split: if_splits)
  have "digits_len (take (digits_len s') s' @ X) = digits_len s'" using assms by (intro digits_len_take) auto
  then show ?thesis using s by (simp add: frac_len_def)
qed

lemma int_len_take:
  assumes "int_len s = Some i" "Y = [] \<or> \<not> digit_unit (hd Y)"
  shows "int_len (take i s @ Y) = Some i"
  using assms(1) digits_len_take [OF assms(2), of "tl s"] by (cases s) (auto simp: int_len_def split: if_splits)

lemma exp_tail:
  assumes "stops rest"
  shows "take (exp_len u) u @ rest = [] \<or> \<not> digit_unit (hd (take (exp_len u) u @ rest)) \<and> hd (take (exp_len u) u @ rest) \<noteq> 46"
proof (cases "exp_len u = 0")
  case False
  then obtain c u' k where "u = c # u'" "c = 101 \<or> c = 69" "exp_len u = Suc k" by (cases u) (auto simp: exp_len_def split: if_splits)
  then show ?thesis by (auto simp: digit_unit_def)
qed (use stop_units [OF assms] in auto)

lemma frac_tail:
  assumes "X = [] \<or> \<not> digit_unit (hd X) \<and> hd X \<noteq> 46"
  shows "take (frac_len u) u @ X = [] \<or> \<not> digit_unit (hd (take (frac_len u) u @ X))"
proof (cases "frac_len u = 0")
  case False
  then obtain u' k where "u = 46 # u'" "frac_len u = Suc k" by (cases u) (auto simp: frac_len_def split: if_splits)
  then show ?thesis by (simp add: digit_unit_def)
qed (use assms in auto)

lemma match_number_take:
  assumes "match_number s = Some n" "stops rest"
  shows "match_number (take n s @ rest) = Some n"
proof -
  obtain m j where m: "m = minus_len s" "int_len (drop m s) = Some j"
    "n = m + j + frac_len (drop (m + j) s) + exp_len (drop (m + j + frac_len (drop (m + j) s)) s)"
    by (rule match_number_Some [OF assms(1)])
  define f where "f = frac_len (drop (m + j) s)"
  define e where "e = exp_len (drop (m + j + f) s)"
  let ?X = "take e (drop (m + j + f) s) @ rest"
  let ?Y = "take f (drop (m + j) s) @ ?X"
  let ?Z = "take j (drop m s) @ ?Y"
  have n: "n = m + j + f + e" using m(3) by (simp add: f_def e_def)
  have le: "m \<le> length s" "j \<le> length s - m" "0 < j" "f \<le> length s - (m + j)"
    using int_len_bounds [OF m(2)] frac_len_le [of "drop (m + j) s"] by (auto simp: f_def)
  have t: "take n s @ rest = take m s @ ?Z"
    unfolding n take_add by (simp add: add.assoc)
  have X: "?X = [] \<or> \<not> digit_unit (hd ?X) \<and> hd ?X \<noteq> 46" unfolding e_def by (rule exp_tail [OF assms(2)])
  have Y: "?Y = [] \<or> \<not> digit_unit (hd ?Y)" unfolding f_def by (rule frac_tail) (use X in \<open>simp add: f_def\<close>)
  have "minus_len (take m s @ ?Z) = m"
    using le(2,3) m(1,2) by (cases s) (auto simp: minus_len_def int_len_def split: list.splits if_splits)
  moreover have "int_len ?Z = Some j" by (rule int_len_take [OF m(2) Y])
  moreover have "frac_len ?Y = f" unfolding f_def by (rule frac_len_take) (use X in \<open>simp add: f_def\<close>)
  moreover have "exp_len ?X = e" unfolding e_def by (rule exp_len_take [OF assms(2)])
  moreover have "drop m (take m s @ ?Z) = ?Z" "drop (m + j) (take m s @ ?Z) = ?Y" "drop (m + j + f) (take m s @ ?Z) = ?X"
    using le by (simp_all add: add.commute [of m] add.assoc)
  ultimately show ?thesis unfolding t match_number_def Let_def by (simp add: n)
qed


text \<open>Strings: the closing quote ends the scan whatever follows.\<close>

lemma scan_hex: "hex_unit c \<Longrightarrow> scan_string (c # s) v = (case scan_string s v of (k, r) \<Rightarrow> (1 + k, r))"
  by (auto simp: hex_unit_def digit_unit_def)

lemma scan_valid: "scan_string s v = (k, True, True) \<Longrightarrow> v"
  by (induction s v arbitrary: k rule: scan_string.induct) (auto simp: Let_def split: if_splits prod.splits list.splits)

lemma escape_ok_take:
  assumes "escape_ok (e # s)" "scan_string s v = (k, True, True)"
  shows "escape_ok (e # take k s @ rest)"
proof (cases "e = 117")
  case True
  then have h: "length (take 4 s) = 4" "list_all hex_unit (take 4 s)" using assms(1) by (simp_all add: escape_ok_def)
  then obtain a b c d s' where s: "s = a # b # c # d # s'"
    by (cases s; cases "tl s"; cases "tl (tl s)"; cases "tl (tl (tl s))") auto
  then have "hex_unit a" "hex_unit b" "hex_unit c" "hex_unit d" using h(2) by simp_all
  then obtain k' where "k = 4 + k'" using assms(2) unfolding s by (auto simp del: scan_string.simps simp: scan_hex split: prod.splits)
  then show ?thesis using True h s by (simp add: escape_ok_def)
qed (use assms(1) in \<open>auto simp: escape_ok_def\<close>)

lemma scan_take:
  "scan_string s v = (k, True, True) \<Longrightarrow> k \<le> length s \<and> scan_string (take k s @ rest) True = (k, True, True)"
proof (induction s v arbitrary: k rule: scan_string.induct)
  case (2 d s v)
  have v: v by (rule scan_valid [OF "2.prems"])
  show ?case
  proof (cases "d = CH_BACKSLASH")
    case True
    then obtain e s' where s: "s = e # s'" using "2.prems" by (cases s) auto
    have e: "e \<noteq> CH_LF"
    proof
      assume "e = CH_LF"
      then show False using "2.prems" True s by (auto simp: Let_def split: prod.splits)
    qed
    obtain k' where k: "k = 2 + k'" "scan_string s' (v \<and> escape_ok s) = (k', True, True)"
      using "2.prems" True s e by (auto split: prod.splits)
    have ok: "escape_ok (e # s')" using scan_valid [OF k(2)] s by simp
    have ih: "k' \<le> length s'" "scan_string (take k' s' @ rest) True = (k', True, True)"
      using "2.IH"(2) [OF True s e k(2)] by simp_all
    have "escape_ok (e # take k' s' @ rest)" by (rule escape_ok_take [OF ok k(2)])
    then show ?thesis using True s e k(1) ih by simp
  next
    case False
    then have lf: "d \<noteq> CH_LF" using "2.prems" by (auto simp: Let_def)
    show ?thesis
    proof (cases "d = CH_QUOTE")
      case True
      then show ?thesis using "2.prems" False by (auto simp: Let_def)
    next
      case nq: False
      then obtain k' where k: "k = 1 + k'" "scan_string s (v \<and> CH_SPACE \<le> d) = (k', True, True)"
        using "2.prems" False lf by (auto simp: Let_def split: prod.splits)
      have "k' \<le> length s \<and> scan_string (take k' s @ rest) True = (k', True, True)"
        using "2.IH"(3) [OF False refl lf nq k(2)] .
      then show ?thesis using k scan_valid [OF k(2)] False lf nq by simp
    qed
  qed
qed simp

text \<open>Every lexeme that is no whitespace and no error is lexed again as itself.\<close>

definition needs_stop :: "token_kind \<Rightarrow> bool" where
  "needs_stop k \<longleftrightarrow> k = NumberTok \<or> k = BooleanTok \<or> k = NullTok"

definition relexes :: "token_kind \<times> units \<Rightarrow> bool" where
  "relexes l \<longleftrightarrow> snd l \<noteq> [] \<and> (fst l = PunctTok \<longrightarrow> (\<exists>c. snd l = [c] \<and> isPunct c)) \<and>
     (\<forall>rest. (needs_stop (fst l) \<longrightarrow> stops rest) \<longrightarrow> lex (snd l @ rest) = (fst l, length (snd l)))"

lemma lex_literal:
  assumes "stops rest"
  shows "lex (lit ''true'' @ rest) = (BooleanTok, 4)" "lex (lit ''null'' @ rest) = (NullTok, 4)" "lex (lit ''false'' @ rest) = (BooleanTok, 5)"
  using assms by (auto simp: lex_def Let_def lit_def starts_word_def stops_def charCodeAt_def isHorizontalWs_def isPunct_def digit_unit_def
      nth_append)

lemma starts_word_take: "starts_word w s \<Longrightarrow> take (length w) s = lit w"
  by (simp add: starts_word_def)

lemma lex_kinds:
  assumes "s \<noteq> []" "lex s = (k, n)" "k \<noteq> WsTok" "k \<noteq> ErrorTok"
  obtains (string) q where "k = StringTok" "hd s = CH_QUOTE" "scan_string (tl s) True = (q, True, True)" "n = min (1 + q) (length s)"
  | (punct) "k = PunctTok" "isPunct (hd s)" "n = 1"
  | (number) "k = NumberTok" "match_number s = Some n" "hd s = CH_MINUS \<or> digit_unit (hd s)"
  | (true) "k = BooleanTok" "starts_word ''true'' s" "n = 4"
  | (null) "k = NullTok" "starts_word ''null'' s" "n = 4"
  | (false) "k = BooleanTok" "starts_word ''false'' s" "n = 5"
  using assms that unfolding lex_def Let_def
  by (auto simp: lex_word_def split: if_splits prod.splits option.splits)


lemma relexes_string:
  assumes "s \<noteq> []" "hd s = CH_QUOTE" "scan_string (tl s) True = (q, True, True)"
  shows "relexes (StringTok, take (min (1 + q) (length s)) s)"
proof -
  obtain s' where s: "s = CH_QUOTE # s'" using assms(1,2) by (cases s) auto
  have q: "q \<le> length s'" "scan_string (take q s' @ rest) True = (q, True, True)" for rest
    using scan_take [of s' True q rest] assms(3) s by simp_all
  have t: "take (min (1 + q) (length s)) s = CH_QUOTE # take q s'" using s q(1) by (simp add: min_def)
  show ?thesis unfolding relexes_def t using q
    by (auto simp: needs_stop_def lex_def isHorizontalWs_def split: prod.split)
qed

lemma relexes_number:
  assumes "match_number s = Some n" "hd s = CH_MINUS \<or> digit_unit (hd s)"
  shows "relexes (NumberTok, take n s)"
proof -
  have n: "0 < n" "n \<le> length s" using match_number_bounds [OF assms(1)] by simp_all
  have "lex (take n s @ rest) = (NumberTok, n)" if "stops rest" for rest
  proof -
    have h: "hd (take n s @ rest) = hd s" using n by (cases s; cases n) auto
    have "charCodeAt (take n s @ rest) n = charCodeAt rest 0" using n by (simp add: charCodeAt_def nth_append)
    then show ?thesis unfolding lex_def Let_def h
      using match_number_take [OF assms(1) that] assms(2) that
      by (auto simp: stops_def isHorizontalWs_def isPunct_def digit_unit_def)
  qed
  then show ?thesis using n by (auto simp: relexes_def needs_stop_def)
qed

lemma lex_relexes:
  assumes "s \<noteq> []" "lex s = (k, n)" "k \<noteq> WsTok" "k \<noteq> ErrorTok"
  shows "relexes (k, take n s)"
  using assms
proof (cases rule: lex_kinds)
  case (string q)
  then show ?thesis using relexes_string [OF assms(1)] by simp
next
  case punct
  then have "take n s = [hd s]" using assms(1) by (cases s) auto
  then show ?thesis using punct by (auto simp: relexes_def needs_stop_def lex_def isPunct_def isHorizontalWs_def)
next
  case number
  then show ?thesis using relexes_number by simp
next
  case true
  then have "take n s = lit ''true''" using starts_word_take [of "''true''" s] by (simp add: eval_nat_numeral)
  then show ?thesis using true lex_literal by (auto simp: relexes_def needs_stop_def lit_def)
next
  case null
  then have "take n s = lit ''null''" using starts_word_take [of "''null''" s] by (simp add: eval_nat_numeral)
  then show ?thesis using null lex_literal by (auto simp: relexes_def needs_stop_def lit_def)
next
  case false
  then have "take n s = lit ''false''" using starts_word_take [of "''false''" s] by (simp add: eval_nat_numeral)
  then show ?thesis using false lex_literal by (auto simp: relexes_def needs_stop_def lit_def)
qed

section \<open>The lexemes of a text\<close>

definition solids :: "units \<Rightarrow> (token_kind \<times> units) list" where
  "solids s = filter (\<lambda>l. fst l \<noteq> WsTok) (raw_lexemes s)"

lemma solids_Nil [simp]: "solids [] = []"
  by (simp add: solids_def)

lemma raw_relexes: "l \<in> set (raw_lexemes s) \<Longrightarrow> fst l \<noteq> WsTok \<Longrightarrow> fst l \<noteq> ErrorTok \<Longrightarrow> relexes l"
proof (induction s rule: raw_lexemes.induct)
  case (1 s)
  show ?case
  proof (cases "s = []")
    case False
    have "l = (fst (lex s), take (snd (lex s)) s) \<or> l \<in> set (raw_lexemes (drop (snd (lex s)) s))"
      using "1.prems"(1) False by (subst (asm) raw_lexemes.simps) simp
    then show ?thesis using "1.IH" [OF False] "1.prems" lex_relexes [OF False, of "fst (lex s)" "snd (lex s)"] by auto
  qed (use "1.prems" in simp)
qed

lemma solids_lexeme: "lex (w @ rest) = (k, length w) \<Longrightarrow> w \<noteq> [] \<Longrightarrow> k \<noteq> WsTok \<Longrightarrow> solids (w @ rest) = (k, w) # solids rest"
  unfolding solids_def by (subst raw_lexemes.simps) simp

definition ws_unit :: "nat \<Rightarrow> bool" where
  "ws_unit c \<longleftrightarrow> c = CH_LF \<or> isHorizontalWs c"

lemma raw_lexemes_ws_run: "isHorizontalWs c \<Longrightarrow> raw_lexemes (c # s) = (WsTok, c # takeWhile isHorizontalWs s) # raw_lexemes (dropWhile isHorizontalWs s)"
proof -
  assume c: "isHorizontalWs c"
  then have l: "lex (c # s) = (WsTok, Suc (length (takeWhile isHorizontalWs s)))" by (auto simp: lex_def isHorizontalWs_def)
  have "take (length (takeWhile isHorizontalWs s)) s = takeWhile isHorizontalWs s" "drop (length (takeWhile isHorizontalWs s)) s = dropWhile isHorizontalWs s"
    by (metis takeWhile_eq_take, metis dropWhile_eq_drop)
  then show ?thesis by (subst raw_lexemes.simps) (simp add: l)
qed

lemma solids_ws_unit: "ws_unit c \<Longrightarrow> solids (c # s) = solids s"
proof (cases "isHorizontalWs c")
  case True
  show ?thesis
  proof (cases s)
    case (Cons d s')
    then show ?thesis using True raw_lexemes_ws_run [OF True, of s] raw_lexemes_ws_run [of d s']
      by (cases "isHorizontalWs d") (auto simp: solids_def)
  qed (use True in \<open>simp add: solids_def raw_lexemes_ws_run\<close>)
next
  case False
  assume "ws_unit c"
  then have "c = CH_LF" using False by (simp add: ws_unit_def)
  then show ?thesis by (simp add: solids_def raw_lexemes.simps [of "CH_LF # s"] lex_def)
qed

lemma solids_ws: "list_all ws_unit w \<Longrightarrow> solids (w @ s) = solids s"
  by (induction w) (auto simp: solids_ws_unit)


definition lex_sym :: "token_kind \<times> units \<Rightarrow> sym" where
  "lex_sym l = (if fst l = PunctTok then Mark (hd (snd l)) else if fst l = StringTok then Str else Scalar)"

definition valid_solids :: "(token_kind \<times> units) list \<Rightarrow> bool" where
  "valid_solids ls \<longleftrightarrow> (\<forall>l \<in> set ls. fst l \<noteq> ErrorTok) \<and> json_value (map lex_sym ls)"

lemma token_first: "t \<in> set (tokenizeJson s) \<Longrightarrow> token_raw s t \<noteq> [] \<and> hd (token_raw s t) = s ! to_start t"
  using tiles_bound [OF tokenize_tiles [of 0 s "[]"], of t]
  by (auto simp: tokenizeJson_def token_raw_def slice_units_def hd_drop_conv_nth)

lemma solids_tokens: "map (lexeme s) (filter solid (tokenizeJson s)) = solids s"
proof -
  have "filter (\<lambda>l. fst l \<noteq> WsTok) (map (lexeme s) ts) = map (lexeme s) (filter solid ts)" for ts
    by (induction ts) (auto simp: lexeme_def solid_def)
  then show ?thesis unfolding solids_def tokens_lexemes [symmetric] by simp
qed

lemma sym_of_lexeme: "t \<in> set (tokenizeJson s) \<Longrightarrow> lex_sym (lexeme s t) = sym_of s t"
  using token_first [of t s] by (auto simp: lex_sym_def lexeme_def sym_of_def)

lemma check_solids: "checkJson s = None \<longleftrightarrow> valid_solids (solids s)"
proof -
  have m: "map lex_sym (solids s) = map (sym_of s) (filter solid (tokenizeJson s))"
    unfolding solids_tokens [symmetric] by (simp add: sym_of_lexeme)
  have e: "(\<forall>l \<in> set (solids s). fst l \<noteq> ErrorTok) \<longleftrightarrow> (\<forall>t \<in> set (tokenizeJson s). to_kind t \<noteq> ErrorTok)"
    unfolding solids_tokens [symmetric] by (auto simp: lexeme_def solid_def)
  have "(\<exists>st f. check_tokens s (tokenizeJson s) ([], ExpectValue, False) = Inr (st, ExpectEnd, f)) \<longleftrightarrow> valid_solids (solids s)"
    unfolding check_tokens_sym valid_solids_def m e sym_run_grammar [symmetric] by blast
  then show ?thesis by (auto simp: checkJson_def split: sum.split)
qed

section \<open>Emission\<close>

text \<open>\<open>emit_tokens\<close> reads its tokens through their lexemes only.\<close>

fun emit_lexemes :: "units option \<Rightarrow> nat \<Rightarrow> (token_kind \<times> units) list \<Rightarrow> units" where
  "emit_lexemes indent depth [] = []"
| "emit_lexemes indent depth (l # ls) =
     (let c = hd (snd l)
      in if fst l \<noteq> PunctTok then snd l @ emit_lexemes indent depth ls
         else if c = CH_LBRACE \<or> c = CH_LBRACKET then
           (case ls of
              n # ls' \<Rightarrow>
                if fst n = PunctTok \<and> hd (snd n) = (if c = CH_LBRACE then CH_RBRACE else CH_RBRACKET)
                then snd l @ snd n @ emit_lexemes indent depth ls'
                else snd l @ pad indent (depth + 1) @ emit_lexemes indent (depth + 1) ls
            | [] \<Rightarrow> snd l @ pad indent (depth + 1))
         else if c = CH_RBRACE \<or> c = CH_RBRACKET then pad indent (depth - 1) @ snd l @ emit_lexemes indent (depth - 1) ls
         else if c = CH_COMMA then CH_COMMA # pad indent depth @ emit_lexemes indent depth ls
         else (if indent = None then [CH_COLON] else [CH_COLON, CH_SPACE]) @ emit_lexemes indent depth ls)"

lemma emit_tokens_lexemes:
  "set ts \<subseteq> set (tokenizeJson s) \<Longrightarrow> emit_tokens s indent depth ts = emit_lexemes indent depth (map (lexeme s) ts)"
proof (induction "length ts" arbitrary: depth ts rule: less_induct)
  case less
  show ?case
  proof (cases ts)
    case (Cons t us)
    have raw: "snd (lexeme s u) = token_raw s u" "fst (lexeme s u) = PunctTok \<longleftrightarrow> to_kind u = PunctTok" for u by (simp_all add: lexeme_def)
    have first: "hd (token_raw s u) = s ! to_start u" if "u \<in> set (t # us)" for u using token_first less.prems Cons that by blast
    have ih: "emit_tokens s indent d us = emit_lexemes indent d (map (lexeme s) us)" for d using less Cons by simp
    show ?thesis
    proof (cases us)
      case Nil
      then show ?thesis using Cons raw first [of t] by (simp add: Let_def)
    next
      case us: (Cons n us')
      have ih': "emit_tokens s indent d us' = emit_lexemes indent d (map (lexeme s) us')" for d using less Cons us by simp
      have "emit_tokens s indent depth (t # us) = emit_lexemes indent depth (lexeme s t # map (lexeme s) us)"
        unfolding emit_tokens.simps emit_lexemes.simps Let_def raw ih using us first [of t] first [of n] raw ih' by simp
      then show ?thesis using Cons by simp
    qed
  qed simp
qed

declare emit_lexemes.simps(2) [simp del]

lemma reemit_lexemes: "reemit s indent = (if valid_solids (solids s) then Some (emit_lexemes indent 0 (solids s)) else None)"
proof -
  have "filter (\<lambda>t. to_kind t \<noteq> WsTok) (tokenizeJson s) = filter solid (tokenizeJson s)" by (simp add: solid_def [abs_def])
  then show ?thesis using emit_tokens_lexemes [of "filter solid (tokenizeJson s)" s indent 0]
    by (auto simp: reemit_def check_solids solids_tokens)
qed

text \<open>In an accepted document two scalars are never adjacent.\<close>

fun separated :: "(token_kind \<times> units) list \<Rightarrow> bool" where
  "separated (a # b # ls) = ((fst a = PunctTok \<or> fst b = PunctTok) \<and> separated (b # ls))"
| "separated _ = True"

lemma sym_step_scalar:
  "sym_step x s = Some s' \<Longrightarrow> (\<And>c. x \<noteq> Mark c) \<Longrightarrow> sym_step y s' = Some s'' \<Longrightarrow> \<exists>c. y = Mark c"
  by (cases "(x, s)" rule: sym_step.cases) (auto simp: afterValue_def split: sym.splits if_splits)

lemma sym_run_separated: "sym_run (map lex_sym ls) s = Some s' \<Longrightarrow> separated ls"
proof (induction ls arbitrary: s rule: separated.induct)
  case (1 a b ls)
  then obtain s1 s2 where r: "sym_step (lex_sym a) s = Some s1" "sym_step (lex_sym b) s1 = Some s2" "sym_run (map lex_sym (b # ls)) s1 = Some s'"
    by (auto split: option.splits)
  have mark: "(\<exists>c. lex_sym l = Mark c) \<longleftrightarrow> fst l = PunctTok" for l by (simp add: lex_sym_def)
  have "fst a = PunctTok \<or> fst b = PunctTok" using sym_step_scalar [OF r(1) _ r(2)] unfolding mark [symmetric] by blast
  then show ?case using "1.IH" [OF r(3)] by simp
qed auto

lemma valid_separated: "valid_solids ls \<Longrightarrow> separated ls"
  using sym_run_grammar [of "map lex_sym ls"] sym_run_separated by (auto simp: valid_solids_def)

definition ws_indent :: "units option \<Rightarrow> bool" where
  "ws_indent indent = (case indent of None \<Rightarrow> True | Some w \<Rightarrow> list_all ws_unit w)"

lemma pad_ws: "ws_indent indent \<Longrightarrow> list_all ws_unit (pad indent n)"
  by (auto simp: ws_indent_def pad_def ws_unit_def list_all_iff split: option.splits)

lemma pad_stops: "stops rest \<Longrightarrow> stops (pad indent n @ rest)"
  by (auto simp: pad_def stops_Cons split: option.split)

lemma stops_emit:
  assumes "ls = [] \<or> fst (hd ls) = PunctTok" "\<forall>l \<in> set ls. relexes l"
  shows "stops (emit_lexemes indent d ls)"
proof (cases ls)
  case (Cons l ls')
  then obtain c where c: "snd l = [c]" "isPunct c" "fst l = PunctTok" using assms by (auto simp: relexes_def)
  then have "stops (c # rest)" for rest by (simp add: stops_Cons)
  moreover have "stops (CH_COMMA # rest)" "stops (CH_COLON # rest)" for rest by (simp_all add: stops_Cons isPunct_def)
  ultimately show ?thesis unfolding Cons emit_lexemes.simps(2) Let_def using c(1,3)
    by (auto intro!: pad_stops split: list.split)
qed simp


lemma solids_relex:
  "relexes l \<Longrightarrow> fst l \<noteq> WsTok \<Longrightarrow> (needs_stop (fst l) \<Longrightarrow> stops rest) \<Longrightarrow> solids (snd l @ rest) = l # solids rest"
  using solids_lexeme [of "snd l" rest "fst l"] by (auto simp: relexes_def)

lemma solids_punct: "isPunct c \<Longrightarrow> solids (c # rest) = (PunctTok, [c]) # solids rest"
  using solids_lexeme [of "[c]" rest PunctTok] by (auto simp: lex_def isPunct_def isHorizontalWs_def)

lemma separated_tail: "separated (l # ls) \<Longrightarrow> separated ls"
  by (cases ls) auto

lemma solids_emit:
  assumes "separated ls" "\<forall>l \<in> set ls. relexes l \<and> fst l \<noteq> WsTok" "ws_indent indent"
  shows "solids (emit_lexemes indent d ls) = ls"
  using assms(1,2)
proof (induction "length ls" arbitrary: d ls rule: less_induct)
  case less
  show ?case
  proof (cases ls)
    case (Cons l ls')
    have ih: "solids (emit_lexemes indent d' ls') = ls'" for d'
      using less.hyps [of ls' d'] less.prems Cons separated_tail by simp
    have ih2: "solids (emit_lexemes indent d' ls'') = ls''" if "ls' = n # ls''" for d' n ls''
      using less.hyps [of ls'' d'] less.prems Cons that separated_tail [of l ls'] separated_tail [of n ls''] by simp
    have pad: "solids (pad indent n @ s) = solids s" for n s by (rule solids_ws [OF pad_ws [OF assms(3)]])
    have rl: "relexes l" "fst l \<noteq> WsTok" using less.prems(2) Cons by auto
    show ?thesis
    proof (cases "fst l = PunctTok")
      case False
      have "ls' = [] \<or> fst (hd ls') = PunctTok" using less.prems(1) Cons False by (cases ls') auto
      then have "stops (emit_lexemes indent d ls')" using stops_emit less.prems(2) Cons by simp
      then show ?thesis using solids_relex [OF rl] ih False Cons by (simp add: emit_lexemes.simps(2))
    next
      case True
      then obtain c where c: "l = (PunctTok, [c])" "isPunct c" using rl(1) by (cases l) (auto simp: relexes_def)
      show ?thesis
      proof (cases "c = CH_LBRACE \<or> c = CH_LBRACKET")
        case op: True
        show ?thesis
        proof (cases "\<exists>n ls''. ls' = n # ls'' \<and> fst n = PunctTok \<and> hd (snd n) = (if c = CH_LBRACE then CH_RBRACE else CH_RBRACKET)")
          case True
          then obtain n ls'' where n: "ls' = n # ls''" "fst n = PunctTok" "hd (snd n) = (if c = CH_LBRACE then CH_RBRACE else CH_RBRACKET)"
            by blast
          then have "relexes n" "fst n \<noteq> WsTok" using less.prems(2) Cons by auto
          then have "solids (snd n @ emit_lexemes indent d ls'') = n # ls''"
            using solids_relex [of n] ih2 [OF n(1)] n(2) by (simp add: needs_stop_def)
          then show ?thesis unfolding Cons c(1) emit_lexemes.simps(2) using op n solids_punct [OF c(2)] by auto
        next
          case False
          then have "emit_lexemes indent d ls = [c] @ pad indent (d + 1) @ emit_lexemes indent (d + 1) ls'"
            unfolding Cons c(1) emit_lexemes.simps(2) using op by (auto split: list.split)
          then show ?thesis using Cons c solids_punct [OF c(2)] pad ih by simp
        qed
      next
        case False
        then have "c = CH_RBRACE \<or> c = CH_RBRACKET \<or> c = CH_COMMA \<or> c = CH_COLON" using c(2) by (auto simp: isPunct_def)
        then show ?thesis unfolding Cons c(1) emit_lexemes.simps(2)
          using False pad ih c(2) solids_ws_unit [of CH_SPACE] by (auto simp: solids_punct ws_unit_def isHorizontalWs_def)
      qed
    qed
  qed simp
qed

lemma solids_valid_relex: "valid_solids (solids s) \<Longrightarrow> \<forall>l \<in> set (solids s). relexes l \<and> fst l \<noteq> WsTok"
  using raw_relexes by (auto simp: valid_solids_def solids_def)

lemma solids_reemit: "reemit s indent = Some r \<Longrightarrow> ws_indent indent \<Longrightarrow> valid_solids (solids s) \<and> solids r = solids s"
  using solids_emit [OF valid_separated solids_valid_relex, of s indent 0] by (auto simp: reemit_lexemes split: if_splits)

lemma ws_indent_uses: "ws_indent (Some [CH_SPACE, CH_SPACE])" "ws_indent None"
  by (simp_all add: ws_indent_def ws_unit_def isHorizontalWs_def)


lemma reemit_again: "reemit s indent = Some r \<Longrightarrow> ws_indent indent \<Longrightarrow> reemit r indent' = reemit s indent'"
  using solids_reemit [of s indent r] reemit_lexemes [of r indent'] reemit_lexemes [of s indent'] by simp

section \<open>Properties\<close>

text \<open>C36: the formatters re-emit the source text and touch whitespace only. When the format button
  produces \<open>f\<close> for a value and the minifier \<open>m\<close>, both have exactly the lexemes of the value (kinds and
  raw text, whitespace dropped), so numbers, escapes, key order and duplicate keys survive; and the two
  are inverse to each other: formatting or minifying either one gives \<open>f\<close> and \<open>m\<close> again.\<close>

theorem format_only_whitespace:
  assumes "formatJson s = Some f" "minifyJson s = Some m"
  shows "solids f = solids s \<and> solids m = solids s \<and>
    formatJson f = Some f \<and> formatJson m = Some f \<and> minifyJson f = Some m \<and> minifyJson m = Some m"
  using assms solids_reemit ws_indent_uses reemit_again unfolding formatJson_def minifyJson_def by metis

theorem format_only_whitespace_witness:
  "formatJson (lit ''[1 ,{}]'') = Some (lit ''['' @ [10] @ lit ''  1,'' @ [10] @ lit ''  {}'' @ [10] @ lit '']'') \<and>
   minifyJson (lit ''['' @ [10] @ lit ''  1,'' @ [10] @ lit ''  {}'' @ [10] @ lit '']'') = Some (lit ''[1,{}]'')"
proof -
  have a: "formatJson (lit ''[1 ,{}]'') = Some (lit ''['' @ [10] @ lit ''  1,'' @ [10] @ lit ''  {}'' @ [10] @ lit '']'')"
    and b: "minifyJson (lit ''[1 ,{}]'') = Some (lit ''[1,{}]'')"
    by code_simp+
  show ?thesis using format_only_whitespace [OF a b] a by blast
qed

text \<open>C38: two parameter values are the same JSON up to formatting exactly when the checker accepts both
  and they have the same lexemes. The minified texts the code compares decide this: different lexemes
  never minify to the same text.\<close>

theorem json_equivalent_iff:
  "jsonEquivalent a b \<longleftrightarrow> checkJson a = None \<and> checkJson b = None \<and> solids a = solids b"
proof -
  have "solids a = solids b" if "minifyJson a = Some m" "minifyJson b = Some m" for m
    using that solids_reemit [of _ None] ws_indent_uses(2) unfolding minifyJson_def by metis
  then show ?thesis
    by (auto simp: jsonEquivalent_def check_solids minifyJson_def reemit_lexemes split: if_splits option.splits)
qed

end
