(* ===== verification/Line_Diff.thy ===== *)
theory Line_Diff
  imports Json_Text_Correct
begin

text \<open>
  The line diff of the console's value viewers, \<^verbatim>\<open>frontend/lib/line-diff.ts\<close>: the alignment of two
  texts by a table of longest common subsequences, its side-by-side and unified views, and the folding
  of long unchanged stretches. A line is the list of its UTF-16 code units. The table is the flat typed
  array of the source: every store keeps the low 32 bits.
\<close>

section \<open>Data\<close>

datatype diff_op = SameOp | AddOp | DelOp

record diff_line =
  dl_op :: diff_op
  dl_text :: units
  dl_left :: "nat option"
  dl_right :: "nat option"

datatype row_kind = SameRow | ChangeRow

type_synonym diff_cell = "nat \<times> units"

record diff_row =
  dr_kind :: row_kind
  dr_left :: "diff_cell option"
  dr_right :: "diff_cell option"

record diff_result =
  df_lines :: "diff_line list"
  df_added :: nat
  df_removed :: nat
  df_truncated :: bool

definition DIFF_MAX_BYTES :: nat where
  "DIFF_MAX_BYTES = HIGHLIGHT_MAX_BYTES"

definition MAX_TABLE_CELLS :: nat where
  "MAX_TABLE_CELLS = 2000000"

definition diff_line_of :: "diff_op \<Rightarrow> units \<Rightarrow> diff_line" where
  "diff_line_of p w = \<lparr>dl_op = p, dl_text = w, dl_left = None, dl_right = None\<rparr>"

section \<open>Alignment\<close>

definition splitText :: "units \<Rightarrow> units list" where
  "splitText w = (if w = [] then [] else split_lf w)"

text \<open>One cell of the table: what the inner loop stores at row \<open>i\<close>, column \<open>j\<close>. A store into a
  \<open>Uint32Array\<close> keeps the value modulo $2^{32}$.\<close>

definition table_cell :: "units list \<Rightarrow> units list \<Rightarrow> nat list \<Rightarrow> nat \<Rightarrow> nat \<Rightarrow> nat" where
  "table_cell a b table i j =
     (let width = length b + 1
      in if a ! i = b ! j then table ! ((i + 1) * width + j + 1) + 1
         else max (table ! ((i + 1) * width + j)) (table ! (i * width + j + 1)))"

fun fill_row :: "units list \<Rightarrow> units list \<Rightarrow> nat \<Rightarrow> nat \<Rightarrow> nat list \<Rightarrow> nat list" where
  "fill_row a b i 0 table = table"
| "fill_row a b i (Suc j) table =
     fill_row a b i j (table[i * (length b + 1) + j := table_cell a b table i j mod 2 ^ 32])"

fun fill_table :: "units list \<Rightarrow> units list \<Rightarrow> nat \<Rightarrow> nat list \<Rightarrow> nat list" where
  "fill_table a b 0 table = table"
| "fill_table a b (Suc i) table = fill_table a b i (fill_row a b i (length b) table)"

function align_walk :: "units list \<Rightarrow> units list \<Rightarrow> nat list \<Rightarrow> nat \<Rightarrow> nat \<Rightarrow> diff_line list" where
  "align_walk a b table i j =
     (if i < length a \<and> j < length b then
        (if a ! i = b ! j then diff_line_of SameOp (a ! i) # align_walk a b table (i + 1) (j + 1)
         else if table ! (i * (length b + 1) + j + 1) \<le> table ! ((i + 1) * (length b + 1) + j)
         then diff_line_of DelOp (a ! i) # align_walk a b table (i + 1) j
         else diff_line_of AddOp (b ! j) # align_walk a b table i (j + 1))
      else map (diff_line_of DelOp) (drop i a) @ map (diff_line_of AddOp) (drop j b))"
  by pat_completeness auto
termination
  by (relation "measure (\<lambda>(a, b, table, i, j). (length a - i) + (length b - j))") auto

declare align_walk.simps [simp del]

definition align :: "units list \<Rightarrow> units list \<Rightarrow> diff_line list" where
  "align a b = align_walk a b (fill_table a b (length a) (replicate ((length a + 1) * (length b + 1)) 0)) 0 0"

fun number_from :: "nat \<Rightarrow> nat \<Rightarrow> diff_line list \<Rightarrow> diff_line list" where
  "number_from left right [] = []"
| "number_from left right (line # lines) =
     (case dl_op line of
        SameOp \<Rightarrow> line\<lparr>dl_left := Some (left + 1), dl_right := Some (right + 1)\<rparr> # number_from (left + 1) (right + 1) lines
      | DelOp \<Rightarrow> line\<lparr>dl_left := Some (left + 1)\<rparr> # number_from (left + 1) right lines
      | AddOp \<Rightarrow> line\<lparr>dl_right := Some (right + 1)\<rparr> # number_from left (right + 1) lines)"

definition number_lines :: "diff_line list \<Rightarrow> diff_line list" where
  "number_lines lines = number_from 0 0 lines"

definition diff_finish :: "diff_line list \<Rightarrow> bool \<Rightarrow> diff_result" where
  "diff_finish lines truncated =
     \<lparr>df_lines = number_lines lines,
      df_added = length (filter (\<lambda>l. dl_op l = AddOp) lines),
      df_removed = length (filter (\<lambda>l. dl_op l = DelOp) lines),
      df_truncated = truncated\<rparr>"

fun common_prefix_len :: "units list \<Rightarrow> units list \<Rightarrow> nat" where
  "common_prefix_len (x # xs) (y # ys) = (if x = y then Suc (common_prefix_len xs ys) else 0)"
| "common_prefix_len _ _ = 0"

text \<open>The suffix loop stops before it would run into the prefix; reading the lists from the back.\<close>

definition common_suffix_len :: "nat \<Rightarrow> units list \<Rightarrow> units list \<Rightarrow> nat" where
  "common_suffix_len prefix a b = common_prefix_len (rev (drop prefix a)) (rev (drop prefix b))"

definition diffLines :: "units \<Rightarrow> units \<Rightarrow> diff_result" where
  "diffLines before after =
     (let a = splitText before; b = splitText after
      in if DIFF_MAX_BYTES < byteLength before \<or> DIFF_MAX_BYTES < byteLength after
         then diff_finish (map (diff_line_of DelOp) a @ map (diff_line_of AddOp) b) True
         else
           let prefix = common_prefix_len a b;
               suffix = common_suffix_len prefix a b;
               middleA = take (length a - suffix - prefix) (drop prefix a);
               middleB = take (length b - suffix - prefix) (drop prefix b);
               head = map (diff_line_of SameOp) (take prefix a);
               tail = map (diff_line_of SameOp) (drop (length a - suffix) a)
           in if MAX_TABLE_CELLS < (length middleA + 1) * (length middleB + 1)
              then diff_finish (head @ map (diff_line_of DelOp) middleA @ map (diff_line_of AddOp) middleB @ tail) True
              else diff_finish (head @ align middleA middleB @ tail) False)"

section \<open>Views\<close>

definition cell_of :: "(diff_line \<Rightarrow> nat option) \<Rightarrow> diff_line \<Rightarrow> diff_cell" where
  "cell_of side line = (case side line of None \<Rightarrow> 0 | Some n \<Rightarrow> n, dl_text line)"

definition nth_cell :: "(diff_line \<Rightarrow> nat option) \<Rightarrow> diff_line list \<Rightarrow> nat \<Rightarrow> diff_cell option" where
  "nth_cell side lines k = (if k < length lines then Some (cell_of side (lines ! k)) else None)"

definition change_rows :: "diff_line list \<Rightarrow> diff_line list \<Rightarrow> diff_row list" where
  "change_rows dels adds =
     map (\<lambda>k. \<lparr>dr_kind = ChangeRow, dr_left = nth_cell dl_left dels k, dr_right = nth_cell dl_right adds k\<rparr>)
       [0 ..< max (length dels) (length adds)]"

function toSideBySide :: "diff_line list \<Rightarrow> diff_row list" where
  "toSideBySide [] = []"
| "toSideBySide (line # lines) =
     (if dl_op line = SameOp
      then \<lparr>dr_kind = SameRow, dr_left = Some (cell_of dl_left line), dr_right = Some (cell_of dl_right line)\<rparr> # toSideBySide lines
      else
        let run = takeWhile (\<lambda>l. dl_op l \<noteq> SameOp) (line # lines)
        in change_rows (filter (\<lambda>l. dl_op l = DelOp) run) (filter (\<lambda>l. dl_op l \<noteq> DelOp) run)
           @ toSideBySide (dropWhile (\<lambda>l. dl_op l \<noteq> SameOp) (line # lines)))"
  by pat_completeness auto
termination
  by (relation "measure length") (auto simp: less_Suc_eq_le length_dropWhile_le)

definition toUnified :: "diff_line list \<Rightarrow> (row_kind \<times> diff_line) list" where
  "toUnified lines = map (\<lambda>line. (if dl_op line = SameOp then SameRow else ChangeRow, line)) lines"

datatype 'a folded_row = RealRow 'a | Fold nat nat

text \<open>\<open>kind\<close> reads the kind of a row; \<open>rows\<close> is only ever read from \<open>index\<close> on.\<close>

definition fold_run :: "'a list \<Rightarrow> nat \<Rightarrow> nat \<Rightarrow> nat \<Rightarrow> 'a folded_row list" where
  "fold_run rows context_rows index stop =
     (let run = stop - index;
          leading = (if index = 0 then 0 else context_rows);
          trailing = (if stop = length rows then 0 else context_rows)
      in if run \<le> leading + trailing + 1 then map RealRow (take run (drop index rows))
         else map RealRow (take leading (drop index rows))
              @ Fold (run - leading - trailing) (index + leading)
              # map RealRow (take trailing (drop (stop - trailing) rows)))"

lemma run_shortens:
  "index < length rows \<Longrightarrow> kind (rows ! index) \<noteq> ChangeRow \<Longrightarrow>
   length rows - (index + length (takeWhile (\<lambda>r. kind r = SameRow) (drop index rows))) < length rows - index"
  by (cases "kind (rows ! index)") (simp_all add: Cons_nth_drop_Suc [symmetric])

function fold_from :: "('a \<Rightarrow> row_kind) \<Rightarrow> 'a list \<Rightarrow> nat \<Rightarrow> nat \<Rightarrow> 'a folded_row list" where
  "fold_from kind rows context_rows index =
     (if index < length rows then
        (if kind (rows ! index) = ChangeRow then RealRow (rows ! index) # fold_from kind rows context_rows (index + 1)
         else let stop = index + length (takeWhile (\<lambda>r. kind r = SameRow) (drop index rows))
              in fold_run rows context_rows index stop @ fold_from kind rows context_rows stop)
      else [])"
  by pat_completeness auto

termination
  by (relation "measure (\<lambda>(kind, rows, context_rows, index). length rows - index)")
    (simp_all add: run_shortens)

declare fold_from.simps [simp del]

definition foldUnchanged :: "('a \<Rightarrow> row_kind) \<Rightarrow> 'a list \<Rightarrow> nat \<Rightarrow> 'a folded_row list" where
  "foldUnchanged kind rows context_rows = fold_from kind rows context_rows 0"

end
