(* ===== verification/Line_Diff_Correct.thy ===== *)
theory Line_Diff_Correct
  imports Line_Diff "HOL-Library.Sublist"
begin

text \<open>
  Correctness of the line diff. Its lines are exactly the lines of the two texts, in order and with
  their line numbers; an untruncated diff keeps as many lines as any common subsequence of the two has;
  the side-by-side view keeps both columns; and folding hides unchanged rows only, out of reach of
  every change.
\<close>

section \<open>Longest common subsequences\<close>

fun lcs :: "'a list \<Rightarrow> 'a list \<Rightarrow> nat" where
  "lcs (x # xs) (y # ys) = (if x = y then Suc (lcs xs ys) else max (lcs xs (y # ys)) (lcs (x # xs) ys))"
| "lcs _ _ = 0"

lemma lcs_Nil [simp]: "lcs xs [] = 0"
  by (cases xs) auto

lemma lcs_attained: "\<exists>zs. subseq zs xs \<and> subseq zs ys \<and> length zs = lcs xs ys"
proof (induction xs ys rule: lcs.induct)
  case (1 x xs y ys)
  show ?case
  proof (cases "x = y")
    case True
    then obtain zs where "subseq zs xs" "subseq zs ys" "length zs = lcs xs ys" using 1 by auto
    then show ?thesis using True by (intro exI [of _ "x # zs"]) simp
  next
    case False
    then show ?thesis using 1 by (cases "lcs xs (y # ys) \<le> lcs (x # xs) ys") (auto simp: max_def intro: subseq_Cons')
  qed
qed auto

lemma lcs_upper: "subseq zs xs \<Longrightarrow> subseq zs ys \<Longrightarrow> length zs \<le> lcs xs ys"
proof (induction xs ys arbitrary: zs rule: lcs.induct)
  case (1 x xs y ys)
  show ?case
  proof (cases zs)
    case (Cons z zs')
    show ?thesis
    proof (cases "x = y")
      case True
      then have "subseq zs' xs \<and> subseq zs' ys"
        using "1.prems" Cons by (cases "z = x") (auto intro: subseq_Cons' simp: subseq_Cons2_neq)
      then show ?thesis using "1.IH"(1) True Cons by simp
    next
      case False
      then have "subseq zs xs \<or> subseq zs ys" using "1.prems" Cons by (cases "z = x") (auto simp: subseq_Cons2_neq)
      then have "length zs \<le> lcs xs (y # ys) \<or> length zs \<le> lcs (x # xs) ys" using "1.IH"(2,3) False "1.prems" by blast
      then show ?thesis using False by auto
    qed
  qed simp
qed (auto simp: list_emb_Nil2)

lemma lcs_le: "lcs xs ys \<le> length xs"
  using lcs_attained [of xs ys] list_emb_length by metis

lemma subseq_rev: "subseq xs ys \<Longrightarrow> subseq (rev xs) (rev ys)"
  by (induction xs ys rule: list_emb.induct) (auto intro: list_emb_append_mono subseq_rev_drop_many)

lemma lcs_rev_le: "lcs xs ys \<le> lcs (rev xs) (rev ys)"
  using lcs_attained [of xs ys] lcs_upper [OF subseq_rev subseq_rev] by (metis length_rev)

lemma lcs_rev: "lcs (rev xs) (rev ys) = lcs xs ys"
  using lcs_rev_le [of xs ys] lcs_rev_le [of "rev xs" "rev ys"] by simp

lemma lcs_prefix: "lcs (p @ xs) (p @ ys) = length p + lcs xs ys"
  by (induction p) auto

lemma lcs_suffix: "lcs (xs @ s) (ys @ s) = lcs xs ys + length s"
  using lcs_prefix [of "rev s" "rev xs" "rev ys"] lcs_rev [of "xs @ s" "ys @ s"] lcs_rev [of xs ys] by simp

section \<open>The table\<close>

definition filled :: "units list \<Rightarrow> units list \<Rightarrow> nat list \<Rightarrow> nat \<Rightarrow> nat \<Rightarrow> bool" where
  "filled a b t i j \<longleftrightarrow> length t = (length a + 1) * (length b + 1) \<and>
     (\<forall>i' j'. i' \<le> length a \<longrightarrow> j' \<le> length b \<longrightarrow> i' = length a \<or> j' = length b \<or> i < i' \<or> i' = i \<and> j \<le> j' \<longrightarrow>
        t ! (i' * (length b + 1) + j') = lcs (drop i' a) (drop j' b))"

lemma cell_index_inj:
  fixes w :: nat
  assumes "j < w" "j' < w" "i * w + j = i' * w + j'"
  shows "i = i' \<and> j = j'"
proof -
  have "i = (i * w + j) div w" "i' = (i' * w + j') div w" using assms(1,2) by simp_all
  then have "i = i'" using assms(3) by simp
  then show ?thesis using assms(3) by simp
qed

lemma cell_index_less:
  fixes w :: nat
  assumes "i \<le> n" "j < w"
  shows "i * w + j < (n + 1) * w"
proof -
  have "i * w \<le> n * w" using assms(1) by simp
  then show ?thesis using assms(2) by (simp add: add.commute add_less_le_mono)
qed

lemma table_cell_lcs:
  assumes "filled a b t i (Suc j)" "i < length a" "j < length b"
  shows "table_cell a b t i j = lcs (drop i a) (drop j b)"
proof -
  let ?w = "length b + 1"
  have c: "t ! (i' * ?w + j') = lcs (drop i' a) (drop j' b)"
    if "i' \<le> length a" "j' \<le> length b" "i < i' \<or> i' = i \<and> Suc j \<le> j'" for i' j'
    using assms(1) that unfolding filled_def by blast
  have "t ! ((i + 1) * ?w + j + 1) = lcs (drop (i + 1) a) (drop (j + 1) b)"
    "t ! ((i + 1) * ?w + j) = lcs (drop (i + 1) a) (drop j b)" "t ! (i * ?w + j + 1) = lcs (drop i a) (drop (j + 1) b)"
    using c [of "i + 1" "j + 1"] c [of "i + 1" j] c [of i "j + 1"] assms(2,3) by (simp_all add: add.assoc)
  moreover have "drop i a = a ! i # drop (i + 1) a" "drop j b = b ! j # drop (j + 1) b"
    using assms(2,3) by (simp_all add: Cons_nth_drop_Suc)
  ultimately show ?thesis unfolding table_cell_def Let_def by simp
qed

lemma fill_cell:
  assumes "filled a b t i (Suc j)" "i < length a" "j < length b" "length a < 2 ^ 32"
  shows "filled a b (t[i * (length b + 1) + j := table_cell a b t i j mod 2 ^ 32]) i j"
proof -
  let ?w = "length b + 1"
  have v: "table_cell a b t i j mod 2 ^ 32 = lcs (drop i a) (drop j b)"
    using table_cell_lcs [OF assms(1-3)] lcs_le [of "drop i a" "drop j b"] assms(4) by simp
  have l: "length t = (length a + 1) * ?w" using assms(1) by (simp add: filled_def)
  have b: "i * ?w + j < length t" using cell_index_less [of i "length a" j ?w] assms(2,3) l by simp
  show ?thesis unfolding filled_def v
  proof (intro conjI allI impI)
    fix i' j' assume h: "i' \<le> length a" "j' \<le> length b" "i' = length a \<or> j' = length b \<or> i < i' \<or> i' = i \<and> j \<le> j'"
    show "t[i * ?w + j := lcs (drop i a) (drop j b)] ! (i' * ?w + j') = lcs (drop i' a) (drop j' b)"
    proof (cases "i' * ?w + j' = i * ?w + j")
      case True
      then have "i' = i" "j' = j" using cell_index_inj [of j' ?w j i' i] h(2) assms(3) by simp_all
      then show ?thesis using b by simp
    next
      case False
      then have "i' = length a \<or> j' = length b \<or> i < i' \<or> i' = i \<and> Suc j \<le> j'" using h(3) by (cases "j' = j") auto
      then have "t ! (i' * ?w + j') = lcs (drop i' a) (drop j' b)" using assms(1) h(1,2) unfolding filled_def by blast
      then show ?thesis using False by (simp only: nth_list_update_neq [OF False [symmetric]])
    qed
  qed (use l in simp)
qed

lemma fill_row_filled:
  "filled a b t i j \<Longrightarrow> i < length a \<Longrightarrow> j \<le> length b \<Longrightarrow> length a < 2 ^ 32 \<Longrightarrow> filled a b (fill_row a b i j t) i 0"
proof (induction j arbitrary: t)
  case (Suc j)
  then show ?case using fill_cell [of a b t i j] by simp
qed simp

lemma fill_table_filled:
  "filled a b t i 0 \<Longrightarrow> i \<le> length a \<Longrightarrow> length a < 2 ^ 32 \<Longrightarrow> filled a b (fill_table a b i t) 0 0"
proof (induction i arbitrary: t)
  case (Suc i)
  have "i' = length a \<or> j' = length b \<or> Suc i < i' \<or> i' = Suc i \<and> 0 \<le> j'"
    if "i' = length a \<or> j' = length b \<or> i < i' \<or> i' = i \<and> length b \<le> j'" "j' \<le> length b" for i' j' using that by auto
  then have "filled a b t i (length b)" using Suc.prems(1) unfolding filled_def by blast
  then have "filled a b (fill_row a b i (length b) t) i 0" using fill_row_filled Suc.prems(2,3) by simp
  then show ?case using Suc.IH Suc.prems(2,3) by simp
qed simp

lemma table_filled:
  assumes "length a < 2 ^ 32"
  shows "filled a b (fill_table a b (length a) (replicate ((length a + 1) * (length b + 1)) 0)) 0 0"
proof (rule fill_table_filled [OF _ order_refl assms])
  show "filled a b (replicate ((length a + 1) * (length b + 1)) 0) (length a) 0"
    unfolding filled_def using nth_replicate [OF cell_index_less [of _ "length a" _ "length b + 1"], where x = 0]
    by (auto simp del: replicate.simps mult_Suc mult_Suc_right add_Suc add_Suc_right One_nat_def simp add: less_Suc_eq_le [symmetric] Suc_eq_plus1)
qed

section \<open>The walk\<close>

definition left_texts :: "diff_line list \<Rightarrow> units list" where
  "left_texts ls = map dl_text (filter (\<lambda>l. dl_op l \<noteq> AddOp) ls)"

definition right_texts :: "diff_line list \<Rightarrow> units list" where
  "right_texts ls = map dl_text (filter (\<lambda>l. dl_op l \<noteq> DelOp) ls)"

definition same_count :: "diff_line list \<Rightarrow> nat" where
  "same_count ls = length (filter (\<lambda>l. dl_op l = SameOp) ls)"

lemma side_simps [simp]:
  "left_texts [] = []" "right_texts [] = []" "same_count [] = 0"
  "left_texts (diff_line_of p w # ls) = (if p = AddOp then left_texts ls else w # left_texts ls)"
  "right_texts (diff_line_of p w # ls) = (if p = DelOp then right_texts ls else w # right_texts ls)"
  "same_count (diff_line_of p w # ls) = (if p = SameOp then Suc (same_count ls) else same_count ls)"
  "left_texts (xs @ ys) = left_texts xs @ left_texts ys"
  "right_texts (xs @ ys) = right_texts xs @ right_texts ys"
  "same_count (xs @ ys) = same_count xs + same_count ys"
  by (simp_all add: left_texts_def right_texts_def same_count_def diff_line_of_def)

lemma side_maps [simp]:
  "left_texts (map (diff_line_of p) ws) = (if p = AddOp then [] else ws)"
  "right_texts (map (diff_line_of p) ws) = (if p = DelOp then [] else ws)"
  "same_count (map (diff_line_of p) ws) = (if p = SameOp then length ws else 0)"
  by (induction ws) auto

lemma walk_end: "\<not> (i < length a \<and> j < length b) \<Longrightarrow> align_walk a b t i j = map (diff_line_of DelOp) (drop i a) @ map (diff_line_of AddOp) (drop j b)"
  by (subst align_walk.simps) (rule if_not_P)

lemma walk_moves:
  assumes "i < length a \<and> j < length b"
  shows "a ! i = b ! j \<Longrightarrow> align_walk a b t i j = diff_line_of SameOp (a ! i) # align_walk a b t (i + 1) (j + 1)"
    and "a ! i \<noteq> b ! j \<Longrightarrow> t ! (i * (length b + 1) + j + 1) \<le> t ! ((i + 1) * (length b + 1) + j) \<Longrightarrow>
      align_walk a b t i j = diff_line_of DelOp (a ! i) # align_walk a b t (i + 1) j"
    and "a ! i \<noteq> b ! j \<Longrightarrow> \<not> t ! (i * (length b + 1) + j + 1) \<le> t ! ((i + 1) * (length b + 1) + j) \<Longrightarrow>
      align_walk a b t i j = diff_line_of AddOp (b ! j) # align_walk a b t i (j + 1)"
  using assms by (subst align_walk.simps; simp only: if_True if_False simp_thms)+

lemma walk_drops:
  "i < length a \<and> j < length b \<Longrightarrow> drop i a = a ! i # drop (i + 1) a"
  "i < length a \<and> j < length b \<Longrightarrow> drop j b = b ! j # drop (j + 1) b"
  by (simp_all add: Cons_nth_drop_Suc)

lemma walk_sides: "left_texts (align_walk a b t i j) = drop i a \<and> right_texts (align_walk a b t i j) = drop j b"
proof (induction a b t i j rule: align_walk.induct)
  case (1 a b t i j)
  show ?case
  proof (cases "i < length a \<and> j < length b")
    case True
    consider "a ! i = b ! j" | "a ! i \<noteq> b ! j" "t ! (i * (length b + 1) + j + 1) \<le> t ! ((i + 1) * (length b + 1) + j)"
      | "a ! i \<noteq> b ! j" "\<not> t ! (i * (length b + 1) + j + 1) \<le> t ! ((i + 1) * (length b + 1) + j)" by blast
    then show ?thesis
    proof cases
      case one: 1
      then show ?thesis unfolding walk_moves(1) [OF True one] walk_drops [OF True] using "1.IH"(1) [OF True one] by simp
    next
      case two: 2
      then show ?thesis unfolding walk_moves(2) [OF True two] walk_drops(1) [OF True] using "1.IH"(2) [OF True two] by simp
    next
      case three: 3
      then show ?thesis unfolding walk_moves(3) [OF True three] walk_drops(2) [OF True] using "1.IH"(3) [OF True three] by simp
    qed
  qed (simp add: walk_end)
qed

lemma walk_same: "filled a b t 0 0 \<Longrightarrow> same_count (align_walk a b t i j) = lcs (drop i a) (drop j b)"
proof (induction a b t i j rule: align_walk.induct)
  case (1 a b t i j)
  have c: "t ! (i' * (length b + 1) + j') = lcs (drop i' a) (drop j' b)" if "i' \<le> length a" "j' \<le> length b" for i' j'
  proof -
    have "0 < i' \<or> i' = 0 \<and> 0 \<le> j'" by auto
    then show ?thesis using "1.prems" that unfolding filled_def by blast
  qed
  show ?case
  proof (cases "i < length a \<and> j < length b")
    case True
    have t: "t ! (i * (length b + 1) + j + 1) = lcs (drop i a) (drop (j + 1) b)"
      "t ! ((i + 1) * (length b + 1) + j) = lcs (drop (i + 1) a) (drop j b)"
      using c [of i "j + 1"] c [of "i + 1" j] True unfolding add.assoc by (simp_all only: Suc_eq_plus1 [symmetric] Suc_le_eq less_imp_le)
    have step: "lcs (drop i a) (drop j b) = (if a ! i = b ! j then Suc (lcs (drop (i + 1) a) (drop (j + 1) b))
      else max (lcs (drop (i + 1) a) (drop j b)) (lcs (drop i a) (drop (j + 1) b)))"
      using lcs.simps(1) [of "a ! i" "drop (i + 1) a" "b ! j" "drop (j + 1) b"] unfolding walk_drops [OF True, symmetric] .
    consider "a ! i = b ! j" | "a ! i \<noteq> b ! j" "t ! (i * (length b + 1) + j + 1) \<le> t ! ((i + 1) * (length b + 1) + j)"
      | "a ! i \<noteq> b ! j" "\<not> t ! (i * (length b + 1) + j + 1) \<le> t ! ((i + 1) * (length b + 1) + j)" by blast
    then show ?thesis
    proof cases
      case one: 1
      then show ?thesis unfolding walk_moves(1) [OF True one] step using "1.IH"(1) [OF True one "1.prems"] by simp
    next
      case two: 2
      then show ?thesis unfolding walk_moves(2) [OF True two] step using "1.IH"(2) [OF True two "1.prems"] two(2) [unfolded t] by simp
    next
      case three: 3
      then show ?thesis unfolding walk_moves(3) [OF True three] step using "1.IH"(3) [OF True three "1.prems"] three(2) [unfolded t] by simp
    qed
  next
    case False
    then show ?thesis by (auto simp: walk_end)
  qed
qed

lemma align_sides: "left_texts (align a b) = a" "right_texts (align a b) = b"
  by (simp_all add: align_def walk_sides)

lemma align_same: "length a < 2 ^ 32 \<Longrightarrow> same_count (align a b) = lcs a b"
  using walk_same [OF table_filled, of a b 0 0] by (simp add: align_def)

section \<open>Trimming\<close>

lemma common_prefix:
  "common_prefix_len xs ys \<le> length xs \<and> common_prefix_len xs ys \<le> length ys \<and>
   take (common_prefix_len xs ys) xs = take (common_prefix_len xs ys) ys"
  by (induction xs ys rule: common_prefix_len.induct) auto

lemma drop_from_rev: "k \<le> length xs \<Longrightarrow> drop (length xs - k) xs = rev (take k (rev xs))"
  by (simp add: rev_take)

lemma trim_split:
  fixes a b :: "units list"
  defines "p \<equiv> common_prefix_len a b"
  defines "s \<equiv> common_suffix_len p a b"
  shows "take p a @ take (length a - s - p) (drop p a) @ drop (length a - s) a = a"
    and "take p a @ take (length b - s - p) (drop p b) @ drop (length a - s) a = b"
proof -
  have p: "p \<le> length a" "p \<le> length b" "take p a = take p b" using common_prefix [of a b] p_def by simp_all
  have s: "s \<le> length (drop p a)" "s \<le> length (drop p b)" "take s (rev (drop p a)) = take s (rev (drop p b))"
    using common_prefix [of "rev (drop p a)" "rev (drop p b)"] s_def by (simp_all add: common_suffix_len_def)
  have e: "drop (length (drop p a) - s) (drop p a) = drop (length (drop p b) - s) (drop p b)"
    using drop_from_rev [OF s(1)] drop_from_rev [OF s(2)] s(3) by simp
  have d: "drop (length a - s) a = drop (length (drop p a) - s) (drop p a)" using p s(1) by simp
  have l: "length a - s - p = length (drop p a) - s" "length b - s - p = length (drop p b) - s" by simp_all
  show "take p a @ take (length a - s - p) (drop p a) @ drop (length a - s) a = a"
    unfolding d l append_take_drop_id by (rule refl)
  show "take p a @ take (length b - s - p) (drop p b) @ drop (length a - s) a = b"
    unfolding d l e append_take_drop_id p(3) by (rule refl)
qed

definition diff_ok :: "units list \<Rightarrow> units list \<Rightarrow> bool \<Rightarrow> diff_line list \<Rightarrow> bool" where
  "diff_ok a b truncated ls \<longleftrightarrow> left_texts ls = a \<and> right_texts ls = b \<and> (\<not> truncated \<longrightarrow> same_count ls = lcs a b)"

lemma diff_script: "\<exists>ls truncated. diffLines before after = diff_finish ls truncated \<and> diff_ok (splitText before) (splitText after) truncated ls"
proof -
  define a b where ab: "a = splitText before" "b = splitText after"
  define p s where ps: "p = common_prefix_len a b" "s = common_suffix_len p a b"
  define ma mb tl where m: "ma = take (length a - s - p) (drop p a)" "mb = take (length b - s - p) (drop p b)" "tl = drop (length a - s) a"
  have e: "take p a @ ma @ tl = a" "take p a @ mb @ tl = b" using trim_split [of a b] ps m by simp_all
  let ?head = "map (diff_line_of SameOp) (take p a)" and ?tail = "map (diff_line_of SameOp) tl"
  show ?thesis
  proof (cases "DIFF_MAX_BYTES < byteLength before \<or> DIFF_MAX_BYTES < byteLength after")
    case True
    then have "diffLines before after = diff_finish (map (diff_line_of DelOp) a @ map (diff_line_of AddOp) b) True"
      by (simp add: diffLines_def ab)
    then show ?thesis using ab by (intro exI conjI) (auto simp: diff_ok_def)
  next
    case small: False
    show ?thesis
    proof (cases "MAX_TABLE_CELLS < (length ma + 1) * (length mb + 1)")
      case True
      then have "diffLines before after = diff_finish (?head @ map (diff_line_of DelOp) ma @ map (diff_line_of AddOp) mb @ ?tail) True"
        using small unfolding diffLines_def Let_def ab [symmetric] ps [symmetric] m [symmetric] by (simp only: if_True if_False)
      then show ?thesis using e ab by (intro exI conjI) (auto simp: diff_ok_def)
    next
      case False
      have "length ma + 1 \<le> (length ma + 1) * (length mb + 1)" by simp
      then have "length ma < 2 ^ 32" using False by (simp add: MAX_TABLE_CELLS_def)
      then have c: "same_count (?head @ align ma mb @ ?tail) = lcs a b"
        using lcs_prefix [of "take p a" "ma @ tl" "mb @ tl"] lcs_suffix [of ma tl mb] align_same [of ma mb] e by simp
      have "diffLines before after = diff_finish (?head @ align ma mb @ ?tail) False"
        using small False unfolding diffLines_def Let_def ab [symmetric] ps [symmetric] m [symmetric] by (simp only: if_True if_False)
      then show ?thesis using e ab c by (intro exI conjI) (auto simp: diff_ok_def align_sides)
    qed
  qed
qed

section \<open>Numbering\<close>

lemma number_ops: "map dl_op (number_from l r ls) = map dl_op ls" "map dl_text (number_from l r ls) = map dl_text ls"
  by (induction l r ls rule: number_from.induct) (auto split: diff_op.split)

lemma filter_ops: "map dl_op xs = map dl_op ys \<Longrightarrow> map dl_text xs = map dl_text ys \<Longrightarrow>
  map dl_text (filter (\<lambda>l. P (dl_op l)) xs) = map dl_text (filter (\<lambda>l. P (dl_op l)) ys)"
  by (induction xs arbitrary: ys) auto

lemma number_sides:
  "left_texts (number_lines ls) = left_texts ls" "right_texts (number_lines ls) = right_texts ls"
  "same_count (number_lines ls) = same_count ls"
  using filter_ops [OF number_ops, of "\<lambda>p. p \<noteq> AddOp" 0 0 ls] filter_ops [OF number_ops, of "\<lambda>p. p \<noteq> DelOp" 0 0 ls]
    arg_cong [OF filter_ops [OF number_ops, of "\<lambda>p. p = SameOp" 0 0 ls], of length]
  by (simp_all add: number_lines_def left_texts_def right_texts_def same_count_def)

lemma number_left:
  "map dl_left (filter (\<lambda>x. dl_op x \<noteq> AddOp) (number_from l r ls)) = map Some [l + 1 ..< l + 1 + length (left_texts ls)]"
proof (induction l r ls rule: number_from.induct)
  case (2 l r x ls)
  then show ?case by (cases "dl_op x") (simp_all add: left_texts_def upt_conv_Cons del: upt_Suc)
qed simp

lemma number_right:
  "map dl_right (filter (\<lambda>x. dl_op x \<noteq> DelOp) (number_from l r ls)) = map Some [r + 1 ..< r + 1 + length (right_texts ls)]"
proof (induction l r ls rule: number_from.induct)
  case (2 l r x ls)
  then show ?case by (cases "dl_op x") (simp_all add: right_texts_def upt_conv_Cons del: upt_Suc)
qed simp


section \<open>Side by side\<close>

lemma map_filter_map: "List.map_filter f (map g xs) = List.map_filter (f \<circ> g) xs"
  by (induction xs) (auto simp: List.map_filter_simps split: option.split)

lemma change_rows_sides:
  "List.map_filter dr_left (change_rows dels adds) = map (cell_of dl_left) dels"
  "List.map_filter dr_right (change_rows dels adds) = map (cell_of dl_right) adds"
proof -
  have up: "List.map_filter (\<lambda>k. if k < n then Some (f k) else None) [0 ..< n + d] = map f [0 ..< n]" for n d and f :: "nat \<Rightarrow> diff_cell"
    by (induction d) (auto simp: map_filter_def)
  have l: "length dels + (max (length dels) (length adds) - length dels) = max (length dels) (length adds)"
    "length adds + (max (length dels) (length adds) - length adds) = max (length dels) (length adds)" by simp_all
  have n: "map (\<lambda>k. f (xs ! k)) [0 ..< length xs] = map f xs" for f :: "diff_line \<Rightarrow> diff_cell" and xs
    by (rule nth_equalityI) simp_all
  show "List.map_filter dr_left (change_rows dels adds) = map (cell_of dl_left) dels"
    using up [of "length dels" "\<lambda>k. cell_of dl_left (dels ! k)" "max (length dels) (length adds) - length dels"] l(1) n
    by (simp add: change_rows_def map_filter_map comp_def nth_cell_def [abs_def])
  show "List.map_filter dr_right (change_rows dels adds) = map (cell_of dl_right) adds"
    using up [of "length adds" "\<lambda>k. cell_of dl_right (adds ! k)" "max (length dels) (length adds) - length adds"] l(2) n
    by (simp add: change_rows_def map_filter_map comp_def nth_cell_def [abs_def])
qed

lemma map_filter_append: "List.map_filter f (xs @ ys) = List.map_filter f xs @ List.map_filter f ys"
  by (simp add: map_filter_def)

lemma filter_run:
  "filter P ls = filter (\<lambda>x. Q x \<and> P x) (takeWhile Q ls) @ filter P (dropWhile Q ls)"
  by (induction ls) auto

lemma side_columns:
  "List.map_filter dr_left (toSideBySide ls) = map (cell_of dl_left) (filter (\<lambda>l. dl_op l \<noteq> AddOp) ls) \<and>
   List.map_filter dr_right (toSideBySide ls) = map (cell_of dl_right) (filter (\<lambda>l. dl_op l \<noteq> DelOp) ls)"
proof (induction ls rule: toSideBySide.induct)
  case (2 x ls)
  show ?case
  proof (cases "dl_op x = SameOp")
    case True
    then show ?thesis using 2 by (simp add: List.map_filter_simps)
  next
    case False
    let ?Q = "\<lambda>l. dl_op l \<noteq> SameOp" and ?ls = "x # ls"
    have q: "dl_op l = DelOp \<longleftrightarrow> ?Q l \<and> dl_op l \<noteq> AddOp" for l :: diff_line by (cases "dl_op l") simp_all
    have d: "filter (\<lambda>l. dl_op l = DelOp) (takeWhile ?Q ?ls) = filter (\<lambda>l. ?Q l \<and> dl_op l \<noteq> AddOp) (takeWhile ?Q ?ls)"
      "filter (\<lambda>l. dl_op l \<noteq> DelOp) (takeWhile ?Q ?ls) = filter (\<lambda>l. ?Q l \<and> dl_op l \<noteq> DelOp) (takeWhile ?Q ?ls)"
      by (rule filter_cong [OF refl], simp add: q, rule filter_cong [OF refl], drule set_takeWhileD, simp)
    have t: "toSideBySide ?ls = change_rows (filter (\<lambda>l. dl_op l = DelOp) (takeWhile ?Q ?ls)) (filter (\<lambda>l. dl_op l \<noteq> DelOp) (takeWhile ?Q ?ls))
      @ toSideBySide (dropWhile ?Q ?ls)" using False by (simp add: Let_def)
    show ?thesis unfolding t map_filter_append change_rows_sides d
      using "2.IH"(2) [OF False refl] filter_run [of "\<lambda>l. dl_op l \<noteq> AddOp" ?ls ?Q] filter_run [of "\<lambda>l. dl_op l \<noteq> DelOp" ?ls ?Q]
      by (simp only: map_append)
  qed
qed (simp add: List.map_filter_simps)

lemma numbered_cells:
  assumes "map side xs = map Some ns"
  shows "map (cell_of side) xs = zip ns (map dl_text xs)"
  using assms by (induction xs arbitrary: ns) (auto simp: cell_of_def)

section \<open>Counts\<close>

lemma op_counts:
  "length (filter (\<lambda>l. dl_op l = DelOp) ls) = length (left_texts ls) - same_count ls"
  "length (filter (\<lambda>l. dl_op l = AddOp) ls) = length (right_texts ls) - same_count ls"
proof -
  have "length (left_texts ls) = length (filter (\<lambda>l. dl_op l = DelOp) ls) + same_count ls \<and>
    length (right_texts ls) = length (filter (\<lambda>l. dl_op l = AddOp) ls) + same_count ls"
  proof (induction ls)
    case (Cons x ls)
    then show ?case by (cases "dl_op x") (simp_all add: left_texts_def right_texts_def same_count_def)
  qed simp
  then show "length (filter (\<lambda>l. dl_op l = DelOp) ls) = length (left_texts ls) - same_count ls"
    "length (filter (\<lambda>l. dl_op l = AddOp) ls) = length (right_texts ls) - same_count ls" by simp_all
qed

section \<open>Folding\<close>

definition shown :: "'a list \<Rightarrow> 'a folded_row \<Rightarrow> 'a list" where
  "shown rows f = (case f of RealRow r \<Rightarrow> [r] | Fold hidden start \<Rightarrow> take hidden (drop start rows))"

lemma shown_rows: "concat (map (shown rows) (map RealRow xs)) = xs"
  by (induction xs) (auto simp: shown_def)

lemma take_split: "m \<le> n \<Longrightarrow> take m xs @ take (n - m) (drop m xs) = take n xs"
  by (metis le_add_diff_inverse take_add)

lemma fold_run_shown:
  assumes "index \<le> stop" "stop \<le> length rows"
  shows "concat (map (shown rows) (fold_run rows c index stop)) = take (stop - index) (drop index rows)"
proof -
  define l t where lt: "l = (if index = 0 then 0 else c)" "t = (if stop = length rows then 0 else c)"
  show ?thesis
  proof (cases "stop - index \<le> l + t + 1")
    case True
    then show ?thesis unfolding fold_run_def Let_def lt [symmetric] by (simp only: if_True shown_rows)
  next
    case False
    let ?d = "drop index rows" and ?r = "stop - index"
    have k: "?r - l - t = ?r - t - l" "?r - (?r - t) = t" "l \<le> ?r - t" "?r - t \<le> ?r" using False by simp_all
    have "take l ?d @ take (?r - l - t) (drop l ?d) @ take t (drop (?r - t) ?d) = take ?r ?d"
      using take_split [OF k(3), of ?d] take_split [OF k(4), of ?d] unfolding k(1,2) append_assoc [symmetric] by argo
    then show ?thesis using False unfolding fold_run_def Let_def lt [symmetric]
      by (simp add: shown_rows shown_def add.commute del: map_map)
  qed
qed

definition fold_clear :: "('a \<Rightarrow> row_kind) \<Rightarrow> 'a list \<Rightarrow> nat \<Rightarrow> 'a folded_row \<Rightarrow> bool" where
  "fold_clear kind rows c f =
     (case f of RealRow r \<Rightarrow> True
      | Fold hidden start \<Rightarrow> 2 \<le> hidden \<and> start + hidden \<le> length rows \<and>
          (\<forall>i < length rows. kind (rows ! i) = ChangeRow \<longrightarrow> i + c < start \<or> start + hidden + c \<le> i))"

lemma real_row: "shown rows (RealRow r) = [r]" "fold_clear kind rows c (RealRow r)"
  by (simp_all add: shown_def fold_clear_def)

lemma fold_run_clear:
  assumes "index \<le> stop" "stop \<le> length rows" "\<forall>i. index \<le> i \<and> i < stop \<longrightarrow> kind (rows ! i) = SameRow"
    "f \<in> set (fold_run rows c index stop)"
  shows "fold_clear kind rows c f"
proof -
  define l t where lt: "l = (if index = 0 then 0 else c)" "t = (if stop = length rows then 0 else c)"
  have "f = Fold (stop - index - l - t) (index + l) \<and> l + t + 1 < stop - index \<or> (\<exists>r. f = RealRow r)"
    using assms(4) unfolding fold_run_def Let_def lt [symmetric] by (auto split: if_splits)
  moreover have "i + c < index + l \<or> stop - t + c \<le> i"
    if "i < length rows" "kind (rows ! i) = ChangeRow" "t \<le> stop" for i
  proof -
    have "i < index \<or> stop \<le> i" using assms(3) that(2) by (metis not_le row_kind.distinct(1))
    then show ?thesis using that(1,3) lt by (auto split: if_splits)
  qed
  ultimately show ?thesis using assms(1,2) by (auto simp: fold_clear_def)
qed

lemma run_end:
  fixes rows :: "'a list" and kind :: "'a \<Rightarrow> row_kind"
  assumes "index \<le> length rows"
  defines "stop \<equiv> index + length (takeWhile (\<lambda>r. kind r = SameRow) (drop index rows))"
  shows "index \<le> stop" "stop \<le> length rows" "\<forall>i. index \<le> i \<and> i < stop \<longrightarrow> kind (rows ! i) = SameRow"
proof -
  show "index \<le> stop" by (simp add: stop_def)
  show "stop \<le> length rows" using length_takeWhile_le [of "\<lambda>r. kind r = SameRow" "drop index rows"] assms by simp
  show "\<forall>i. index \<le> i \<and> i < stop \<longrightarrow> kind (rows ! i) = SameRow"
  proof (intro allI impI)
    fix i assume i: "index \<le> i \<and> i < stop"
    let ?tw = "takeWhile (\<lambda>r. kind r = SameRow) (drop index rows)"
    have k: "i - index < length ?tw" using i unfolding stop_def by arith
    then have "kind (?tw ! (i - index)) = SameRow" using nth_mem set_takeWhileD by fast
    then show "kind (rows ! i) = SameRow" using takeWhile_nth [OF k] i assms(1) by simp
  qed
qed

lemma fold_from_ok:
  "index \<le> length rows \<Longrightarrow>
   concat (map (shown rows) (fold_from kind rows c index)) = drop index rows \<and> list_all (fold_clear kind rows c) (fold_from kind rows c index)"
proof (induction kind rows c index rule: fold_from.induct)
  case (1 kind rows c index)
  let ?stop = "index + length (takeWhile (\<lambda>r. kind r = SameRow) (drop index rows))"
  show ?case
  proof (cases "index < length rows")
    case in_range: True
    show ?thesis
    proof (cases "kind (rows ! index) = ChangeRow")
      case True
      then show ?thesis using "1.IH"(1) [OF in_range True] in_range
        by (subst (1 2) fold_from.simps) (simp add: real_row Cons_nth_drop_Suc)
    next
      case False
      note e = run_end [OF less_imp_le [OF in_range], of kind]
      have eq: "fold_from kind rows c index = fold_run rows c index ?stop @ fold_from kind rows c ?stop"
        using in_range False by (subst fold_from.simps) (simp add: Let_def)
      have "list_all (fold_clear kind rows c) (fold_run rows c index ?stop)" using fold_run_clear [OF e] by (simp add: list_all_iff)
      moreover have "take (?stop - index) (drop index rows) @ drop ?stop rows = drop index rows"
        by (metis add_diff_cancel_left' append_take_drop_id drop_drop add.commute)
      ultimately show ?thesis unfolding eq using "1.IH"(2) [OF in_range False refl e(2)] fold_run_shown [OF e(1,2)]
        by (simp only: map_append concat_append list_all_append)
    qed
  next
    case False
    then show ?thesis using "1.prems" by (subst (1 2) fold_from.simps) simp
  qed
qed

section \<open>Properties\<close>

text \<open>C40: the diff loses and invents nothing. For any two texts the lines that are not additions are
  the lines of the first text and carry the numbers $1, 2, \ldots$ on the left; the lines that are not
  removals are those of the second text, numbered on the right; and the counts of removed and of added
  lines are what remains of each text without its unchanged lines.\<close>

theorem diff_reconstructs:
  "let r = diffLines before after;
       L = filter (\<lambda>l. dl_op l \<noteq> AddOp) (df_lines r);
       R = filter (\<lambda>l. dl_op l \<noteq> DelOp) (df_lines r)
   in map dl_text L = splitText before \<and> map dl_text R = splitText after \<and>
      map dl_left L = map Some [1 ..< length (splitText before) + 1] \<and>
      map dl_right R = map Some [1 ..< length (splitText after) + 1] \<and>
      df_removed r = length (splitText before) - same_count (df_lines r) \<and>
      df_added r = length (splitText after) - same_count (df_lines r)"
proof -
  obtain ls tr where d: "diffLines before after = diff_finish ls tr" "diff_ok (splitText before) (splitText after) tr ls"
    using diff_script by blast
  show ?thesis using d(2) number_left [of 0 0 ls] number_right [of 0 0 ls] number_sides [of ls] op_counts [of ls]
    unfolding d(1) Let_def by (simp add: diff_finish_def diff_ok_def number_lines_def left_texts_def right_texts_def)
qed

text \<open>C39: an untruncated diff is minimal. It keeps as many lines as the longest common subsequence
  of the two texts' lines has: no common subsequence is longer than its unchanged lines, and one is
  as long. In particular identical texts give unchanged lines only.\<close>

theorem diff_minimal:
  assumes "\<not> df_truncated (diffLines before after)"
  shows "(\<forall>zs. subseq zs (splitText before) \<and> subseq zs (splitText after) \<longrightarrow>
      length zs \<le> same_count (df_lines (diffLines before after))) \<and>
    (\<exists>zs. subseq zs (splitText before) \<and> subseq zs (splitText after) \<and>
      length zs = same_count (df_lines (diffLines before after)))"
proof -
  obtain ls tr where d: "diffLines before after = diff_finish ls tr" "diff_ok (splitText before) (splitText after) tr ls"
    using diff_script by blast
  then have "same_count (df_lines (diffLines before after)) = lcs (splitText before) (splitText after)"
    using assms by (simp add: diff_finish_def diff_ok_def number_sides)
  then show ?thesis using lcs_upper lcs_attained by metis
qed

theorem diff_minimal_witness:
  "\<not> df_truncated (diffLines [97, 10, 98] [98, 10, 97]) \<and> \<not> subseq [[97], [98]] (splitText [98, 10, 97]) \<and>
   (\<exists>zs. subseq zs (splitText [97, 10, 98]) \<and> subseq zs (splitText [98, 10, 97]) \<and>
      length zs = same_count (df_lines (diffLines [97, 10, 98] [98, 10, 97])))"
proof -
  have s: "splitText [97, 10, 98] = [[97], [98]]" "splitText [98, 10, 97] = [[98], [97]]" by (simp_all add: splitText_def)
  have t: "\<not> df_truncated (diffLines [97, 10, 98] [98, 10, 97])"
    by (simp add: diffLines_def s Let_def common_suffix_len_def diff_finish_def DIFF_MAX_BYTES_def HIGHLIGHT_MAX_BYTES_def MAX_TABLE_CELLS_def)
  show ?thesis using diff_minimal [OF t] t s(2) by simp
qed

text \<open>The side-by-side view shows both texts in full. The cells of the left column, read from top
  to bottom, are the lines of the first text with their numbers, and those of the right column the
  lines of the second.\<close>

theorem side_by_side_columns:
  "let rows = toSideBySide (df_lines (diffLines before after))
   in List.map_filter dr_left rows = zip [1 ..< length (splitText before) + 1] (splitText before) \<and>
      List.map_filter dr_right rows = zip [1 ..< length (splitText after) + 1] (splitText after)"
proof -
  obtain ls tr where d: "diffLines before after = diff_finish ls tr" "diff_ok (splitText before) (splitText after) tr ls"
    using diff_script by blast
  show ?thesis using d(2) number_sides [of ls] numbered_cells [OF number_left [of 0 0 ls]] numbered_cells [OF number_right [of 0 0 ls]]
    unfolding d(1) Let_def by (simp add: diff_finish_def diff_ok_def side_columns number_lines_def left_texts_def right_texts_def)
qed

text \<open>Folding hides unchanged rows only. Putting the hidden rows back gives the rows that were
  folded, and each placeholder hides at least two rows, none of which is a change or within
  \<open>context\<close> rows of one.\<close>

theorem fold_hides_unchanged:
  "concat (map (shown rows) (foldUnchanged kind rows c)) = rows \<and>
   list_all (fold_clear kind rows c) (foldUnchanged kind rows c)"
  using fold_from_ok [of 0 rows kind c] by (simp add: foldUnchanged_def)

text \<open>At the edges of a diff shorter runs are folded than between changes: with the default of three
  rows of context a run of seven stays between two changes, a leading run of five does not.\<close>

lemma edge_run_folded:
  "foldUnchanged id (ChangeRow # replicate 7 SameRow @ [ChangeRow]) 3 = map RealRow (ChangeRow # replicate 7 SameRow @ [ChangeRow])"
  "foldUnchanged id (replicate 5 SameRow @ [ChangeRow]) 3 = Fold 2 0 # map RealRow (replicate 3 SameRow @ [ChangeRow])"
  by code_simp+

end
