(* ===== verification/Utf8.thy ===== *)
theory Utf8
  imports Json_Text
begin

text \<open>
  Texts on both sides of the wire. The console's texts are lists of UTF-16 code units; \<open>utf8\<close> is what
  \<open>TextEncoder\<close> makes of them, a lone surrogate becoming U+FFFD. The server's strings are lists of
  bytes; \<open>go_runes\<close> is Go's iteration over a string, where an invalid byte reads as U+FFFD. The lemmas
  carry a character rule that admits ASCII only from one side to the other.
\<close>

type_synonym bytes = "nat list"

section \<open>Encoding\<close>

definition utf8_three :: "nat \<Rightarrow> bytes" where
  "utf8_three c =
     (if 55296 \<le> c \<and> c < 57344 then [239, 191, 189]
      else [224 + c div 4096, 128 + c div 64 mod 64, 128 + c mod 64])"

definition utf8_pair :: "nat \<Rightarrow> nat \<Rightarrow> bytes" where
  "utf8_pair c d =
     (let p = 65536 + (c - 55296) * 1024 + (d - 56320)
      in [240 + p div 262144, 128 + p div 4096 mod 64, 128 + p div 64 mod 64, 128 + p mod 64])"

fun utf8 :: "units \<Rightarrow> bytes" where
  "utf8 [] = []"
| "utf8 (c # s) =
     (if c < 128 then c # utf8 s
      else if c < 2048 then [192 + c div 64, 128 + c mod 64] @ utf8 s
      else case s of
          d # s' \<Rightarrow>
            if 55296 \<le> c \<and> c < 56320 \<and> 56320 \<le> d \<and> d < 57344 then utf8_pair c d @ utf8 s'
            else utf8_three c @ utf8 s
        | [] \<Rightarrow> utf8_three c)"

section \<open>Iteration over a Go string\<close>

definition cont_byte :: "nat \<Rightarrow> bool" where
  "cont_byte b \<longleftrightarrow> 128 \<le> b \<and> b < 192"

text \<open>\<open>utf8.DecodeRuneInString\<close>: the rune that starts with \<open>b\<close> and how many of the following bytes it takes.\<close>

definition decode_rune :: "nat \<Rightarrow> bytes \<Rightarrow> nat \<times> nat" where
  "decode_rune b bs =
     (if b < 128 then (b, 0)
      else if 194 \<le> b \<and> b < 224 \<and> 1 \<le> length bs \<and> cont_byte (bs ! 0) then ((b - 192) * 64 + (bs ! 0 - 128), 1)
      else if 224 \<le> b \<and> b < 240 \<and> 2 \<le> length bs \<and> cont_byte (bs ! 0) \<and> cont_byte (bs ! 1) \<and>
              (b = 224 \<longrightarrow> 160 \<le> bs ! 0) \<and> (b = 237 \<longrightarrow> bs ! 0 < 160)
      then ((b - 224) * 4096 + (bs ! 0 - 128) * 64 + (bs ! 1 - 128), 2)
      else if 240 \<le> b \<and> b < 245 \<and> 3 \<le> length bs \<and> cont_byte (bs ! 0) \<and> cont_byte (bs ! 1) \<and> cont_byte (bs ! 2) \<and>
              (b = 240 \<longrightarrow> 144 \<le> bs ! 0) \<and> (b = 244 \<longrightarrow> bs ! 0 < 144)
      then ((b - 240) * 262144 + (bs ! 0 - 128) * 4096 + (bs ! 1 - 128) * 64 + (bs ! 2 - 128), 3)
      else (65533, 0))"

function go_runes :: "bytes \<Rightarrow> nat list" where
  "go_runes [] = []"
| "go_runes (b # bs) = fst (decode_rune b bs) # go_runes (drop (snd (decode_rune b bs)) bs)"
  by pat_completeness auto
termination
  by (relation "measure length") auto

section \<open>Splitting\<close>

text \<open>\<open>split\<close> in JavaScript and \<open>strings.Split\<close> in Go, at a separator of one character.\<close>

fun split_on :: "nat \<Rightarrow> nat list \<Rightarrow> nat list list" where
  "split_on c [] = [[]]"
| "split_on c (x # xs) =
     (if x = c then [] # split_on c xs
      else case split_on c xs of l # ls \<Rightarrow> (x # l) # ls | [] \<Rightarrow> [[x]])"

section \<open>ASCII\<close>

definition ascii :: "nat list \<Rightarrow> bool" where
  "ascii s \<longleftrightarrow> (\<forall>c \<in> set s. c < 128)"

lemma ascii_simps [simp]: "ascii []" "ascii (c # s) \<longleftrightarrow> c < 128 \<and> ascii s"
  by (auto simp: ascii_def)

lemma ascii_append: "ascii (s @ t) \<longleftrightarrow> ascii s \<and> ascii t"
  by (auto simp: ascii_def)

lemma length_utf8: "length (utf8 s) = byteLength s"
proof (induction s rule: utf8.induct)
  case (2 c s)
  then show ?case unfolding utf8.simps(2) byteLength.simps(2)
    by (cases s) (simp_all add: utf8_three_def utf8_pair_def Let_def del: utf8.simps(2) byteLength.simps(2))
qed simp

lemma utf8_ascii: "ascii s \<Longrightarrow> utf8 s = s"
  by (induction s) auto

lemma ascii_utf8: "ascii (utf8 s) \<longleftrightarrow> ascii s"
proof (induction s rule: utf8.induct)
  case (2 c s)
  then show ?case unfolding utf8.simps(2)
    by (cases s) (simp_all add: utf8_three_def utf8_pair_def Let_def ascii_append del: utf8.simps(2))
qed simp

lemma utf8_Nil: "utf8 s = [] \<longleftrightarrow> s = []"
  by (cases s) (auto simp: utf8_three_def utf8_pair_def Let_def split: list.split)

lemma decode_rune_ascii: "b < 128 \<Longrightarrow> decode_rune b bs = (b, 0)"
  by (simp add: decode_rune_def)

lemma decode_rune_other: "128 \<le> b \<Longrightarrow> 128 \<le> fst (decode_rune b bs)"
proof -
  assume b: "128 \<le> b"
  have two: "128 \<le> (b - 192) * 64" if "194 \<le> b" using that by linarith
  have three: "128 \<le> (b - 224) * 4096 + (x - 128) * 64 + y" if "224 \<le> b" "b = 224 \<longrightarrow> 160 \<le> x" for x y
    using that by (cases "b = 224") linarith+
  have four: "128 \<le> (b - 240) * 262144 + (x - 128) * 4096 + y + z" if "240 \<le> b" "b = 240 \<longrightarrow> 144 \<le> x" for x y z
    using that by (cases "b = 240") linarith+
  show ?thesis unfolding decode_rune_def using b two three four by (auto simp: trans_le_add1)
qed

lemma go_runes_ascii: "ascii s \<Longrightarrow> go_runes s = s"
  by (induction s) (auto simp: decode_rune_ascii)

lemma ascii_go_runes: "ascii (go_runes s) \<longleftrightarrow> ascii s"
proof (induction s rule: go_runes.induct)
  case (2 b bs)
  show ?case
  proof (cases "b < 128")
    case True
    then show ?thesis using 2 by (simp add: decode_rune_ascii)
  next
    case False
    then show ?thesis using decode_rune_other [of b bs] by simp
  qed
qed simp

text \<open>A rule on runes that admits ASCII only holds of the encoding exactly when it holds of the text.\<close>

lemma ascii_rule:
  assumes "\<And>c. P c \<Longrightarrow> c < 128"
  shows "list_all P (go_runes (utf8 s)) \<longleftrightarrow> list_all P s"
proof
  assume "list_all P (go_runes (utf8 s))"
  then have "ascii (go_runes (utf8 s))" using assms by (auto simp: list_all_iff ascii_def)
  then have "ascii s" unfolding ascii_go_runes ascii_utf8 .
  then show "list_all P s" using \<open>list_all P (go_runes (utf8 s))\<close> by (simp add: utf8_ascii go_runes_ascii)
next
  assume p: "list_all P s"
  then have "ascii s" using assms by (auto simp: list_all_iff ascii_def)
  then show "list_all P (go_runes (utf8 s))" using p by (simp add: utf8_ascii go_runes_ascii)
qed

lemma split_on_nonempty: "split_on c s \<noteq> []"
  by (cases s) (auto split: list.split)

lemma split_on_ascii: "ascii s \<longleftrightarrow> (\<forall>l \<in> set (split_on c s). ascii l)" if "c < 128"
proof (induction s)
  case (Cons x s)
  then show ?case using split_on_nonempty [of c s] that by (auto split: list.split)
qed simp

end
