(* ===== verification/Keyutil.thy ===== *)
theory Keyutil
  imports Utf8
begin

text \<open>
  The server's naming rules, \<^verbatim>\<open>internal/keyutil/keyutil.go\<close>: environments, applications, relative
  keys and the display form of a resource path. A Go string is the list of its bytes, an error a value
  that says which check failed. The scope check of list requests, which rests on them, is here as well.
\<close>

section \<open>Labels\<close>

datatype label_error = LabelEmpty | LabelTooLong | LabelDash | LabelRune nat

datatype key_error = KeyEmpty | KeyTooLong | KeySlash | SegmentEmpty | SegmentDots bytes | SegmentRune bytes nat

datatype go_name_error = EnvError label_error | AppError label_error | KeyError key_error | NamespaceForm | PathStart | PathForm

record go_namespace =
  gn_env :: bytes
  gn_app :: bytes

record go_ref =
  gr_ns :: go_namespace
  gr_key :: bytes

definition MaxLabelLength :: nat where "MaxLabelLength = 64"

definition MaxKeyLength :: nat where "MaxKeyLength = 256"

definition isLabelRune :: "nat \<Rightarrow> bool" where
  "isLabelRune r \<longleftrightarrow> 97 \<le> r \<and> r \<le> 122 \<or> 48 \<le> r \<and> r \<le> 57 \<or> r = 45"

text \<open>The first element that fails a check, as the loops over runes look for it.\<close>

fun first_bad :: "('a \<Rightarrow> bool) \<Rightarrow> 'a list \<Rightarrow> 'a option" where
  "first_bad P [] = None"
| "first_bad P (x # xs) = (if P x then first_bad P xs else Some x)"

definition go_validateLabel :: "bytes \<Rightarrow> label_error + unit" where
  "go_validateLabel s =
     (if s = [] then Inl LabelEmpty
      else if MaxLabelLength < length s then Inl LabelTooLong
      else if hd s = 45 \<or> last s = 45 then Inl LabelDash
      else case first_bad isLabelRune (go_runes s) of Some r \<Rightarrow> Inl (LabelRune r) | None \<Rightarrow> Inr ())"

definition ValidateEnv :: "bytes \<Rightarrow> go_name_error + unit" where
  "ValidateEnv env = (case go_validateLabel env of Inl e \<Rightarrow> Inl (EnvError e) | Inr _ \<Rightarrow> Inr ())"

definition ValidateApp :: "bytes \<Rightarrow> go_name_error + unit" where
  "ValidateApp app = (case go_validateLabel app of Inl e \<Rightarrow> Inl (AppError e) | Inr _ \<Rightarrow> Inr ())"

definition ValidateNamespace :: "go_namespace \<Rightarrow> go_name_error + unit" where
  "ValidateNamespace ns = sum_bind (ValidateEnv (gn_env ns)) (\<lambda>_. ValidateApp (gn_app ns))"

section \<open>Keys\<close>

definition isKeyRune :: "nat \<Rightarrow> bool" where
  "isKeyRune r \<longleftrightarrow> 97 \<le> r \<and> r \<le> 122 \<or> 48 \<le> r \<and> r \<le> 57 \<or> r = 45 \<or> r = 95 \<or> r = 46"

definition validateKeySegment :: "bytes \<Rightarrow> key_error + unit" where
  "validateKeySegment s =
     (if s = [] then Inl SegmentEmpty
      else if s = lit ''.'' \<or> s = lit ''..'' then Inl (SegmentDots s)
      else case first_bad isKeyRune (go_runes s) of Some r \<Rightarrow> Inl (SegmentRune s r) | None \<Rightarrow> Inr ())"

fun validate_segments :: "bytes list \<Rightarrow> key_error + unit" where
  "validate_segments [] = Inr ()"
| "validate_segments (s # ss) = sum_bind (validateKeySegment s) (\<lambda>_. validate_segments ss)"

definition ValidateKey :: "bytes \<Rightarrow> key_error + unit" where
  "ValidateKey key =
     (if key = [] then Inl KeyEmpty
      else if MaxKeyLength < length key then Inl KeyTooLong
      else if hd key = 47 \<or> last key = 47 then Inl KeySlash
      else validate_segments (split_on 47 key))"

section \<open>Display forms\<close>

text \<open>\<open>strings.Cut\<close> at a slash.\<close>

definition cut_slash :: "bytes \<Rightarrow> (bytes \<times> bytes) option" where
  "cut_slash s = (if 47 \<in> set s then Some (takeWhile (\<lambda>b. b \<noteq> 47) s, tl (dropWhile (\<lambda>b. b \<noteq> 47) s)) else None)"

definition ParseNamespace :: "bytes \<Rightarrow> go_name_error + go_namespace" where
  "ParseNamespace s =
     (case cut_slash s of
        None \<Rightarrow> Inl NamespaceForm
      | Some (env, app) \<Rightarrow>
          let ns = \<lparr>gn_env = env, gn_app = app\<rparr> in sum_bind (ValidateNamespace ns) (\<lambda>_. Inr ns))"

definition SplitDisplayPath :: "bytes \<Rightarrow> go_name_error + go_ref" where
  "SplitDisplayPath p =
     (if p = [] \<or> hd p \<noteq> 47 then Inl PathStart
      else case cut_slash (tl p) of
        None \<Rightarrow> Inl PathForm
      | Some (env, rest) \<Rightarrow>
          (case cut_slash rest of
             None \<Rightarrow> Inl PathForm
           | Some (app, key) \<Rightarrow>
               if env = [] \<or> app = [] \<or> key = [] then Inl PathForm
               else
                 let ns = \<lparr>gn_env = env, gn_app = app\<rparr>
                 in sum_bind (ValidateNamespace ns) (\<lambda>_.
                    case ValidateKey key of Inl e \<Rightarrow> Inl (KeyError e) | Inr _ \<Rightarrow> Inr \<lparr>gr_ns = ns, gr_key = key\<rparr>)))"

text \<open>
  The scope of a list request (\<^verbatim>\<open>internal/core/helpers.go\<close>): a namespace, and a key prefix that may be empty.
  Every failure is reported as an invalid argument.
\<close>

datatype scope_error = InvalidArgument go_name_error

definition validateListScope :: "go_namespace \<Rightarrow> bytes \<Rightarrow> scope_error + unit" where
  "validateListScope ns keyPrefix =
     (case ValidateNamespace ns of
        Inl e \<Rightarrow> Inl (InvalidArgument e)
      | Inr _ \<Rightarrow>
          if keyPrefix \<noteq> [] then
            (case ValidateKey keyPrefix of Inl e \<Rightarrow> Inl (InvalidArgument (KeyError e)) | Inr _ \<Rightarrow> Inr ())
          else Inr ())"

section \<open>What the rules accept\<close>

lemma first_bad_None: "first_bad P xs = None \<longleftrightarrow> list_all P xs"
  by (induction xs) auto

definition label_ok :: "nat list \<Rightarrow> bool" where
  "label_ok s \<longleftrightarrow> s \<noteq> [] \<and> length s \<le> MaxLabelLength \<and> hd s \<noteq> 45 \<and> last s \<noteq> 45 \<and> list_all isLabelRune s"

definition segment_ok :: "nat list \<Rightarrow> bool" where
  "segment_ok s \<longleftrightarrow> s \<noteq> [] \<and> s \<noteq> [46] \<and> s \<noteq> [46, 46] \<and> list_all isKeyRune s"

definition key_ok :: "nat list \<Rightarrow> bool" where
  "key_ok s \<longleftrightarrow> length s \<le> MaxKeyLength \<and> list_all segment_ok (split_on 47 s)"

lemma isLabelRune_ascii: "isLabelRune c \<Longrightarrow> c < 128"
  by (auto simp: isLabelRune_def)

lemma isKeyRune_ascii: "isKeyRune c \<Longrightarrow> c < 128"
  by (auto simp: isKeyRune_def)

lemma list_all_ascii: "list_all P s \<Longrightarrow> (\<And>c. P c \<Longrightarrow> c < 128) \<Longrightarrow> ascii s"
  by (auto simp: list_all_iff ascii_def)

lemma runes_all:
  assumes "\<And>c. P c \<Longrightarrow> c < 128"
  shows "list_all P (go_runes s) \<longleftrightarrow> list_all P s"
proof
  assume a: "list_all P (go_runes s)"
  then have "ascii s" using list_all_ascii [OF a] assms ascii_go_runes by blast
  then show "list_all P s" using a by (simp add: go_runes_ascii)
next
  assume a: "list_all P s"
  then show "list_all P (go_runes s)" using list_all_ascii [OF a] assms by (simp add: go_runes_ascii)
qed

lemma go_validateLabel_ok: "go_validateLabel s = Inr () \<longleftrightarrow> label_ok s"
  using runes_all [of isLabelRune s, OF isLabelRune_ascii] first_bad_None [of isLabelRune "go_runes s"]
  by (auto simp: go_validateLabel_def label_ok_def not_less split: option.split)

lemma validateKeySegment_ok: "validateKeySegment s = Inr () \<longleftrightarrow> segment_ok s"
  using runes_all [of isKeyRune s, OF isKeyRune_ascii] first_bad_None [of isKeyRune "go_runes s"]
  by (auto simp: validateKeySegment_def segment_ok_def lit_def split: option.split)

lemma validate_segments_ok: "validate_segments ss = Inr () \<longleftrightarrow> list_all segment_ok ss"
proof (induction ss)
  case (Cons s ss)
  then show ?case using validateKeySegment_ok [of s] by (cases "validateKeySegment s") auto
qed simp

lemma split_on_hd: "s \<noteq> [] \<Longrightarrow> hd s = c \<Longrightarrow> [] \<in> set (split_on c s)"
  by (cases s) auto

lemma split_on_snoc: "split_on c (s @ [c]) = split_on c s @ [[]]"
proof (induction s)
  case (Cons x s)
  then show ?case using split_on_nonempty [of c s] by (cases "split_on c s") auto
qed simp

lemma split_on_last: "s \<noteq> [] \<Longrightarrow> last s = c \<Longrightarrow> [] \<in> set (split_on c s)"
  using split_on_snoc [of c "butlast s"] append_butlast_last_id [of s] by simp

lemma ValidateKey_ok: "ValidateKey s = Inr () \<longleftrightarrow> key_ok s"
proof -
  have "\<not> list_all segment_ok (split_on 47 s)" if "s = [] \<or> hd s = 47 \<or> last s = 47"
    using that split_on_hd [of s 47] split_on_last [of s 47] by (cases "s = []") (auto simp: list_all_iff segment_ok_def)
  then show ?thesis using validate_segments_ok [of "split_on 47 s"] by (auto simp: ValidateKey_def key_ok_def not_less)
qed

end
