(* ===== verification/Policy.thy ===== *)
theory Policy
  imports Keyutil
begin

text \<open>
  The server's authorization, \<^verbatim>\<open>internal/policy/policy.go\<close>: rules that pair an operation pattern with
  a namespace scope, deny before the implicit home grant before allow, and the normalization of a
  policy before it is stored. The lemmas state the precedence over patterns spelled out, and that a
  stored policy is well formed, normal and says what its author wrote.
\<close>

section \<open>Operations\<close>

definition OpParameterRead :: bytes where "OpParameterRead = lit ''parameter:read''"
definition OpParameterWrite :: bytes where "OpParameterWrite = lit ''parameter:write''"
definition OpParameterList :: bytes where "OpParameterList = lit ''parameter:list''"
definition OpParameterDelete :: bytes where "OpParameterDelete = lit ''parameter:delete''"
definition OpSecretRead :: bytes where "OpSecretRead = lit ''secret:read''"
definition OpSecretWrite :: bytes where "OpSecretWrite = lit ''secret:write''"
definition OpSecretList :: bytes where "OpSecretList = lit ''secret:list''"
definition OpSecretDisable :: bytes where "OpSecretDisable = lit ''secret:disable''"
definition OpSecretDestroy :: bytes where "OpSecretDestroy = lit ''secret:destroy''"
definition OpSecretPromote :: bytes where "OpSecretPromote = lit ''secret:promote''"
definition OpSecretBindingManage :: bytes where "OpSecretBindingManage = lit ''secret:binding-manage''"
definition OpConfigurationReleaseCreate :: bytes where "OpConfigurationReleaseCreate = lit ''configuration-release:create''"
definition OpConfigurationReleaseRead :: bytes where "OpConfigurationReleaseRead = lit ''configuration-release:read''"
definition OpConfigurationReleaseValidate :: bytes where "OpConfigurationReleaseValidate = lit ''configuration-release:validate''"
definition OpConfigurationReleaseActivate :: bytes where "OpConfigurationReleaseActivate = lit ''configuration-release:activate''"
definition OpConfigurationReleaseList :: bytes where "OpConfigurationReleaseList = lit ''configuration-release:list''"
definition OpConfigurationReleaseWatch :: bytes where "OpConfigurationReleaseWatch = lit ''configuration-release:watch''"
definition OpConfigurationReleaseVerifyDefaults :: bytes where "OpConfigurationReleaseVerifyDefaults = lit ''configuration-release:verify-defaults''"
definition OpConfigurationReleaseInstanceManage :: bytes where "OpConfigurationReleaseInstanceManage = lit ''configuration-release:instance-manage''"
definition OpAdminNamespaceCreate :: bytes where "OpAdminNamespaceCreate = lit ''admin:namespace:create''"
definition OpAdminNamespaceUpdate :: bytes where "OpAdminNamespaceUpdate = lit ''admin:namespace:update''"
definition OpAdminNamespaceDelete :: bytes where "OpAdminNamespaceDelete = lit ''admin:namespace:delete''"
definition OpAdminIdentityCert :: bytes where "OpAdminIdentityCert = lit ''admin:identity:cert''"
definition OpAdminPolicyWrite :: bytes where "OpAdminPolicyWrite = lit ''admin:policy:write''"
definition OpAdminAuditRead :: bytes where "OpAdminAuditRead = lit ''admin:audit:read''"
definition OpAdminKeyRotate :: bytes where "OpAdminKeyRotate = lit ''admin:key:rotate''"

lemmas op_defs = OpParameterRead_def OpParameterWrite_def OpParameterList_def OpParameterDelete_def
  OpSecretRead_def OpSecretWrite_def OpSecretList_def OpSecretDisable_def OpSecretDestroy_def OpSecretPromote_def
  OpSecretBindingManage_def OpConfigurationReleaseCreate_def OpConfigurationReleaseRead_def OpConfigurationReleaseValidate_def
  OpConfigurationReleaseActivate_def OpConfigurationReleaseList_def OpConfigurationReleaseWatch_def
  OpConfigurationReleaseVerifyDefaults_def OpConfigurationReleaseInstanceManage_def OpAdminNamespaceCreate_def
  OpAdminNamespaceUpdate_def OpAdminNamespaceDelete_def OpAdminIdentityCert_def OpAdminPolicyWrite_def OpAdminAuditRead_def OpAdminKeyRotate_def

definition knownOperations :: "bytes list" where
  "knownOperations =
     [OpParameterRead, OpParameterWrite, OpParameterList, OpParameterDelete, OpSecretRead, OpSecretWrite, OpSecretList,
      OpSecretDisable, OpSecretDestroy, OpSecretPromote, OpSecretBindingManage, OpConfigurationReleaseInstanceManage,
      OpConfigurationReleaseCreate, OpConfigurationReleaseRead, OpConfigurationReleaseValidate, OpConfigurationReleaseActivate,
      OpConfigurationReleaseList, OpConfigurationReleaseWatch, OpConfigurationReleaseVerifyDefaults, OpAdminNamespaceCreate,
      OpAdminNamespaceUpdate, OpAdminNamespaceDelete, OpAdminIdentityCert, OpAdminPolicyWrite, OpAdminAuditRead, OpAdminKeyRotate]"

definition implicitHomeOps :: "bytes list" where
  "implicitHomeOps =
     [OpParameterRead, OpParameterList, OpSecretRead, OpSecretList, OpConfigurationReleaseRead, OpConfigurationReleaseWatch]"

section \<open>Rules and policies\<close>

record policy_rule =
  pr_operation :: bytes
  pr_env :: bytes
  pr_app :: bytes

record policy =
  po_name :: bytes
  po_subject :: bytes
  po_allow :: "policy_rule list"
  po_deny :: "policy_rule list"

definition star :: bytes where "star = lit ''*''"

text \<open>\<open>strings.CutSuffix (s, ":*")\<close>.\<close>

definition cut_wildcard :: "bytes \<Rightarrow> bytes option" where
  "cut_wildcard s = (if 2 \<le> length s \<and> drop (length s - 2) s = lit '':*'' then Some (take (length s - 2) s) else None)"

definition operationMatches :: "bytes \<Rightarrow> bytes \<Rightarrow> bool" where
  "operationMatches pattern p \<longleftrightarrow>
     (if pattern = star then True
      else case cut_wildcard pattern of
        Some cat \<Rightarrow> take (length cat + 1) p = cat @ [58]
      | None \<Rightarrow> pattern = p)"

definition labelMatches :: "bytes \<Rightarrow> bytes \<Rightarrow> bool" where
  "labelMatches pattern v \<longleftrightarrow> pattern = star \<or> pattern = v"

definition ruleMatches :: "policy_rule \<Rightarrow> bytes \<Rightarrow> go_namespace \<Rightarrow> bool" where
  "ruleMatches r p ns \<longleftrightarrow> operationMatches (pr_operation r) p \<and> labelMatches (pr_env r) (gn_env ns) \<and> labelMatches (pr_app r) (gn_app ns)"

definition deniedBy :: "policy list \<Rightarrow> bytes \<Rightarrow> go_namespace \<Rightarrow> bool" where
  "deniedBy policies p ns \<longleftrightarrow> list_ex (\<lambda>q. list_ex (\<lambda>r. ruleMatches r p ns) (po_deny q)) policies"

definition allowedBy :: "policy list \<Rightarrow> bytes \<Rightarrow> go_namespace \<Rightarrow> bool" where
  "allowedBy policies p ns \<longleftrightarrow> list_ex (\<lambda>q. list_ex (\<lambda>r. ruleMatches r p ns) (po_allow q)) policies"

definition IsImplicitHomeOp :: "bytes \<Rightarrow> bool" where
  "IsImplicitHomeOp p \<longleftrightarrow> p \<in> set implicitHomeOps"

definition HasImplicitHomeGrant :: "go_namespace option \<Rightarrow> bytes \<Rightarrow> go_namespace \<Rightarrow> bool" where
  "HasImplicitHomeGrant home p ns =
     (case home of None \<Rightarrow> False | Some h \<Rightarrow> if \<not> IsImplicitHomeOp p then False else h = ns)"

definition Authorize :: "policy list \<Rightarrow> go_namespace option \<Rightarrow> bytes \<Rightarrow> go_namespace \<Rightarrow> bool" where
  "Authorize policies home p ns =
     (if deniedBy policies p ns then False
      else if HasImplicitHomeGrant home p ns then True
      else allowedBy policies p ns)"

section \<open>Normalization\<close>

datatype rule_error = UnknownOperation bytes | RuleName go_name_error

datatype policy_error = PolicyNameRequired | PolicySubjectRequired | AllowRule nat rule_error | DenyRule nat rule_error

definition validOperationPattern :: "bytes \<Rightarrow> bool" where
  "validOperationPattern p \<longleftrightarrow>
     (if p = star then True
      else case cut_wildcard p of
        Some cat \<Rightarrow> cat \<in> set [lit ''parameter'', lit ''secret'', lit ''configuration-release'', lit ''admin'']
      | None \<Rightarrow> p \<in> set knownOperations)"

definition normalizeLabel :: "bytes \<Rightarrow> (bytes \<Rightarrow> go_name_error + unit) \<Rightarrow> go_name_error + bytes" where
  "normalizeLabel v validate =
     (if v = [] \<or> v = star then Inr star else sum_bind (validate v) (\<lambda>_. Inr v))"

definition on_error :: "('e \<Rightarrow> 'f) \<Rightarrow> 'e + 'a \<Rightarrow> 'f + 'a" where
  "on_error f r = (case r of Inl e \<Rightarrow> Inl (f e) | Inr x \<Rightarrow> Inr x)"

definition normalizeRule :: "policy_rule \<Rightarrow> rule_error + policy_rule" where
  "normalizeRule r =
     (if \<not> validOperationPattern (pr_operation r) then Inl (UnknownOperation (pr_operation r))
      else
        sum_bind (on_error RuleName (normalizeLabel (pr_env r) ValidateEnv)) (\<lambda>env.
        sum_bind (on_error RuleName (normalizeLabel (pr_app r) ValidateApp)) (\<lambda>app.
        Inr \<lparr>pr_operation = pr_operation r, pr_env = env, pr_app = app\<rparr>)))"

fun normalize_rules :: "nat \<Rightarrow> policy_rule list \<Rightarrow> (nat \<times> rule_error) + policy_rule list" where
  "normalize_rules i [] = Inr []"
| "normalize_rules i (r # rs) =
     sum_bind (on_error (Pair i) (normalizeRule r)) (\<lambda>n. sum_bind (normalize_rules (i + 1) rs) (\<lambda>ns. Inr (n # ns)))"

definition ValidateRules :: "policy \<Rightarrow> policy_error + policy" where
  "ValidateRules p =
     (if po_name p = [] then Inl PolicyNameRequired
      else if po_subject p = [] then Inl PolicySubjectRequired
      else
        sum_bind (on_error (\<lambda>(i, e). AllowRule i e) (normalize_rules 0 (po_allow p))) (\<lambda>allow.
        sum_bind (on_error (\<lambda>(i, e). DenyRule i e) (normalize_rules 0 (po_deny p))) (\<lambda>deny.
        Inr (p\<lparr>po_allow := allow, po_deny := deny\<rparr>))))"

section \<open>Patterns\<close>

lemma cut_wildcard_Some: "cut_wildcard s = Some cat \<longleftrightarrow> s = cat @ lit '':*''"
proof
  assume "cut_wildcard s = Some cat"
  then have "drop (length s - 2) s = lit '':*''" "cat = take (length s - 2) s" by (auto simp: cut_wildcard_def split: if_splits)
  then show "s = cat @ lit '':*''" by (metis append_take_drop_id)
qed (simp add: cut_wildcard_def lit_def)

lemma cut_wildcard_None: "cut_wildcard s = None \<longleftrightarrow> (\<nexists>cat. s = cat @ lit '':*'')"
  using cut_wildcard_Some [of s] by (metis not_Some_eq)

lemma take_prefix: "take (length w) s = w \<longleftrightarrow> (\<exists>rest. s = w @ rest)"
  by (metis append_eq_conv_conj append_take_drop_id)

text \<open>What a pattern covers: everything; every operation of its category; or one operation.\<close>

definition covers :: "bytes \<Rightarrow> bytes \<Rightarrow> bool" where
  "covers pattern p \<longleftrightarrow> pattern = lit ''*'' \<or>
     (\<exists>cat rest. pattern = cat @ lit '':*'' \<and> p = cat @ lit '':'' @ rest) \<or>
     (\<nexists>cat. pattern = cat @ lit '':*'') \<and> pattern = p"

lemma operationMatches_covers: "operationMatches pattern p \<longleftrightarrow> covers pattern p"
proof (cases "cut_wildcard pattern")
  case None
  then show ?thesis using cut_wildcard_None [of pattern] by (auto simp: operationMatches_def covers_def star_def)
next
  case (Some cat)
  then have "pattern = cat @ lit '':*''" by (simp add: cut_wildcard_Some)
  then show ?thesis using Some take_prefix [of "cat @ [58]" p] by (auto simp: operationMatches_def covers_def star_def lit_def)
qed

definition in_scope_of :: "policy_rule \<Rightarrow> go_namespace \<Rightarrow> bool" where
  "in_scope_of r ns \<longleftrightarrow> (pr_env r = lit ''*'' \<or> pr_env r = gn_env ns) \<and> (pr_app r = lit ''*'' \<or> pr_app r = gn_app ns)"

lemma ruleMatches_covers: "ruleMatches r p ns \<longleftrightarrow> covers (pr_operation r) p \<and> in_scope_of r ns"
  by (simp add: ruleMatches_def operationMatches_covers labelMatches_def in_scope_of_def star_def)

section \<open>Normal rules\<close>

text \<open>A rule as its author may write it: an empty environment or application means any.\<close>

definition means :: "policy_rule \<Rightarrow> bytes \<Rightarrow> go_namespace \<Rightarrow> bool" where
  "means r p ns \<longleftrightarrow> covers (pr_operation r) p \<and>
     (pr_env r = [] \<or> pr_env r = lit ''*'' \<or> pr_env r = gn_env ns) \<and> (pr_app r = [] \<or> pr_app r = lit ''*'' \<or> pr_app r = gn_app ns)"

definition rule_normal :: "policy_rule \<Rightarrow> bool" where
  "rule_normal r \<longleftrightarrow> validOperationPattern (pr_operation r) \<and>
     (pr_env r = lit ''*'' \<or> label_ok (pr_env r)) \<and> (pr_app r = lit ''*'' \<or> label_ok (pr_app r))"

lemma on_error_Inr [simp]: "on_error f r = Inr x \<longleftrightarrow> r = Inr x"
  by (cases r) (auto simp: on_error_def)

lemma Validate_label: "ValidateEnv v = Inr () \<longleftrightarrow> label_ok v" "ValidateApp v = Inr () \<longleftrightarrow> label_ok v"
  by (cases "go_validateLabel v"; simp add: ValidateEnv_def ValidateApp_def go_validateLabel_ok [symmetric])+

lemma normalizeLabel_Inr:
  assumes "\<And>v. validate v = Inr () \<longleftrightarrow> label_ok v"
  shows "normalizeLabel v validate = Inr w \<longleftrightarrow> (v = [] \<or> v = lit ''*'') \<and> w = lit ''*'' \<or> v \<noteq> lit ''*'' \<and> label_ok v \<and> w = v"
  using assms [of v] by (cases "validate v") (auto simp: normalizeLabel_def star_def label_ok_def)

lemma normalizeRule_Inr:
  "normalizeRule r = Inr n \<longleftrightarrow> validOperationPattern (pr_operation r) \<and> pr_operation n = pr_operation r \<and>
     normalizeLabel (pr_env r) ValidateEnv = Inr (pr_env n) \<and> normalizeLabel (pr_app r) ValidateApp = Inr (pr_app n)"
  by (cases n) (auto simp: normalizeRule_def sum_bind_Inr)

lemma normalizeRule_normal: "normalizeRule r = Inr n \<Longrightarrow> rule_normal n \<and> (ruleMatches n p ns \<longleftrightarrow> means r p ns)"
  unfolding normalizeRule_Inr normalizeLabel_Inr [OF Validate_label(1)] normalizeLabel_Inr [OF Validate_label(2)]
  by (auto simp: rule_normal_def ruleMatches_covers in_scope_of_def means_def label_ok_def)

lemma normalizeRule_again: "rule_normal n \<Longrightarrow> normalizeRule n = Inr n"
  unfolding normalizeRule_Inr normalizeLabel_Inr [OF Validate_label(1)] normalizeLabel_Inr [OF Validate_label(2)]
  by (auto simp: rule_normal_def)

lemma normalize_rules_Inr:
  "normalize_rules i rs = Inr ns \<Longrightarrow> list_all rule_normal ns \<and> (list_ex (\<lambda>r. ruleMatches r p s) ns \<longleftrightarrow> list_ex (\<lambda>r. means r p s) rs)"
proof (induction rs arbitrary: i ns)
  case (Cons r rs)
  then obtain n ns' where "normalizeRule r = Inr n" "normalize_rules (i + 1) rs = Inr ns'" "ns = n # ns'"
    by (auto simp: sum_bind_Inr)
  then show ?case using Cons.IH [of "i + 1" ns'] normalizeRule_normal [of r n p s] by simp
qed auto

lemma normalize_rules_again: "list_all rule_normal ns \<Longrightarrow> normalize_rules i ns = Inr ns"
  by (induction ns arbitrary: i) (auto simp: normalizeRule_again on_error_def)

lemma ValidateRules_Inr:
  assumes "ValidateRules p = Inr q"
  obtains allow deny where "po_name p \<noteq> []" "po_subject p \<noteq> []" "normalize_rules 0 (po_allow p) = Inr allow"
    "normalize_rules 0 (po_deny p) = Inr deny" "q = p\<lparr>po_allow := allow, po_deny := deny\<rparr>"
  using assms that by (auto simp: ValidateRules_def sum_bind_Inr split: if_splits)

lemma stored_meaning:
  assumes "ValidateRules p = Inr q"
  shows "deniedBy [q] oper ns \<longleftrightarrow> list_ex (\<lambda>r. means r oper ns) (po_deny p)"
    and "allowedBy [q] oper ns \<longleftrightarrow> list_ex (\<lambda>r. means r oper ns) (po_allow p)"
  using assms by (auto elim!: ValidateRules_Inr simp: deniedBy_def allowedBy_def normalize_rules_Inr)

section \<open>Properties\<close>

text \<open>C25: deny comes first, and nothing is granted by accident. An operation on a namespace is
  authorized exactly when no deny rule of any policy covers it, and either an allow rule covers it or
  it is one of the six reads, lists and watches on the caller's own namespace. A rule covers it when
  its scope names the namespace or any, and its pattern is \<open>*\<close>, the operation, or the category of
  the operation.\<close>

theorem authorize_precedence:
  "Authorize policies home p ns \<longleftrightarrow>
     \<not> (\<exists>q \<in> set policies. \<exists>r \<in> set (po_deny q). covers (pr_operation r) p \<and> in_scope_of r ns) \<and>
     ((\<exists>q \<in> set policies. \<exists>r \<in> set (po_allow q). covers (pr_operation r) p \<and> in_scope_of r ns) \<or>
      home = Some ns \<and>
        p \<in> {OpParameterRead, OpParameterList, OpSecretRead, OpSecretList, OpConfigurationReleaseRead, OpConfigurationReleaseWatch})"
  by (auto simp: Authorize_def deniedBy_def allowedBy_def HasImplicitHomeGrant_def IsImplicitHomeOp_def implicitHomeOps_def
      ruleMatches_covers list_ex_iff split: option.split)

text \<open>C26: a stored policy is normal and says what its author wrote. When \<open>ValidateRules\<close> accepts a
  policy, the result keeps its name and subject, every rule of it has a known operation pattern and a
  scope of legal labels or \<open>*\<close>, validating it again changes nothing, and it allows and denies exactly
  what the rules as written mean, an empty environment or application standing for any.\<close>

theorem stored_policy_normal:
  assumes "ValidateRules p = Inr q"
  shows "po_name q = po_name p \<and> po_subject q = po_subject p \<and> list_all rule_normal (po_allow q @ po_deny q) \<and>
    ValidateRules q = Inr q \<and>
    (deniedBy [q] oper ns \<longleftrightarrow> list_ex (\<lambda>r. means r oper ns) (po_deny p)) \<and>
    (allowedBy [q] oper ns \<longleftrightarrow> list_ex (\<lambda>r. means r oper ns) (po_allow p))"
proof -
  obtain allow deny where n: "po_name p \<noteq> []" "po_subject p \<noteq> []" "normalize_rules 0 (po_allow p) = Inr allow"
    "normalize_rules 0 (po_deny p) = Inr deny" "q = p\<lparr>po_allow := allow, po_deny := deny\<rparr>"
    using assms by (rule ValidateRules_Inr)
  have a: "list_all rule_normal allow" "list_all rule_normal deny" using normalize_rules_Inr n(3,4) by blast+
  have "ValidateRules q = Inr q" using n(1,2,5) a by (simp add: ValidateRules_def normalize_rules_again on_error_def)
  then show ?thesis using n(5) a stored_meaning [OF assms] by simp
qed

definition demo_policy :: policy where
  "demo_policy = \<lparr>po_name = lit ''p'', po_subject = lit ''*'',
     po_allow = [\<lparr>pr_operation = lit ''secret:*'', pr_env = lit ''prod'', pr_app = []\<rparr>],
     po_deny = [\<lparr>pr_operation = lit ''secret:destroy'', pr_env = [], pr_app = []\<rparr>]\<rparr>"

theorem stored_policy_normal_witness:
  "\<exists>q. ValidateRules demo_policy = Inr q \<and> ValidateRules q = Inr q \<and>
     deniedBy [q] (lit ''secret:destroy'') \<lparr>gn_env = lit ''prod'', gn_app = lit ''a''\<rparr>"
proof -
  let ?q = "demo_policy\<lparr>po_allow := [\<lparr>pr_operation = lit ''secret:*'', pr_env = lit ''prod'', pr_app = lit ''*''\<rparr>],
    po_deny := [\<lparr>pr_operation = lit ''secret:destroy'', pr_env = lit ''*'', pr_app = lit ''*''\<rparr>]\<rparr>"
  have v: "ValidateRules demo_policy = Inr ?q" by code_simp
  have "list_ex (\<lambda>r. means r (lit ''secret:destroy'') \<lparr>gn_env = lit ''prod'', gn_app = lit ''a''\<rparr>) (po_deny demo_policy)"
    by (simp add: demo_policy_def means_def covers_def lit_def)
  then show ?thesis using v stored_policy_normal [OF v] by blast
qed

end
