(* ===== verification/Validation.thy ===== *)
theory Validation
  imports Policy
begin

text \<open>
  The console's input validators, \<^verbatim>\<open>frontend/lib/validation.ts\<close>. A text is the list of its UTF-16
  code units; a validator returns the message it shows, or \<open>None\<close> when the input is acceptable. Regular
  expressions are predicates on the units they admit.
\<close>

section \<open>Texts\<close>

text \<open>\<open>String.prototype.trim\<close>: white space and line terminators, all in the basic plane.\<close>

definition white_unit :: "nat \<Rightarrow> bool" where
  "white_unit c \<longleftrightarrow> 9 \<le> c \<and> c \<le> 13 \<or> c = 32 \<or> c = 160 \<or> c = 5760 \<or> 8192 \<le> c \<and> c \<le> 8202 \<or>
     c = 8232 \<or> c = 8233 \<or> c = 8239 \<or> c = 8287 \<or> c = 12288 \<or> c = 65279"

definition trim_units :: "units \<Rightarrow> units" where
  "trim_units s = rev (dropWhile white_unit (rev (dropWhile white_unit s)))"

text \<open>Spreading a string: one text per code point.\<close>

fun code_points :: "units \<Rightarrow> units list" where
  "code_points (c # d # s) =
     (if 55296 \<le> c \<and> c < 56320 \<and> 56320 \<le> d \<and> d < 57344 then [c, d] # code_points s else [c] # code_points (d # s))"
| "code_points [c] = [[c]]"
| "code_points [] = []"

definition unit_in :: "(nat \<Rightarrow> bool) \<Rightarrow> units \<Rightarrow> bool" where
  "unit_in P ch \<longleftrightarrow> list_ex P ch"

definition quoted :: "units \<Rightarrow> units" where
  "quoted s = [39] @ s @ [39]"

definition num :: "nat \<Rightarrow> units" where
  "num n = lit (dec_nat n)"

fun join_comma :: "units list \<Rightarrow> units" where
  "join_comma [] = []"
| "join_comma [w] = w"
| "join_comma (w # ws) = w @ lit '', '' @ join_comma ws"

definition describeProblem :: "json_problem \<Rightarrow> units" where
  "describeProblem p = lit ''line '' @ num (jp_line p) @ lit '', col '' @ num (jp_column p) @ lit '': '' @ jp_message p"

definition MAX_LABEL_LENGTH :: nat where "MAX_LABEL_LENGTH = 64"
definition MAX_KEY_LENGTH :: nat where "MAX_KEY_LENGTH = 256"
definition MAX_ALIAS_LENGTH :: nat where "MAX_ALIAS_LENGTH = 64"
definition MAX_IDENTITY_NAME_LENGTH :: nat where "MAX_IDENTITY_NAME_LENGTH = 128"
definition MAX_VALUE_BYTES :: nat where "MAX_VALUE_BYTES = 2 ^ 20"
definition MIN_BINDING_KEY_BYTES :: nat where "MIN_BINDING_KEY_BYTES = 32"

definition validateBindingKey :: "units \<Rightarrow> units option" where
  "validateBindingKey v =
     (if byteLength v < MIN_BINDING_KEY_BYTES
      then Some (lit ''Binding key must be at least '' @ num MIN_BINDING_KEY_BYTES @ lit '' UTF-8 bytes.'') else None)"

section \<open>Labels and keys\<close>

definition label_unit :: "nat \<Rightarrow> bool" where
  "label_unit c \<longleftrightarrow> 97 \<le> c \<and> c \<le> 122 \<or> 48 \<le> c \<and> c \<le> 57 \<or> c = 45"

definition key_unit :: "nat \<Rightarrow> bool" where
  "key_unit c \<longleftrightarrow> 97 \<le> c \<and> c \<le> 122 \<or> 48 \<le> c \<and> c \<le> 57 \<or> c = 46 \<or> c = 95 \<or> c = 45"

definition validateLabel :: "units \<Rightarrow> units \<Rightarrow> units option" where
  "validateLabel v what =
     (if v = [] then Some (what @ lit '' is required.'')
      else if MAX_LABEL_LENGTH < byteLength v then Some (what @ lit '' exceeds '' @ num MAX_LABEL_LENGTH @ lit '' characters.'')
      else if hd v = 45 \<or> last v = 45 then Some (what @ lit '' must not start or end with '' @ quoted [45] @ lit ''.'')
      else case first_bad (unit_in label_unit) (code_points v) of
        Some bad \<Rightarrow> Some (what @ lit '' must use lowercase letters, digits, and '' @ quoted [45] @ lit '' only (found '' @ quoted bad @ lit '').'')
      | None \<Rightarrow> None)"

definition validateEnv :: "units \<Rightarrow> units option" where
  "validateEnv env = validateLabel env (lit ''Environment'')"

definition validateApp :: "units \<Rightarrow> units option" where
  "validateApp app = validateLabel app (lit ''Application'')"

definition validateApplicationName :: "units \<Rightarrow> units option" where
  "validateApplicationName name = validateLabel name (lit ''Name'')"

fun validate_key_segments :: "units list \<Rightarrow> units option" where
  "validate_key_segments [] = None"
| "validate_key_segments (segment # rest) =
     (if segment = [] then Some (lit ''Key must not contain an empty segment ('' @ quoted (lit ''//'') @ lit '').'')
      else if segment = lit ''.'' \<or> segment = lit ''..''
      then Some (lit ''Key must not contain a '' @ quoted segment @ lit '' segment.'')
      else case first_bad (unit_in key_unit) (code_points segment) of
        Some bad \<Rightarrow>
          Some (lit ''Key must use lowercase letters, digits, '' @ quoted [46] @ lit '', '' @ quoted [95] @ lit '', '' @ quoted [45] @
                lit '', and '' @ quoted [47] @ lit '' only (found '' @ quoted bad @ lit '').'')
      | None \<Rightarrow> validate_key_segments rest)"

definition validateKey :: "units \<Rightarrow> units option" where
  "validateKey key =
     (if key = [] then Some (lit ''Key is required.'')
      else if MAX_KEY_LENGTH < byteLength key then Some (lit ''Key exceeds '' @ num MAX_KEY_LENGTH @ lit '' characters.'')
      else if hd key = 47 \<or> last key = 47 then Some (lit ''Key must not start or end with '' @ quoted [47] @ lit ''.'')
      else validate_key_segments (split_on 47 key))"

definition validateKeyPrefix :: "units \<Rightarrow> units option" where
  "validateKeyPrefix prefix = (if prefix = [] then None else validateKey prefix)"

definition validateReleaseName :: "units \<Rightarrow> units option" where
  "validateReleaseName name = (if name = [] then None else validateKey name)"

section \<open>Aliases and identities\<close>

definition letter_unit :: "nat \<Rightarrow> bool" where
  "letter_unit c \<longleftrightarrow> 65 \<le> c \<and> c \<le> 90 \<or> 97 \<le> c \<and> c \<le> 122"

definition ALIAS_RE :: "nat list \<Rightarrow> bool" where
  "ALIAS_RE s \<longleftrightarrow> s \<noteq> [] \<and> letter_unit (hd s) \<and> list_all (\<lambda>c. letter_unit c \<or> digit_unit c \<or> c = 95 \<or> c = 45) (tl s)"

definition validateAlias :: "units \<Rightarrow> units option" where
  "validateAlias s =
     (if s = [] then Some (lit ''Alias is required.'')
      else if MAX_ALIAS_LENGTH < byteLength s then Some (lit ''Alias exceeds '' @ num MAX_ALIAS_LENGTH @ lit '' characters.'')
      else if \<not> ALIAS_RE s
      then Some (lit ''Alias must start with a letter and use letters, digits, '' @ quoted [95] @ lit '', and '' @ quoted [45] @ lit '' only.'')
      else None)"

definition IDENTITY_NAME_RE :: "nat list \<Rightarrow> bool" where
  "IDENTITY_NAME_RE s \<longleftrightarrow> s \<noteq> [] \<and> (letter_unit (hd s) \<or> digit_unit (hd s)) \<and> length (tl s) \<le> 127 \<and>
     list_all (\<lambda>c. letter_unit c \<or> digit_unit c \<or> c = 46 \<or> c = 95 \<or> c = 45) (tl s)"

definition validateIdentityName :: "units \<Rightarrow> units option" where
  "validateIdentityName name =
     (if name = [] then Some (lit ''Name is required.'')
      else if MAX_IDENTITY_NAME_LENGTH < length name then Some (lit ''Name exceeds '' @ num MAX_IDENTITY_NAME_LENGTH @ lit '' characters.'')
      else if \<not> IDENTITY_NAME_RE name
      then Some (lit ''Name must start with a letter or digit and use letters, digits, '' @ quoted [46] @ lit '', '' @ quoted [95] @ lit '', and '' @ quoted [45] @ lit '' only.'')
      else None)"

section \<open>Values\<close>

definition PARAMETER_CONTENT_TYPES :: "units list" where
  "PARAMETER_CONTENT_TYPES = [lit ''string'', lit ''integer'', lit ''float'', lit ''boolean'', lit ''json'', lit ''binary'']"

definition validateContentType :: "units \<Rightarrow> units option" where
  "validateContentType t =
     (if t \<notin> set PARAMETER_CONTENT_TYPES then Some (lit ''Content type must be one of '' @ join_comma PARAMETER_CONTENT_TYPES @ lit ''.'')
      else None)"

definition INT64_MIN :: int where "INT64_MIN = - (2 ^ 63)"
definition INT64_MAX :: int where "INT64_MAX = 2 ^ 63 - 1"

definition GO_BOOL_LITERALS :: "units list" where
  "GO_BOOL_LITERALS =
     [lit ''1'', lit ''t'', lit ''T'', lit ''TRUE'', lit ''true'', lit ''True'',
      lit ''0'', lit ''f'', lit ''F'', lit ''FALSE'', lit ''false'', lit ''False'']"

definition drop_sign :: "units \<Rightarrow> units" where
  "drop_sign s = (if s \<noteq> [] \<and> (hd s = 43 \<or> hd s = 45) then tl s else s)"

definition lower_unit :: "nat \<Rightarrow> nat" where
  "lower_unit c = (if 65 \<le> c \<and> c \<le> 90 then c + 32 else c)"

definition GO_FLOAT_NONFINITE_RE :: "units \<Rightarrow> bool" where
  "GO_FLOAT_NONFINITE_RE s \<longleftrightarrow> map lower_unit (drop_sign s) \<in> {lit ''inf'', lit ''infinity'', lit ''nan''}"

definition digits_nonempty :: "units \<Rightarrow> bool" where
  "digits_nonempty s \<longleftrightarrow> s \<noteq> [] \<and> list_all digit_unit s"

text \<open>The two alternatives of the mantissa are together: hexadecimal digits, at least one, with at most
  one point among them.\<close>

definition hex_mantissa :: "units \<Rightarrow> bool" where
  "hex_mantissa m \<longleftrightarrow> list_ex hex_unit m \<and> length (filter (\<lambda>c. c = 46) m) \<le> 1"

definition GO_FLOAT_HEX_RE :: "units \<Rightarrow> bool" where
  "GO_FLOAT_HEX_RE s =
     (let u = drop_sign s; body = drop 2 u;
          m = takeWhile (\<lambda>c. hex_unit c \<or> c = 46) body; e = dropWhile (\<lambda>c. hex_unit c \<or> c = 46) body
      in 2 \<le> length u \<and> hd u = 48 \<and> (u ! 1 = 120 \<or> u ! 1 = 88) \<and> hex_mantissa m \<and>
         e \<noteq> [] \<and> (hd e = 112 \<or> hd e = 80) \<and> digits_nonempty (drop_sign (tl e)))"

text \<open>\<open>Number (s)\<close> for a trimmed, non-empty text is a number exactly for the string numeric literals:
  a signed \<open>Infinity\<close> or decimal literal, or an unsigned hexadecimal, octal or binary integer.\<close>

definition exponent_ok :: "units \<Rightarrow> bool" where
  "exponent_ok e \<longleftrightarrow> e = [] \<or> (hd e = 101 \<or> hd e = 69) \<and> digits_nonempty (drop_sign (tl e))"

definition decimal_literal :: "units \<Rightarrow> bool" where
  "decimal_literal s =
     (let i = takeWhile digit_unit s; r = dropWhile digit_unit s
      in if r \<noteq> [] \<and> hd r = 46 then
           (i \<noteq> [] \<or> takeWhile digit_unit (tl r) \<noteq> []) \<and> exponent_ok (dropWhile digit_unit (tl r))
         else i \<noteq> [] \<and> exponent_ok r)"

definition radix_literal :: "nat \<Rightarrow> nat \<Rightarrow> (nat \<Rightarrow> bool) \<Rightarrow> units \<Rightarrow> bool" where
  "radix_literal low high digit s \<longleftrightarrow>
     3 \<le> length s \<and> s ! 0 = 48 \<and> (s ! 1 = low \<or> s ! 1 = high) \<and> list_all digit (drop 2 s)"

definition number_literal :: "units \<Rightarrow> bool" where
  "number_literal s \<longleftrightarrow> drop_sign s = lit ''Infinity'' \<or> decimal_literal (drop_sign s) \<or>
     radix_literal 120 88 hex_unit s \<or> radix_literal 111 79 (\<lambda>c. 48 \<le> c \<and> c \<le> 55) s \<or> radix_literal 98 66 (\<lambda>c. c = 48 \<or> c = 49) s"

definition base64_unit :: "nat \<Rightarrow> bool" where
  "base64_unit c \<longleftrightarrow> letter_unit c \<or> digit_unit c \<or> c = 43 \<or> c = 47"

fun BASE64_STD_RE :: "units \<Rightarrow> bool" where
  "BASE64_STD_RE [] = True"
| "BASE64_STD_RE (a # b # c # d # rest) =
     (base64_unit a \<and> base64_unit b \<and>
      (if base64_unit c \<and> base64_unit d then BASE64_STD_RE rest
       else rest = [] \<and> d = 61 \<and> (base64_unit c \<or> c = 61)))"
| "BASE64_STD_RE _ = False"

fun nat_of_units :: "nat \<Rightarrow> units \<Rightarrow> nat" where
  "nat_of_units n [] = n"
| "nat_of_units n (c # s) = nat_of_units (10 * n + (c - 48)) s"

text \<open>\<open>BigInt\<close> of an optionally signed sequence of digits.\<close>

definition big_int :: "units \<Rightarrow> int" where
  "big_int s = (if s \<noteq> [] \<and> hd s = 45 then - int (nat_of_units 0 (tl s)) else int (nat_of_units 0 (drop_sign s)))"

definition validateParameterValue :: "units \<Rightarrow> units \<Rightarrow> units option" where
  "validateParameterValue v t =
     (if t = lit ''string'' then None
      else if t = lit ''integer'' then
        (let trimmed = trim_units v
         in if \<not> digits_nonempty (drop_sign trimmed) then Some (lit ''Value must be a whole number.'')
            else if big_int trimmed < INT64_MIN \<or> INT64_MAX < big_int trimmed
            then Some (lit ''Value is out of range for a 64-bit signed integer.'')
            else None)
      else if t = lit ''float'' then
        (let trimmed = trim_units v
         in if trimmed = [] then Some (lit ''Value must be a number.'')
            else if GO_FLOAT_NONFINITE_RE trimmed \<or> GO_FLOAT_HEX_RE trimmed then None
            else if \<not> number_literal trimmed then Some (lit ''Value must be a number.'')
            else None)
      else if t = lit ''boolean'' then
        (if trim_units v \<in> set GO_BOOL_LITERALS then None
         else Some (lit ''Value must be true or false (also accepted: 1, 0, t, f).''))
      else if t = lit ''json'' then
        (case checkJson v of
           Some p \<Rightarrow> Some (lit ''Value must be valid JSON ('' @ describeProblem p @ lit '').'')
         | None \<Rightarrow> None)
      else if t = lit ''binary'' then
        (if BASE64_STD_RE (filter (\<lambda>c. c \<noteq> 13 \<and> c \<noteq> 10) v) then None
         else Some (lit ''Value must be standard base64 (A'' @ [8211] @ lit ''Z, a'' @ [8211] @ lit ''z, 0'' @ [8211] @ lit ''9, '' @
                    quoted [43] @ lit '', '' @ quoted [47] @ lit '', padded with '' @ quoted [61] @ lit '').''))
      else validateContentType t)"

text \<open>\<open>toFixed (1)\<close> of \<open>n / d\<close>: the nearest tenth, the larger one when two are as near.\<close>

definition to_fixed_1 :: "nat \<Rightarrow> nat \<Rightarrow> units" where
  "to_fixed_1 n d = (let tenths = (20 * n + d) div (2 * d) in num (tenths div 10) @ [46] @ num (tenths mod 10))"

definition formatBytes :: "nat \<Rightarrow> units" where
  "formatBytes n =
     (if 2 ^ 20 \<le> n then to_fixed_1 n (2 ^ 20) @ lit '' MiB''
      else if 2 ^ 10 \<le> n then to_fixed_1 n (2 ^ 10) @ lit '' KiB''
      else num n @ lit '' bytes'')"

definition validateValueSize :: "units \<Rightarrow> units option" where
  "validateValueSize v =
     (let size = byteLength v
      in if MAX_VALUE_BYTES < size
         then Some (lit ''Value is '' @ formatBytes size @ lit '', over the '' @ formatBytes MAX_VALUE_BYTES @ lit '' limit.'')
         else None)"

text \<open>What \<open>JSON.parse\<close> returns for a document the checker accepts is an object, and neither an array nor
  null, exactly when the document's first token is an opening brace.\<close>

definition parses_to_object :: "units \<Rightarrow> bool" where
  "parses_to_object s =
     (case filter (\<lambda>t. to_kind t \<noteq> WsTok) (tokenizeJson s) of
        t # _ \<Rightarrow> s ! to_start t = CH_LBRACE
      | [] \<Rightarrow> False)"

definition validateMetadataJson :: "units \<Rightarrow> units option" where
  "validateMetadataJson metadata =
     (if trim_units metadata = [] then None
      else case checkJson metadata of
        Some p \<Rightarrow> Some (lit ''Metadata must be valid JSON ('' @ describeProblem p @ lit '').'')
      | None \<Rightarrow> if \<not> parses_to_object metadata then Some (lit ''Metadata must be a JSON object.'') else None)"

section \<open>Policies\<close>

definition KNOWN_OPERATIONS :: "units list" where
  "KNOWN_OPERATIONS =
     [lit ''parameter:read'', lit ''parameter:write'', lit ''parameter:list'', lit ''parameter:delete'',
      lit ''secret:read'', lit ''secret:write'', lit ''secret:list'', lit ''secret:disable'', lit ''secret:destroy'',
      lit ''secret:promote'', lit ''secret:binding-manage'',
      lit ''configuration-release:create'', lit ''configuration-release:read'', lit ''configuration-release:validate'',
      lit ''configuration-release:activate'', lit ''configuration-release:list'', lit ''configuration-release:watch'',
      lit ''configuration-release:instance-manage'',
      lit ''admin:namespace:create'', lit ''admin:namespace:update'', lit ''admin:namespace:delete'', lit ''admin:identity:cert'',
      lit ''admin:policy:write'', lit ''admin:audit:read'', lit ''admin:key:rotate'']"

definition OPERATION_WILDCARD_CATEGORIES :: "units list" where
  "OPERATION_WILDCARD_CATEGORIES = [lit ''parameter'', lit ''secret'', lit ''configuration-release'', lit ''admin'']"

definition OPERATION_PATTERNS :: "units list" where
  "OPERATION_PATTERNS = [lit ''*''] @ map (\<lambda>c. c @ lit '':*'') OPERATION_WILDCARD_CATEGORIES @ KNOWN_OPERATIONS"

definition validatePolicyOperation :: "units \<Rightarrow> units option" where
  "validatePolicyOperation operation =
     (if operation = [] then Some (lit ''Operation is required.'')
      else if operation = lit ''*'' then None
      else if 2 \<le> length operation \<and> drop (length operation - 2) operation = lit '':*'' then
        (let category = take (length operation - 2) operation
         in if category \<in> set OPERATION_WILDCARD_CATEGORIES then None
            else Some (lit ''Unknown wildcard category '' @ quoted category @ lit ''. Use one of '' @
                       join_comma OPERATION_WILDCARD_CATEGORIES @ lit ''.''))
      else if operation \<in> set KNOWN_OPERATIONS then None
      else Some (lit ''Unknown operation '' @ quoted operation @ lit ''.''))"

definition validatePolicyRuleEnv :: "units \<Rightarrow> units option" where
  "validatePolicyRuleEnv env = (if env = [] \<or> env = lit ''*'' then None else validateEnv env)"

definition validatePolicyRuleApp :: "units \<Rightarrow> units option" where
  "validatePolicyRuleApp app = (if app = [] \<or> app = lit ''*'' then None else validateApp app)"

definition validatePolicyName :: "units \<Rightarrow> units option" where
  "validatePolicyName name = (if trim_units name = [] then Some (lit ''Policy name is required.'') else None)"

definition validatePolicySubject :: "units \<Rightarrow> units option" where
  "validatePolicySubject subject =
     (if trim_units subject = [] then Some (lit ''Subject is required.'')
      else if subject = lit ''*'' then None
      else validateIdentityName subject)"

section \<open>Contracts\<close>

record contract_field =
  cf_alias :: units
  cf_kind :: units
  cf_content_type :: "units option"

definition validateContractField :: "contract_field \<Rightarrow> units option" where
  "validateContractField field =
     (case validateAlias (cf_alias field) of
        Some e \<Rightarrow> Some e
      | None \<Rightarrow>
          if cf_kind field = lit ''parameter''
          then validateContentType (case cf_content_type field of None \<Rightarrow> [] | Some t \<Rightarrow> t)
          else if cf_kind field = lit ''secret'' then None
          else Some (lit ''Kind must be '' @ quoted (lit ''parameter'') @ lit '' or '' @ quoted (lit ''secret'') @
                     lit '' (found '' @ quoted (cf_kind field) @ lit '').''))"

fun validate_fields :: "units list \<Rightarrow> contract_field list \<Rightarrow> units option" where
  "validate_fields seen [] = None"
| "validate_fields seen (field # rest) =
     (case validateContractField field of
        Some e \<Rightarrow> Some e
      | None \<Rightarrow>
          if cf_alias field \<in> set seen then Some (lit ''Duplicate contract alias '' @ quoted (cf_alias field) @ lit ''.'')
          else validate_fields (cf_alias field # seen) rest)"

definition validateContract :: "contract_field list \<Rightarrow> units option" where
  "validateContract fs = validate_fields [] fs"

fun firstError :: "units option list \<Rightarrow> units option" where
  "firstError [] = None"
| "firstError (r # rs) = (case r of Some e \<Rightarrow> Some e | None \<Rightarrow> firstError rs)"

end
