(* ===== verification/Validation_Correct.thy ===== *)
theory Validation_Correct
  imports Validation
begin

text \<open>
  The console's naming rules are the server's. A validator of \<^verbatim>\<open>frontend/lib/validation.ts\<close> accepts a
  text exactly when the server's rule accepts its UTF-8 encoding: both admit ASCII only, so neither the
  different string types nor the different ways to iterate over them matter.
\<close>

section \<open>Character rules\<close>

lemma code_points_all:
  assumes "\<And>c. P c \<Longrightarrow> c < 128"
  shows "list_all (unit_in P) (code_points s) \<longleftrightarrow> list_all P s"
proof (induction s rule: code_points.induct)
  case (1 c d s)
  have "\<not> P c" if "55296 \<le> c" using assms [of c] that by auto
  moreover have "\<not> P d" if "56320 \<le> d" using assms [of d] that by auto
  ultimately show ?case using 1 by (auto simp: unit_in_def)
qed (simp_all add: unit_in_def)

lemma rune_units: "label_unit = isLabelRune" "key_unit = isKeyRune"
  by (auto simp: fun_eq_iff label_unit_def isLabelRune_def key_unit_def isKeyRune_def)

lemma bad_label: "first_bad (unit_in label_unit) (code_points s) = None \<longleftrightarrow> list_all isLabelRune s"
  unfolding first_bad_None rune_units by (rule code_points_all) (rule isLabelRune_ascii)

lemma bad_key: "first_bad (unit_in key_unit) (code_points s) = None \<longleftrightarrow> list_all isKeyRune s"
  unfolding first_bad_None rune_units by (rule code_points_all) (rule isKeyRune_ascii)

lemma byteLength_ascii: "ascii s \<Longrightarrow> byteLength s = length s"
  using length_utf8 [of s] by (simp add: utf8_ascii)

lemma max_lengths: "MAX_LABEL_LENGTH = MaxLabelLength" "MAX_KEY_LENGTH = MaxKeyLength"
  by (simp_all add: MAX_LABEL_LENGTH_def MaxLabelLength_def MAX_KEY_LENGTH_def MaxKeyLength_def)

text \<open>A rule that admits ASCII only holds of the encoding exactly when it holds of the text.\<close>

lemma utf8_rule: "(\<And>s. P s \<Longrightarrow> ascii s) \<Longrightarrow> P (utf8 s) \<longleftrightarrow> P s"
  using ascii_utf8 utf8_ascii by metis

lemma utf8_lit: "utf8 s = lit w \<longleftrightarrow> s = lit w" if "ascii (lit w)"
  using that ascii_utf8 utf8_ascii by metis

section \<open>Labels\<close>

lemma label_ok_ascii: "label_ok s \<Longrightarrow> ascii s"
  using list_all_ascii [of isLabelRune s] isLabelRune_ascii by (simp add: label_ok_def)

lemma validateLabel_ok: "validateLabel s what = None \<longleftrightarrow> label_ok s"
proof -
  have "validateLabel s what = None \<longleftrightarrow> s \<noteq> [] \<and> byteLength s \<le> MaxLabelLength \<and> hd s \<noteq> 45 \<and> last s \<noteq> 45 \<and> list_all isLabelRune s"
    using bad_label [of s] unfolding validateLabel_def max_lengths by (auto split: option.split)
  also have "\<dots> \<longleftrightarrow> label_ok s"
    using byteLength_ascii [of s] list_all_ascii [of isLabelRune s] isLabelRune_ascii by (auto simp: label_ok_def)
  finally show ?thesis .
qed

section \<open>Keys\<close>

lemma segment_ok_ascii: "segment_ok s \<Longrightarrow> ascii s"
  using list_all_ascii [of isKeyRune s] isKeyRune_ascii by (simp add: segment_ok_def)

lemma segments_ascii: "list_all segment_ok (split_on 47 s) \<Longrightarrow> ascii s"
  using split_on_ascii [of 47 s] segment_ok_ascii by (auto simp: list_all_iff)

lemma key_ok_ascii: "key_ok s \<Longrightarrow> ascii s"
  using segments_ascii by (simp add: key_ok_def)

lemma key_segments_ok: "validate_key_segments ss = None \<longleftrightarrow> list_all segment_ok ss"
proof (induction ss)
  case (Cons s ss)
  then show ?case using bad_key [of s] by (auto simp: segment_ok_def lit_def split: option.split)
qed simp

lemma key_edges: "list_all segment_ok (split_on 47 s) \<Longrightarrow> s \<noteq> [] \<and> hd s \<noteq> 47 \<and> last s \<noteq> 47"
  using split_on_hd [of s 47] split_on_last [of s 47] by (cases "s = []") (auto simp: list_all_iff segment_ok_def)

lemma validateKey_ok: "validateKey s = None \<longleftrightarrow> key_ok s"
proof -
  have "validateKey s = None \<longleftrightarrow> byteLength s \<le> MaxKeyLength \<and> list_all segment_ok (split_on 47 s)"
    using key_edges [of s] key_segments_ok [of "split_on 47 s"] unfolding validateKey_def max_lengths by auto
  then show ?thesis using byteLength_ascii [of s] segments_ascii [of s] by (auto simp: key_ok_def)
qed

lemma names_of_server:
  "validateApplicationName s = None \<longleftrightarrow> ValidateApp (utf8 s) = Inr ()"
  "validateKey s = None \<longleftrightarrow> ValidateKey (utf8 s) = Inr ()"
  "validateEnv s = None \<longleftrightarrow> ValidateEnv (utf8 s) = Inr ()"
  "validateApp s = None \<longleftrightarrow> ValidateApp (utf8 s) = Inr ()"
  using utf8_rule [of label_ok s, OF label_ok_ascii] utf8_rule [of key_ok s, OF key_ok_ascii]
  by (simp_all add: validateApplicationName_def validateEnv_def validateApp_def validateLabel_ok validateKey_ok Validate_label ValidateKey_ok)

section \<open>Properties\<close>

text \<open>C31: the console's naming rules are the server's. For every text, the console accepts it as an
  environment, an application or a key exactly when the server accepts its UTF-8 encoding; an empty
  key prefix and an empty release name are accepted as well, which the server reads as the whole
  namespace and as the default name. The server accepts the scope of a list request exactly when its
  namespace is valid and the console accepts the key prefix.\<close>

theorem names_mirror_server:
  "(validateEnv s = None \<longleftrightarrow> ValidateEnv (utf8 s) = Inr ()) \<and>
   (validateApp s = None \<longleftrightarrow> ValidateApp (utf8 s) = Inr ()) \<and>
   (validateApplicationName s = None \<longleftrightarrow> ValidateApp (utf8 s) = Inr ()) \<and>
   (validateKey s = None \<longleftrightarrow> ValidateKey (utf8 s) = Inr ()) \<and>
   (validateKeyPrefix s = None \<longleftrightarrow> s = [] \<or> ValidateKey (utf8 s) = Inr ()) \<and>
   (validateReleaseName s = None \<longleftrightarrow> s = [] \<or> ValidateKey (utf8 s) = Inr ()) \<and>
   (validateListScope ns (utf8 s) = Inr () \<longleftrightarrow> ValidateNamespace ns = Inr () \<and> validateKeyPrefix s = None)"
proof -
  have "validateListScope ns (utf8 s) = Inr () \<longleftrightarrow> ValidateNamespace ns = Inr () \<and> validateKeyPrefix s = None"
    by (simp add: validateListScope_def validateKeyPrefix_def names_of_server utf8_Nil split: sum.split)
  then show ?thesis by (simp add: validateKeyPrefix_def validateReleaseName_def names_of_server)
qed

end
