(* ===== verification/Applications.thy ===== *)
theory Applications
  imports Validation_Correct "HOL-Library.List_Lexorder"
begin

text \<open>
  The server's normalization of an application record, \<^verbatim>\<open>internal/core/applications.go\<close>, with the alias
  rule of \<^verbatim>\<open>releases.go\<close> and the content types and integer conversion of \<^verbatim>\<open>parameters.go\<close>, and the
  console's checks against it: the create form accepts a name, a release name and a contract exactly
  when the server does, and the record that is stored has a sorted contract without duplicates.
\<close>

section \<open>White space\<close>

definition go_spaces :: "bytes list" where
  "go_spaces = map (\<lambda>b. [b]) [9, 10, 11, 12, 13, 32] @ [[194, 133], [194, 160], [225, 154, 128]] @
     map (\<lambda>k. [226, 128, 128 + k]) ([0 ..< 11] @ [40, 41, 47]) @ [[226, 129, 159], [227, 128, 128]]"

text \<open>\<open>strings.TrimSpace\<close>: \<open>go_spaces\<close> are the encodings of the runes \<open>unicode.IsSpace\<close> knows.\<close>

definition TrimSpace :: "bytes \<Rightarrow> bytes" where
  "TrimSpace s = rev (strip_front (map rev go_spaces) (rev (strip_front go_spaces s)))"

section \<open>Applications\<close>

record go_contract_field =
  gc_alias :: bytes
  gc_kind :: bytes
  gc_content_type :: bytes

record application =
  ap_name :: bytes
  ap_description :: bytes
  ap_release_name :: bytes
  ap_contract :: "go_contract_field list"

datatype application_error =
  AppNameError go_name_error
| ReleaseNameError key_error
| ContractAlias bytes
| DuplicateAlias bytes
| ContractContentType bytes bytes
| ContractKind bytes bytes

definition maxReleaseAliasBytes :: nat where "maxReleaseAliasBytes = 64"

definition releaseAliasRE :: "bytes \<Rightarrow> bool" where
  "releaseAliasRE s \<longleftrightarrow> s \<noteq> [] \<and> letter_unit (hd s) \<and> list_all (\<lambda>c. letter_unit c \<or> digit_unit c \<or> c = 95 \<or> c = 45) (tl s)"

definition validParameterContentTypes :: "bytes list" where
  "validParameterContentTypes = [lit ''string'', lit ''integer'', lit ''float'', lit ''boolean'', lit ''json'', lit ''binary'']"

fun normalize_contract :: "bytes list \<Rightarrow> go_contract_field list \<Rightarrow> application_error + go_contract_field list" where
  "normalize_contract seen [] = Inr []"
| "normalize_contract seen (field # rest) =
     (if gc_alias field = [] \<or> maxReleaseAliasBytes < length (gc_alias field) \<or> \<not> releaseAliasRE (gc_alias field)
      then Inl (ContractAlias (gc_alias field))
      else if gc_alias field \<in> set seen then Inl (DuplicateAlias (gc_alias field))
      else if gc_kind field = lit ''parameter'' then
        (if gc_content_type field \<notin> set validParameterContentTypes
         then Inl (ContractContentType (gc_alias field) (gc_content_type field))
         else sum_bind (normalize_contract (gc_alias field # seen) rest) (\<lambda>fs. Inr (field # fs)))
      else if gc_kind field = lit ''secret'' then
        sum_bind (normalize_contract (gc_alias field # seen) rest) (\<lambda>fs. Inr (field\<lparr>gc_content_type := []\<rparr> # fs))
      else Inl (ContractKind (gc_alias field) (gc_kind field)))"

definition normalizeApplication :: "application \<Rightarrow> application_error + application" where
  "normalizeApplication app =
     (case ValidateApp (ap_name app) of
        Inl e \<Rightarrow> Inl (AppNameError e)
      | Inr _ \<Rightarrow>
          let release = (if ap_release_name app = [] then lit ''runtime'' else ap_release_name app)
          in case ValidateKey release of
               Inl e \<Rightarrow> Inl (ReleaseNameError e)
             | Inr _ \<Rightarrow>
                 sum_bind (normalize_contract [] (ap_contract app)) (\<lambda>contract.
                 Inr (app\<lparr>ap_description := TrimSpace (ap_description app), ap_release_name := release,
                          ap_contract := sort_key gc_alias contract\<rparr>)))"

section \<open>Integers\<close>

text \<open>\<open>strconv.ParseInt (strings.TrimSpace (value), 10, 64)\<close>; in base ten no underscore is allowed.\<close>

definition parse_integer :: "bytes \<Rightarrow> int option" where
  "parse_integer v =
     (let s = TrimSpace v
      in if digits_nonempty (drop_sign s) \<and> - (2 ^ 63) \<le> big_int s \<and> big_int s < 2 ^ 63 then Some (big_int s) else None)"

section \<open>The console's contract on the wire\<close>

definition wire_field :: "contract_field \<Rightarrow> go_contract_field" where
  "wire_field f = \<lparr>gc_alias = utf8 (cf_alias f), gc_kind = utf8 (cf_kind f),
     gc_content_type = (case cf_content_type f of None \<Rightarrow> [] | Some t \<Rightarrow> utf8 t)\<rparr>"

definition alias_ok :: "nat list \<Rightarrow> bool" where
  "alias_ok s \<longleftrightarrow> s \<noteq> [] \<and> length s \<le> 64 \<and> ALIAS_RE s"

lemma releaseAliasRE: "releaseAliasRE = ALIAS_RE"
  by (simp add: fun_eq_iff releaseAliasRE_def ALIAS_RE_def)

lemma ALIAS_RE_ascii: "ALIAS_RE s \<Longrightarrow> ascii s"
  by (cases s) (auto simp: ALIAS_RE_def ascii_def list_all_iff letter_unit_def digit_unit_def)

lemma alias_ok_ascii: "alias_ok s \<Longrightarrow> ascii s"
  using ALIAS_RE_ascii by (simp add: alias_ok_def)

lemma validateAlias_ok: "validateAlias s = None \<longleftrightarrow> alias_ok s"
  using byteLength_ascii [of s] ALIAS_RE_ascii [of s]
  by (auto simp: validateAlias_def alias_ok_def MAX_ALIAS_LENGTH_def)

lemma validateContentType_ok: "validateContentType t = None \<longleftrightarrow> utf8 t \<in> set validParameterContentTypes"
proof -
  have "ascii (lit w)" if "w \<in> {''string'', ''integer'', ''float'', ''boolean'', ''json'', ''binary''}" for w
    using that by (auto simp: lit_def)
  then show ?thesis
    by (simp add: validateContentType_def validParameterContentTypes_def PARAMETER_CONTENT_TYPES_def utf8_lit)
qed

lemma kind_lits: "ascii (lit ''parameter'')" "ascii (lit ''secret'')" "lit ''parameter'' \<noteq> lit ''secret''"
  by (simp_all add: lit_def)

definition field_ok :: "contract_field \<Rightarrow> bool" where
  "field_ok f \<longleftrightarrow> alias_ok (cf_alias f) \<and>
     (cf_kind f = lit ''parameter'' \<and> gc_content_type (wire_field f) \<in> set validParameterContentTypes \<or> cf_kind f = lit ''secret'')"

lemma validateContractField_ok: "validateContractField f = None \<longleftrightarrow> field_ok f"
proof (cases "validateAlias (cf_alias f)")
  case None
  then show ?thesis using validateAlias_ok [of "cf_alias f"] kind_lits(3) validateContentType_ok
    by (auto simp: validateContractField_def field_ok_def wire_field_def split: option.split)
qed (use validateAlias_ok [of "cf_alias f"] in \<open>simp add: validateContractField_def field_ok_def\<close>)

lemma validate_fields_ok:
  "validate_fields seen fs = None \<longleftrightarrow> list_all field_ok fs \<and> distinct (map cf_alias fs) \<and> set (map cf_alias fs) \<inter> set seen = {}"
proof (induction fs arbitrary: seen)
  case (Cons f fs)
  then show ?case using validateContractField_ok [of f] by (auto split: option.split)
qed simp

lemma alias_utf8: "field_ok f \<Longrightarrow> utf8 (cf_alias f) = cf_alias f"
  using alias_ok_ascii by (simp add: field_ok_def utf8_ascii)

lemma alias_rule: "(utf8 s = [] \<or> maxReleaseAliasBytes < length (utf8 s) \<or> \<not> releaseAliasRE (utf8 s)) \<longleftrightarrow> \<not> alias_ok s"
  using utf8_rule [of alias_ok s, OF alias_ok_ascii] by (auto simp: alias_ok_def releaseAliasRE maxReleaseAliasBytes_def)

text \<open>What is stored of a field: a secret has no content type.\<close>

definition stored_field :: "contract_field \<Rightarrow> go_contract_field" where
  "stored_field f = (if cf_kind f = lit ''secret'' then (wire_field f)\<lparr>gc_content_type := []\<rparr> else wire_field f)"

lemma normalize_contract_ok:
  "normalize_contract seen (map wire_field fs) = Inr gs \<longleftrightarrow> validate_fields seen fs = None \<and> gs = map stored_field fs"
proof (induction fs arbitrary: seen gs)
  case (Cons f fs)
  have w: "gc_alias (wire_field f) = utf8 (cf_alias f)" "gc_kind (wire_field f) = utf8 (cf_kind f)" by (simp_all add: wire_field_def)
  show ?case
  proof (cases "alias_ok (cf_alias f)")
    case False
    then show ?thesis using alias_rule [of "cf_alias f"] validateContractField_ok [of f]
      by (auto simp: w field_ok_def split: option.split)
  next
    case True
    then have u: "utf8 (cf_alias f) = cf_alias f" using alias_ok_ascii utf8_ascii by blast
    then have a: "\<not> (cf_alias f = [] \<or> maxReleaseAliasBytes < length (cf_alias f) \<or> \<not> releaseAliasRE (cf_alias f))"
      using alias_rule [of "cf_alias f"] True by simp
    let ?rest = "normalize_contract (cf_alias f # seen) (map wire_field fs)"
    have k: "utf8 (cf_kind f) = lit ''parameter'' \<longleftrightarrow> cf_kind f = lit ''parameter''" "utf8 (cf_kind f) = lit ''secret'' \<longleftrightarrow> cf_kind f = lit ''secret''"
      using utf8_lit kind_lits by blast+
    have n: "normalize_contract seen (map wire_field (f # fs)) = Inr gs \<longleftrightarrow>
        field_ok f \<and> cf_alias f \<notin> set seen \<and> (\<exists>gs'. ?rest = Inr gs' \<and> gs = stored_field f # gs')"
    proof -
      consider "cf_kind f = lit ''parameter''" | "cf_kind f = lit ''secret''" | "cf_kind f \<noteq> lit ''parameter''" "cf_kind f \<noteq> lit ''secret''" by blast
      then show ?thesis
        using True a kind_lits(3) kind_lits(3) [symmetric] utf8_ascii [OF kind_lits(1)] utf8_ascii [OF kind_lits(2)]
        by cases (auto simp: w u k field_ok_def stored_field_def sum_bind_Inr)
    qed
    have v: "validate_fields seen (f # fs) = None \<longleftrightarrow> field_ok f \<and> cf_alias f \<notin> set seen \<and> validate_fields (cf_alias f # seen) fs = None"
      using validateContractField_ok [of f] by (auto split: option.split)
    show ?thesis unfolding n v Cons.IH by auto
  qed
qed auto

section \<open>Properties\<close>

lemma runtime_key: "ValidateKey (lit ''runtime'') = Inr ()"
  by code_simp

text \<open>C32: the console's application form agrees with the server. The server accepts the application
  that a name, a description, a release name and a contract describe exactly when the three checks of
  the console pass, and what it stores is fixed: the description trimmed, \<open>runtime\<close> for an empty
  release name, and the console's contract sorted by alias, no content type on a secret.\<close>

theorem application_mirrors_server:
  "normalizeApplication \<lparr>ap_name = utf8 name, ap_description = utf8 description, ap_release_name = utf8 release,
       ap_contract = map wire_field fs\<rparr> = Inr stored \<longleftrightarrow>
     validateApplicationName name = None \<and> validateReleaseName release = None \<and> validateContract fs = None \<and>
     stored = \<lparr>ap_name = utf8 name, ap_description = TrimSpace (utf8 description),
       ap_release_name = (if release = [] then lit ''runtime'' else utf8 release),
       ap_contract = sort_key gc_alias (map stored_field fs)\<rparr>"
proof -
  have name: "validateApplicationName name = None \<longleftrightarrow> (\<nexists>e. ValidateApp (utf8 name) = Inl e)"
    using names_of_server(1) [of name] by (cases "ValidateApp (utf8 name)") auto
  have release: "validateReleaseName release = None \<longleftrightarrow>
      (\<nexists>e. ValidateKey (if release = [] then lit ''runtime'' else utf8 release) = Inl e)"
    using names_of_server(2) [of release] runtime_key
    by (cases "release = []"; cases "ValidateKey (utf8 release)") (auto simp: validateReleaseName_def)
  show ?thesis unfolding name release validateContract_def
    using normalize_contract_ok [of "[]" fs] utf8_Nil [of release]
    by (auto simp: normalizeApplication_def Let_def sum_bind_Inr split: sum.split if_splits)
qed

text \<open>U+0085 is white space to the server and not to the console, which so rejects an integer that the
  server would store.\<close>

lemma next_line_integer:
  "validateParameterValue [133, 53] (lit ''integer'') = Some (lit ''Value must be a whole number.'')"
  "parse_integer (utf8 [133, 53]) = Some 5"
proof -
  have "strip_front go_spaces [194, 133, 53] = [53]" "strip_front (map rev go_spaces) [53] = [53]"
    by (simp_all add: go_spaces_def strip_front.simps upt_rec)
  then have "TrimSpace (utf8 [133, 53]) = [53]" by (simp add: TrimSpace_def)
  then show "parse_integer (utf8 [133, 53]) = Some 5"
    by (simp add: parse_integer_def digits_nonempty_def drop_sign_def digit_unit_def big_int_def)
  show "validateParameterValue [133, 53] (lit ''integer'') = Some (lit ''Value must be a whole number.'')"
    by (simp add: validateParameterValue_def lit_def trim_units_def white_unit_def digits_nonempty_def drop_sign_def digit_unit_def)
qed

end
