(* ===== verification/Policy_Editor.thy ===== *)
theory Policy_Editor
  imports Validation_Correct
begin

text \<open>
  The policy editor of the console, \<^verbatim>\<open>frontend/pages/policies.tsx\<close>: the draft, its checks, the policy
  that is sent when it is saved and the summary of what it grants; with \<open>POLICY_OPERATIONS\<close> of
  \<^verbatim>\<open>frontend/lib/types.ts\<close>. The lemmas relate them to the server's \<open>ValidateRules\<close> and \<open>Authorize\<close>.
\<close>

section \<open>The draft\<close>

record draft_rule =
  ed_id :: nat
  ed_operation :: units
  ed_env :: units
  ed_app :: units

record draft =
  dt_name :: units
  dt_subject :: units
  dt_allow :: "draft_rule list"
  dt_deny :: "draft_rule list"
  dt_editing :: bool

definition emptyDraft :: draft where
  "emptyDraft = \<lparr>dt_name = [], dt_subject = [], dt_allow = [], dt_deny = [], dt_editing = False\<rparr>"

text \<open>\<open>newRule\<close> and \<open>draftRules\<close> draw the next number from the module's counter, which they return.\<close>

definition newRule :: "nat \<Rightarrow> nat \<times> draft_rule" where
  "newRule ruleID = (ruleID + 1, \<lparr>ed_id = ruleID + 1, ed_operation = [], ed_env = lit ''*'', ed_app = lit ''*''\<rparr>)"

record rule_text =
  rx_operation :: units
  rx_env :: units
  rx_app :: units

record policy_text =
  pt_name :: units
  pt_subject :: units
  pt_allow :: "rule_text list"
  pt_deny :: "rule_text list"

fun draftRules :: "nat \<Rightarrow> rule_text list \<Rightarrow> nat \<times> draft_rule list" where
  "draftRules ruleID [] = (ruleID, [])"
| "draftRules ruleID (r # rs) =
     (case draftRules (ruleID + 1) rs of (n, ds) \<Rightarrow>
        (n, \<lparr>ed_id = ruleID + 1, ed_operation = rx_operation r, ed_env = rx_env r, ed_app = rx_app r\<rparr> # ds))"

definition openEdit :: "nat \<Rightarrow> policy_text \<Rightarrow> nat \<times> draft" where
  "openEdit ruleID p =
     (case draftRules ruleID (pt_allow p) of (n, allow) \<Rightarrow>
      case draftRules n (pt_deny p) of (n', deny) \<Rightarrow>
        (n', \<lparr>dt_name = pt_name p, dt_subject = pt_subject p, dt_allow = allow, dt_deny = deny, dt_editing = True\<rparr>))"

definition starts_with :: "nat list \<Rightarrow> nat list \<Rightarrow> bool" where
  "starts_with w s \<longleftrightarrow> take (length w) s = w"

definition POLICY_OPERATIONS :: "units list" where
  "POLICY_OPERATIONS = [lit ''*''] @
     concat (map (\<lambda>category. (category @ lit '':*'') # filter (starts_with (category @ lit '':'')) KNOWN_OPERATIONS)
       OPERATION_WILDCARD_CATEGORIES)"

definition operationOptions :: "units \<Rightarrow> units list" where
  "operationOptions current =
     (if current = [] \<or> current \<in> set POLICY_OPERATIONS then POLICY_OPERATIONS else current # POLICY_OPERATIONS)"

section \<open>Checking and saving\<close>

datatype rule_component = OperationField | EnvField | AppField

definition ruleFieldError :: "draft_rule \<Rightarrow> rule_component \<Rightarrow> units option" where
  "ruleFieldError rule field =
     (case field of
        OperationField \<Rightarrow> validatePolicyOperation (ed_operation rule)
      | EnvField \<Rightarrow> validatePolicyRuleEnv (trim_units (ed_env rule))
      | AppField \<Rightarrow> validatePolicyRuleApp (trim_units (ed_app rule)))"

definition draftError :: "draft \<Rightarrow> units option" where
  "draftError d =
     firstError ([validatePolicyName (dt_name d), validatePolicySubject (trim_units (dt_subject d))] @
       concat (map (\<lambda>rule. [ruleFieldError rule OperationField, ruleFieldError rule EnvField, ruleFieldError rule AppField])
         (dt_allow d @ dt_deny d)))"

definition clean_rule :: "draft_rule \<Rightarrow> rule_text" where
  "clean_rule r = \<lparr>rx_operation = ed_operation r, rx_env = trim_units (ed_env r), rx_app = trim_units (ed_app r)\<rparr>"

text \<open>What \<open>save\<close> sends; nothing while the draft has an error.\<close>

definition saved_policy :: "draft \<Rightarrow> policy_text option" where
  "saved_policy d =
     (if draftError d \<noteq> None then None
      else Some \<lparr>pt_name = trim_units (dt_name d), pt_subject = trim_units (dt_subject d),
                 pt_allow = map clean_rule (dt_allow d), pt_deny = map clean_rule (dt_deny d)\<rparr>)"

section \<open>Effective permissions\<close>

definition isAnyLabel :: "units \<Rightarrow> bool" where
  "isAnyLabel label = (let trimmed = trim_units label in trimmed = [] \<or> trimmed = lit ''*'')"

definition labelCovers :: "units \<Rightarrow> units \<Rightarrow> bool" where
  "labelCovers wide narrow \<longleftrightarrow> isAnyLabel wide \<or> trim_units wide = trim_units narrow"

definition operationCovers :: "units \<Rightarrow> units \<Rightarrow> bool" where
  "operationCovers pattern operation =
     (if pattern = lit ''*'' then True
      else if 2 \<le> length pattern \<and> drop (length pattern - 2) pattern = lit '':*'' then
        (let category = take (length pattern - 2) pattern
         in operation = pattern \<or> starts_with (category @ lit '':'') operation)
      else pattern = operation)"

definition denyCancels :: "draft_rule \<Rightarrow> draft_rule \<Rightarrow> bool" where
  "denyCancels deny allow \<longleftrightarrow>
     labelCovers (ed_app deny) (ed_app allow) \<and> labelCovers (ed_env deny) (ed_env allow) \<and>
     operationCovers (ed_operation deny) (ed_operation allow)"

definition scopeLabel :: "draft_rule \<Rightarrow> units" where
  "scopeLabel rule =
     (let app = (if isAnyLabel (ed_app rule) then lit ''any'' else trim_units (ed_app rule));
          env = (if isAnyLabel (ed_env rule) then lit ''any'' else trim_units (ed_env rule))
      in env @ lit ''/'' @ app)"

type_synonym effective_scopes = "(units, (units \<times> bool) list) jsmap"

record effective_summary =
  ef_allows :: effective_scopes
  ef_denies :: effective_scopes

definition group_rule :: "(draft_rule \<Rightarrow> bool) \<Rightarrow> draft_rule \<Rightarrow> effective_scopes \<Rightarrow> effective_scopes" where
  "group_rule cancelled rule scopes =
     (if ed_operation rule = [] then scopes
      else
        let scope = scopeLabel rule;
            operations = (case map_get scopes scope of None \<Rightarrow> [] | Some ops \<Rightarrow> ops)
        in map_set scope
             (if list_ex (\<lambda>item. fst item = ed_operation rule) operations then operations
              else operations @ [(ed_operation rule, cancelled rule)]) scopes)"

definition effectiveSummary :: "draft \<Rightarrow> effective_summary" where
  "effectiveSummary d =
     (let denies = filter (\<lambda>rule. ed_operation rule \<noteq> []) (dt_deny d)
      in \<lparr>ef_allows = fold (group_rule (\<lambda>allow. list_ex (\<lambda>deny. denyCancels deny allow) denies)) (dt_allow d) [],
          ef_denies = fold (group_rule (\<lambda>_. False)) (dt_deny d) []\<rparr>)"

section \<open>On the wire\<close>

definition wire_rule :: "rule_text \<Rightarrow> policy_rule" where
  "wire_rule r = \<lparr>pr_operation = utf8 (rx_operation r), pr_env = utf8 (rx_env r), pr_app = utf8 (rx_app r)\<rparr>"

definition wire_policy :: "policy_text \<Rightarrow> policy" where
  "wire_policy p = \<lparr>po_name = utf8 (pt_name p), po_subject = utf8 (pt_subject p),
     po_allow = map wire_rule (pt_allow p), po_deny = map wire_rule (pt_deny p)\<rparr>"

section \<open>The checks against the server's\<close>

lemma known_operations:
  "set knownOperations = insert OpConfigurationReleaseVerifyDefaults (set KNOWN_OPERATIONS)"
  by (simp add: knownOperations_def KNOWN_OPERATIONS_def op_defs insert_commute)

lemmas op_evals = knownOperations_def KNOWN_OPERATIONS_def op_defs star_def cut_wildcard_def lit_def

lemma operation_suffix:
  "2 \<le> length p \<and> drop (length p - 2) p = lit '':*'' \<longleftrightarrow> (\<exists>cat. cut_wildcard p = Some cat)"
  "2 \<le> length p \<Longrightarrow> drop (length p - 2) p = lit '':*'' \<Longrightarrow> cut_wildcard p = Some (take (length p - 2) p)"
  by (auto simp: cut_wildcard_def)

lemma verify_defaults:
  "cut_wildcard OpConfigurationReleaseVerifyDefaults = None" "OpConfigurationReleaseVerifyDefaults \<noteq> star"
  "OpConfigurationReleaseVerifyDefaults \<notin> set KNOWN_OPERATIONS"
  by (simp_all add: op_evals)

lemma validatePolicyOperation_known:
  "validatePolicyOperation p = None \<longleftrightarrow> validOperationPattern p \<and> p \<noteq> OpConfigurationReleaseVerifyDefaults"
proof -
  note v = verify_defaults
  have e: "[] \<notin> set knownOperations" "cut_wildcard [] = None" "star \<noteq> []" by (simp_all add: op_evals)
  show ?thesis
  proof (cases "cut_wildcard p")
    case None
    then have "\<not> (2 \<le> length p \<and> drop (length p - 2) p = lit '':*'')" using operation_suffix(1) [of p] by simp
    then have n: "validatePolicyOperation p = None \<longleftrightarrow> p \<noteq> [] \<and> (p = star \<or> p \<in> set KNOWN_OPERATIONS)"
      by (auto simp: validatePolicyOperation_def star_def)
    show ?thesis unfolding n using None v e known_operations by (auto simp: validOperationPattern_def)
  next
    case (Some cat)
    then have c: "2 \<le> length p \<and> drop (length p - 2) p = lit '':*''" "cat = take (length p - 2) p"
      using operation_suffix [of p] by auto
    then show ?thesis using Some v(1)
      by (auto simp: validatePolicyOperation_def validOperationPattern_def star_def OPERATION_WILDCARD_CATEGORIES_def Let_def split: if_splits)
  qed
qed

lemma validOperationPattern_ascii: "validOperationPattern p \<Longrightarrow> ascii p"
proof -
  have k: "list_all ascii knownOperations" by (simp add: op_evals)
  have c: "list_all (\<lambda>c. ascii (c @ lit '':*'')) [lit ''parameter'', lit ''secret'', lit ''configuration-release'', lit ''admin'']" by (simp add: op_evals)
  have s: "ascii star" by (simp add: op_evals)
  assume "validOperationPattern p"
  then show ?thesis using k c s cut_wildcard_Some [of p]
    by (auto simp: validOperationPattern_def list_all_iff split: if_splits option.splits)
qed

lemma firstError_None: "firstError rs = None \<longleftrightarrow> (\<forall>r \<in> set rs. r = None)"
  by (induction rs) (auto split: option.split)

definition rule_checked :: "draft_rule \<Rightarrow> bool" where
  "rule_checked r \<longleftrightarrow> validatePolicyOperation (ed_operation r) = None \<and>
     validatePolicyRuleEnv (trim_units (ed_env r)) = None \<and> validatePolicyRuleApp (trim_units (ed_app r)) = None"

lemma draftError_None:
  "draftError d = None \<longleftrightarrow> validatePolicyName (dt_name d) = None \<and> validatePolicySubject (trim_units (dt_subject d)) = None \<and>
     (\<forall>r \<in> set (dt_allow d) \<union> set (dt_deny d). rule_checked r)"
  unfolding draftError_def firstError_None by (auto simp: rule_checked_def ruleFieldError_def)

lemma rule_label_normal:
  "validatePolicyRuleEnv v = None \<Longrightarrow> \<exists>w. normalizeLabel (utf8 v) ValidateEnv = Inr w"
  "validatePolicyRuleApp v = None \<Longrightarrow> \<exists>w. normalizeLabel (utf8 v) ValidateApp = Inr w"
proof -
  have s: "utf8 (lit ''*'') = star" by code_simp
  have u: "\<exists>w. normalizeLabel (utf8 v) f = Inr w" if "v = [] \<or> v = lit ''*'' \<or> f (utf8 v) = Inr ()" for f
    using that s by (auto simp: normalizeLabel_def)
  show "validatePolicyRuleEnv v = None \<Longrightarrow> \<exists>w. normalizeLabel (utf8 v) ValidateEnv = Inr w"
    using u [of ValidateEnv] names_of_server(3) [of v] by (auto simp: validatePolicyRuleEnv_def split: if_splits)
  show "validatePolicyRuleApp v = None \<Longrightarrow> \<exists>w. normalizeLabel (utf8 v) ValidateApp = Inr w"
    using u [of ValidateApp] names_of_server(4) [of v] by (auto simp: validatePolicyRuleApp_def split: if_splits)
qed

lemma checked_rule_normal: "rule_checked r \<Longrightarrow> \<exists>n. normalizeRule (wire_rule (clean_rule r)) = Inr n"
proof -
  assume r: "rule_checked r"
  then have p: "validOperationPattern (ed_operation r)" using validatePolicyOperation_known by (simp add: rule_checked_def)
  then have "validOperationPattern (utf8 (ed_operation r))" using validOperationPattern_ascii utf8_ascii by simp
  moreover obtain v w where "normalizeLabel (utf8 (trim_units (ed_env r))) ValidateEnv = Inr v"
    "normalizeLabel (utf8 (trim_units (ed_app r))) ValidateApp = Inr w"
    using rule_label_normal r unfolding rule_checked_def by blast
  ultimately show ?thesis by (simp add: normalizeRule_def wire_rule_def clean_rule_def on_error_def)
qed

lemma checked_rules_normal: "list_all rule_checked rs \<Longrightarrow> \<exists>ns. normalize_rules i (map (\<lambda>r. wire_rule (clean_rule r)) rs) = Inr ns"
proof (induction rs arbitrary: i)
  case (Cons r rs)
  then obtain n ns where "normalizeRule (wire_rule (clean_rule r)) = Inr n"
    "normalize_rules (i + 1) (map (\<lambda>r. wire_rule (clean_rule r)) rs) = Inr ns"
    using checked_rule_normal [of r] Cons.IH [of "i + 1"] Cons.prems by (metis list.pred_inject(2))
  then show ?case by (simp add: on_error_def)
qed simp

lemma trim_trim_nonempty: "validatePolicyName v = None \<Longrightarrow> trim_units v \<noteq> []"
  by (auto simp: validatePolicyName_def split: if_splits)

lemma subject_nonempty: "validatePolicySubject v = None \<Longrightarrow> v \<noteq> []"
  by (auto simp: validatePolicySubject_def trim_units_def)

lemma saved_accepted:
  assumes "saved_policy d = Some p"
  shows "\<exists>q. ValidateRules (wire_policy p) = Inr q"
proof -
  have e: "draftError d = None" and p: "p = \<lparr>pt_name = trim_units (dt_name d), pt_subject = trim_units (dt_subject d),
      pt_allow = map clean_rule (dt_allow d), pt_deny = map clean_rule (dt_deny d)\<rparr>"
    using assms by (auto simp: saved_policy_def split: if_splits)
  have c: "list_all rule_checked (dt_allow d)" "list_all rule_checked (dt_deny d)"
    using e draftError_None by (auto simp: list_all_iff)
  have "utf8 (pt_name p) \<noteq> []" "utf8 (pt_subject p) \<noteq> []"
    using e draftError_None [of d] trim_trim_nonempty subject_nonempty p by (auto simp: utf8_Nil)
  then show ?thesis using checked_rules_normal [OF c(1), of 0] checked_rules_normal [OF c(2), of 0] p
    by (auto simp: ValidateRules_def wire_policy_def on_error_def comp_def)
qed

section \<open>The summary\<close>

lemma starts_with_ex: "starts_with w s \<longleftrightarrow> (\<exists>rest. s = w @ rest)"
  by (simp add: starts_with_def take_prefix)

lemma star_prefix: "u @ [42] = (cat @ [58]) @ x \<Longrightarrow> \<exists>z. u = (cat @ [58 :: nat]) @ z"
proof (cases x rule: rev_cases)
  case Nil
  assume "u @ [42] = (cat @ [58]) @ x"
  then have "last (u @ [42]) = last (cat @ [58])" using Nil by simp
  then show ?thesis by simp
qed simp

lemma operationCovers_covers:
  assumes "operationCovers d r" "covers r p"
  shows "covers d p"
proof (cases "cut_wildcard d")
  case None
  then have "\<not> (2 \<le> length d \<and> drop (length d - 2) d = lit '':*'')" using operation_suffix(1) [of d] by simp
  then have "d = lit ''*'' \<or> d = r" using assms(1) by (auto simp: operationCovers_def split: if_splits)
  then show ?thesis using assms(2) by (auto simp: covers_def)
next
  case (Some cat)
  then have d: "d = cat @ lit '':*''" by (simp add: cut_wildcard_Some)
  then have "r = d \<or> (\<exists>x. r = cat @ lit '':'' @ x)"
    using assms(1) by (auto simp: operationCovers_def starts_with_ex lit_def split: if_splits)
  then consider "r = d" | x where "r = cat @ lit '':'' @ x" by blast
  then show ?thesis
  proof cases
    case r: 2
    have "\<exists>y. p = cat @ lit '':'' @ y"
    proof -
      consider "r = lit ''*''" | cat' rest where "r = cat' @ lit '':*''" "p = cat' @ lit '':'' @ rest" | "r = p"
        using assms(2) by (auto simp: covers_def)
      then show ?thesis
      proof cases
        case 1
        then show ?thesis using r by (cases cat) (auto simp: lit_def)
      next
        case 2
        then have "(cat' @ [58]) @ [42] = (cat @ [58]) @ x" using r by (simp add: lit_def)
        then have "\<exists>z. cat' @ [58] = (cat @ [58]) @ z" by (rule star_prefix)
        then obtain z where "cat' @ [58] = cat @ [58] @ z" by auto
        then have "p = cat @ [58] @ z @ rest" using 2(2) by (simp add: lit_def)
        then show ?thesis by (simp add: lit_def)
      qed (use r in auto)
    qed
    then show ?thesis using d by (auto simp: covers_def)
  qed (use assms(2) in simp)
qed

definition wired :: "draft_rule \<Rightarrow> policy_rule" where
  "wired r = wire_rule (clean_rule r)"

lemma wired_fields:
  "pr_operation (wired r) = utf8 (ed_operation r)" "pr_env (wired r) = utf8 (trim_units (ed_env r))" "pr_app (wired r) = utf8 (trim_units (ed_app r))"
  by (simp_all add: wired_def wire_rule_def clean_rule_def)

lemma isAnyLabel_wire: "isAnyLabel l \<longleftrightarrow> utf8 (trim_units l) = [] \<or> utf8 (trim_units l) = lit ''*''"
  using utf8_Nil [of "trim_units l"] utf8_lit [of "''*''" "trim_units l"] by (simp add: isAnyLabel_def lit_def Let_def)

lemma denyCancels_means:
  assumes "denyCancels d r" "rule_checked d" "rule_checked r" "means (wired r) p ns"
  shows "means (wired d) p ns"
proof -
  have a: "utf8 (ed_operation d) = ed_operation d" "utf8 (ed_operation r) = ed_operation r"
    using assms(2,3) validOperationPattern_ascii utf8_ascii by (auto simp: rule_checked_def validatePolicyOperation_known)
  have "covers (ed_operation d) p"
    using operationCovers_covers assms(1,4) a by (auto simp: denyCancels_def means_def wired_fields)
  moreover have label: "utf8 (trim_units w) = [] \<or> utf8 (trim_units w) = lit ''*'' \<or> utf8 (trim_units w) = x"
    if "labelCovers w n" "utf8 (trim_units n) = [] \<or> utf8 (trim_units n) = lit ''*'' \<or> utf8 (trim_units n) = x" for w n x
    using that unfolding labelCovers_def isAnyLabel_wire by (elim disjE) simp_all
  moreover have "labelCovers (ed_env d) (ed_env r)" "labelCovers (ed_app d) (ed_app r)" using assms(1) by (simp_all add: denyCancels_def)
  ultimately show ?thesis using assms(4) a label [of "ed_env d" "ed_env r" "gn_env ns"] label [of "ed_app d" "ed_app r" "gn_app ns"]
    unfolding means_def wired_fields by (intro conjI) simp_all
qed

lemma group_sound:
  assumes "map_get (fold (group_rule cancelled) rs []) scope = Some ops" "(p, flag) \<in> set ops"
  shows "\<exists>r \<in> set rs. scopeLabel r = scope \<and> ed_operation r = p \<and> p \<noteq> [] \<and> (flag \<longleftrightarrow> cancelled r)"
proof -
  define ok where "ok m \<longleftrightarrow> (\<forall>scope ops p flag. map_get m scope = Some ops \<longrightarrow> (p, flag) \<in> set ops \<longrightarrow>
    (\<exists>r \<in> set rs. scopeLabel r = scope \<and> ed_operation r = p \<and> p \<noteq> [] \<and> (flag \<longleftrightarrow> cancelled r)))" for m
  have step: "ok (group_rule cancelled r m)" if "ok m" "r \<in> set rs" for r m
    using that unfolding ok_def group_rule_def Let_def by (auto split: option.splits if_splits)
  have "ok (fold (group_rule cancelled) xs m)" if "ok m" "set xs \<subseteq> set rs" for xs m
    using that by (induction xs arbitrary: m) (auto intro: step)
  moreover have "ok []" by (simp add: ok_def map_get_def)
  ultimately show ?thesis using assms unfolding ok_def by blast
qed

text \<open>A draft in which no rule names an environment or application called \<open>any\<close>.\<close>

definition no_label_any :: "draft \<Rightarrow> bool" where
  "no_label_any d \<longleftrightarrow> list_all (\<lambda>r. trim_units (ed_env r) \<noteq> lit ''any'' \<and> trim_units (ed_app r) \<noteq> lit ''any'') (dt_allow d)"

lemma label_no_slash: "label_ok s \<Longrightarrow> 47 \<notin> set s"
  by (auto simp: label_ok_def list_all_iff isLabelRune_def)

lemma scope_parts:
  assumes "e @ lit ''/'' @ a = e' @ lit ''/'' @ a'" "47 \<notin> set e" "47 \<notin> set e'"
  shows "e = e' \<and> a = a'"
proof -
  have t: "takeWhile (\<lambda>c. c \<noteq> 47) (x @ lit ''/'' @ y) = x" if "47 \<notin> set x" for x y :: units
    using that by (induction x) (auto simp: lit_def)
  then have "e = e'" using assms by metis
  then show ?thesis using assms(1) by simp
qed

lemma env_shown: "rule_checked r \<Longrightarrow> 47 \<notin> set (if isAnyLabel (ed_env r) then lit ''any'' else trim_units (ed_env r))"
  using label_no_slash validateLabel_ok
  by (auto simp: rule_checked_def validatePolicyRuleEnv_def validateEnv_def isAnyLabel_def lit_def Let_def split: if_splits)

definition same_label :: "units \<Rightarrow> units \<Rightarrow> bool" where
  "same_label l l' \<longleftrightarrow> isAnyLabel l \<and> isAnyLabel l' \<or> trim_units l = trim_units l'"

lemma labelCovers_same: "same_label l l' \<Longrightarrow> labelCovers w l \<longleftrightarrow> labelCovers w l'"
  by (auto simp: same_label_def labelCovers_def isAnyLabel_def Let_def)

lemma same_scope:
  assumes "scopeLabel r = scopeLabel r'" "rule_checked r" "rule_checked r'"
    "trim_units (ed_env r) \<noteq> lit ''any''" "trim_units (ed_app r) \<noteq> lit ''any''"
    "trim_units (ed_env r') \<noteq> lit ''any''" "trim_units (ed_app r') \<noteq> lit ''any''"
  shows "same_label (ed_env r) (ed_env r') \<and> same_label (ed_app r) (ed_app r')"
  using scope_parts [OF assms(1) [unfolded scopeLabel_def Let_def] env_shown [OF assms(2)] env_shown [OF assms(3)]] assms(4-7)
  by (auto simp: same_label_def split: if_splits)

lemma checked_operation: "rule_checked r \<Longrightarrow> ed_operation r \<noteq> []"
  by (auto simp: rule_checked_def validatePolicyOperation_def)

lemma summary_flag:
  assumes "saved_policy d = Some p" "no_label_any d"
    "map_get (ef_allows (effectiveSummary d)) scope = Some ops" "(oper, flag) \<in> set ops"
    "r \<in> set (dt_allow d)" "scopeLabel r = scope" "ed_operation r = oper"
  shows "flag \<longleftrightarrow> (\<exists>deny \<in> set (dt_deny d). denyCancels deny r)"
proof -
  have c: "\<forall>r \<in> set (dt_allow d) \<union> set (dt_deny d). rule_checked r"
    using assms(1) draftError_None by (auto simp: saved_policy_def split: if_splits)
  then have d: "filter (\<lambda>rule. ed_operation rule \<noteq> []) (dt_deny d) = dt_deny d"
    using checked_operation by (auto simp: filter_id_conv)
  obtain r' where r': "r' \<in> set (dt_allow d)" "scopeLabel r' = scope" "ed_operation r' = oper"
    "flag \<longleftrightarrow> list_ex (\<lambda>deny. denyCancels deny r') (dt_deny d)"
    using group_sound [OF assms(3) [unfolded effectiveSummary_def Let_def effective_summary.simps d] assms(4)] by blast
  have "same_label (ed_env r') (ed_env r) \<and> same_label (ed_app r') (ed_app r)"
    using same_scope [of r' r] c r' assms(2,5,6) by (auto simp: no_label_any_def list_all_iff)
  then have "denyCancels deny r' \<longleftrightarrow> denyCancels deny r" for deny
    using labelCovers_same [of "ed_env r'" "ed_env r"] labelCovers_same [of "ed_app r'" "ed_app r"] r'(3) assms(7)
    by (simp add: denyCancels_def)
  then show ?thesis using r'(4) by (simp add: list_ex_iff)
qed

section \<open>Properties\<close>

text \<open>C27: a draft the editor lets through is a policy the server accepts. Whenever the checks of the
  editor find no error, the policy that is sent passes the server's \<open>ValidateRules\<close>.\<close>

theorem saved_policy_accepted:
  assumes "saved_policy d = Some p"
  shows "\<exists>q. ValidateRules (wire_policy p) = Inr q \<and> po_name q = utf8 (pt_name p) \<and> po_subject q = utf8 (pt_subject p)"
proof -
  obtain q where "ValidateRules (wire_policy p) = Inr q" using saved_accepted [OF assms] by blast
  then show ?thesis by (auto elim!: ValidateRules_Inr simp: wire_policy_def)
qed

definition demo_draft :: draft where
  "demo_draft = \<lparr>dt_name = lit ''p'', dt_subject = lit ''*'',
     dt_allow = [\<lparr>ed_id = 1, ed_operation = lit ''secret:read'', ed_env = lit ''prod'', ed_app = lit ''*''\<rparr>],
     dt_deny = [\<lparr>ed_id = 2, ed_operation = lit ''secret:*'', ed_env = [], ed_app = []\<rparr>], dt_editing = False\<rparr>"

definition demo_saved :: policy_text where
  "demo_saved = \<lparr>pt_name = lit ''p'', pt_subject = lit ''*'', pt_allow = map clean_rule (dt_allow demo_draft),
     pt_deny = map clean_rule (dt_deny demo_draft)\<rparr>"

lemmas trim_evals = trim_units_def white_unit_def lit_def

lemmas summary_evals = effectiveSummary_def group_rule_def scopeLabel_def isAnyLabel_def denyCancels_def labelCovers_def
  operationCovers_def starts_with_def map_get_def Let_def

lemma demo_operations:
  "validatePolicyOperation (lit ''secret:read'') = None" "validatePolicyOperation (lit ''secret:*'') = None"
  unfolding validatePolicyOperation_known by (simp_all add: validOperationPattern_def op_evals)

lemma demo_labels: "label_ok (lit ''prod'')" "label_ok (lit ''a'')" "label_ok (lit ''any'')"
  by code_simp+

lemma demo_trims:
  "trim_units (lit ''prod'') = lit ''prod''" "trim_units (lit ''a'') = lit ''a''" "trim_units (lit ''any'') = lit ''any''"
  "trim_units (lit ''*'') = lit ''*''" "trim_units (lit ''p'') = lit ''p''" "trim_units [] = []"
  by (simp_all add: trim_evals)

lemma demo_texts: "lit ''p'' \<noteq> []" "lit ''*'' \<noteq> []" "lit ''a'' \<noteq> []" "lit ''any'' \<noteq> []" "lit ''prod'' \<noteq> []"
  "lit ''any'' \<noteq> lit ''*''" "lit ''a'' \<noteq> lit ''*''" "lit ''prod'' \<noteq> lit ''*''"
  by (simp_all add: lit_def)

lemmas draft_evals = saved_policy_def draftError_None rule_checked_def validatePolicyName_def validatePolicySubject_def
  validatePolicyRuleEnv_def validatePolicyRuleApp_def validateEnv_def validateApp_def validateLabel_ok
  demo_operations demo_labels demo_trims demo_texts

lemma demo_saved: "saved_policy demo_draft = Some demo_saved"
  by (simp add: demo_draft_def demo_saved_def draft_evals)

theorem saved_policy_accepted_witness: "\<exists>q. ValidateRules (wire_policy demo_saved) = Inr q"
  using saved_policy_accepted [OF demo_saved] by blast

text \<open>C28: what the summary calls cancelled is denied. In a draft that can be saved and in which no
  rule names an environment or application literally called \<open>any\<close>, an allowed operation that the
  summary shows as cancelled by a deny is refused by the server wherever the allow rule applies: the
  stored policy denies it, whatever the other policies and the caller's home namespace.\<close>

theorem cancelled_is_denied:
  assumes "saved_policy d = Some p" "no_label_any d" "ValidateRules (wire_policy p) = Inr q" "q \<in> set policies"
    "map_get (ef_allows (effectiveSummary d)) scope = Some ops" "(oper, True) \<in> set ops"
    "r \<in> set (dt_allow d)" "scopeLabel r = scope" "ed_operation r = oper" "means (wire_rule (clean_rule r)) actual ns"
  shows "\<not> Authorize policies home actual ns"
proof -
  have c: "\<forall>r \<in> set (dt_allow d) \<union> set (dt_deny d). rule_checked r" and p: "pt_deny p = map clean_rule (dt_deny d)"
    using assms(1) draftError_None by (auto simp: saved_policy_def split: if_splits)
  obtain deny where deny: "deny \<in> set (dt_deny d)" "denyCancels deny r"
    using summary_flag [OF assms(1,2,5-9)] by blast
  then have "means (wired deny) actual ns"
    using denyCancels_means [of deny r] c assms(7,10) by (simp add: wired_def)
  then have "deniedBy [q] actual ns"
    unfolding stored_meaning(1) [OF assms(3)] using deny(1) p by (auto simp: wire_policy_def list_ex_iff wired_def)
  then have "deniedBy policies actual ns" using assms(4) by (auto simp: deniedBy_def list_ex_iff)
  then show ?thesis by (simp add: Authorize_def)
qed

theorem cancelled_is_denied_witness:
  "\<exists>q. ValidateRules (wire_policy demo_saved) = Inr q \<and>
     \<not> Authorize [q] None (lit ''secret:read'') \<lparr>gn_env = lit ''prod'', gn_app = lit ''a''\<rparr>"
proof -
  obtain q where q: "ValidateRules (wire_policy demo_saved) = Inr q" using saved_accepted [OF demo_saved] by blast
  have "no_label_any demo_draft" by (simp add: no_label_any_def demo_draft_def trim_evals)
  moreover have "map_get (ef_allows (effectiveSummary demo_draft)) (lit ''prod/any'') = Some [(lit ''secret:read'', True)]"
    by (simp add: demo_draft_def summary_evals trim_evals)
  moreover have "hd (dt_allow demo_draft) \<in> set (dt_allow demo_draft)" "scopeLabel (hd (dt_allow demo_draft)) = lit ''prod/any''"
    "ed_operation (hd (dt_allow demo_draft)) = lit ''secret:read''" by (simp_all add: demo_draft_def summary_evals trim_evals)
  moreover have "means (wire_rule (clean_rule (hd (dt_allow demo_draft)))) (lit ''secret:read'') \<lparr>gn_env = lit ''prod'', gn_app = lit ''a''\<rparr>"
  proof -
    have "wire_rule (clean_rule (hd (dt_allow demo_draft))) = \<lparr>pr_operation = lit ''secret:read'', pr_env = lit ''prod'', pr_app = lit ''*''\<rparr>"
      by (simp add: wire_rule_def clean_rule_def demo_draft_def trim_evals)
    then show ?thesis by (auto simp: means_def covers_def lit_def)
  qed
  ultimately show ?thesis
    using cancelled_is_denied [OF demo_saved _ q, of "[q]" "lit ''prod/any''" "[(lit ''secret:read'', True)]" "lit ''secret:read''"
      "hd (dt_allow demo_draft)" "lit ''secret:read''" _ None] q by auto
qed







text \<open>C30: the editor refuses one operation that the server knows. A pattern passes the editor's check
  exactly when the server accepts it, except for \<open>configuration-release:verify-defaults\<close>: the server
  accepts it, the editor does not, and so a policy with such a rule cannot be saved from the editor at
  all, whatever part of it was edited.\<close>

theorem operation_check_gap:
  "(validatePolicyOperation p = None \<longleftrightarrow> validOperationPattern p \<and> p \<noteq> OpConfigurationReleaseVerifyDefaults) \<and>
   validOperationPattern OpConfigurationReleaseVerifyDefaults \<and> OpConfigurationReleaseVerifyDefaults \<notin> set POLICY_OPERATIONS"
proof -
  have "x = star \<or> (\<exists>cat. cut_wildcard x = Some cat) \<or> x \<in> set KNOWN_OPERATIONS" if "x \<in> set POLICY_OPERATIONS" for x
    using that by (auto simp: POLICY_OPERATIONS_def star_def cut_wildcard_Some)
  then have "OpConfigurationReleaseVerifyDefaults \<notin> set POLICY_OPERATIONS" using verify_defaults by fastforce
  moreover have "validOperationPattern OpConfigurationReleaseVerifyDefaults"
    using verify_defaults known_operations by (simp add: validOperationPattern_def)
  ultimately show ?thesis using validatePolicyOperation_known by simp
qed

text \<open>The editor asks for a subject that names an identity; the server takes any text.\<close>

lemma subject_check_stricter:
  "validatePolicySubject (lit ''a b'') \<noteq> None"
  "ValidateRules \<lparr>po_name = lit ''p'', po_subject = utf8 (lit ''a b''), po_allow = [], po_deny = []\<rparr> =
     Inr \<lparr>po_name = lit ''p'', po_subject = lit ''a b'', po_allow = [], po_deny = []\<rparr>"
  by (simp_all add: validatePolicySubject_def validateIdentityName_def IDENTITY_NAME_RE_def letter_unit_def digit_unit_def trim_evals
      MAX_IDENTITY_NAME_LENGTH_def ValidateRules_def on_error_def)

end
