(* ===== verification/Spec2Isabelle.thy ===== *)
theory Spec2Isabelle
  imports Watch_Listing Managed_Config Loader_Told Json_Format Line_Diff_Correct Applications Policy_Editor
begin

text \<open>
  A verification library for KMS, a parameter, secret and configuration release store.

  \<^bold>\<open>The program.\<close> A Go server stores parameters, secrets, policies and releases; programs read them
  through the TypeScript SDK; operators edit them in a web console. The library follows the data: the
  SDK's read path (references, read cache, watch manager), its release path (release types and digest,
  loader, managed configuration), the console's text tools (JSON helpers, line diff) and the rules on
  which console and server must agree (names, policies, application records).

  \<^bold>\<open>Representation.\<close> In the SDK theories a JavaScript string is the list of its UTF-8 bytes, a \<open>bigint\<close> an
  \<open>int\<close>, a number a finite \<open>real\<close> or one of the non-finite values, a \<open>Map\<close> an association list in insertion
  order with distinct keys (\<open>jsmap\<close>), an exception the left side of a sum. In the console and server
  theories a text is a list of UTF-16 code units, or of bytes, as numbers, with \<open>utf8\<close> between them. An
  asynchronous method is cut at its \<open>await\<close>s: each segment is one action, local variables that live across
  an \<open>await\<close> are kept in program counters, and a run (\<open>run\<close> of the prelude) is any interleaving of
  actions with any replies. Clock readings and random numbers are arguments. Code outside the sources is
  an argument: SHA-256 and the protobuf encoding (record \<open>release_env\<close>), \<open>localeCompare\<close> (\<open>collate\<close>),
  \<open>toISOString\<close>, the transport, the application's callbacks.

  \<^bold>\<open>Theories.\<close>
  \<^item> \<open>Prelude\<close>: \<open>jsmap\<close> with its laws (locale \<open>map_contract\<close>, interpreted on it), strings, decimal
    numerals, sums, and the locales of transition systems with an invariant (\<open>guarded_system\<close>,
    \<open>invariant_system\<close>, \<open>monotone_system\<close>), which the stateful components below interpret on their own step functions.
  \<^item> \<open>Refs\<close> (\<^verbatim>\<open>sdk/typescript/src/refs.ts\<close>): parsing and printing of namespaces and paths; splitting
    a path is the exact inverse of printing a reference.
  \<^item> \<open>Cache\<close>, \<open>Cache_Correct\<close> (\<^verbatim>\<open>cache.ts\<close>): \<open>read_cache\<close> is the class \<open>ReadCache\<close>; its mutable
    generation objects live in a store. The size counter is exact and bounded; a read is current exactly
    while nothing has ended or invalidated it; every hit was stored within its lifetime and not
    invalidated since; a store is found again except in one exactly described state, which a store with an
    invalid selector brings about.
  \<^item> \<open>Watch\<close>, \<open>Watch_Correct\<close>, \<open>Watch_Stream\<close>, \<open>Watch_Listing\<close> (\<^verbatim>\<open>watch.ts\<close>): \<open>watch_mgr\<close> is the class
    \<open>SubscriptionManager\<close>. Reference counts are exact, handlers have seen the value the manager knows,
    a snapshot replaces the view of the registered namespaces, reconciliation does not overtake the stream, and
    what it removes is traced to a complete listing among the pages of the run; a stopped manager stays stopped.
  \<^item> \<open>Release\<close> (\<^verbatim>\<open>releases/types.ts\<close>, \<^verbatim>\<open>digest.ts\<close>, \<^verbatim>\<open>verify.ts\<close>): what a digest pins, and complete
    verification responses.
  \<^item> \<open>Fetch_Pool\<close>, \<open>Loader_Resolve\<close>, \<open>Loader_Acks\<close>, \<open>Loader\<close> (\<^verbatim>\<open>releases/loader.ts\<close>): the worker pool,
    the checks of what was fetched, the acknowledgements, and the class \<open>ReleaseLoader\<close> with its candidate
    tasks, watch loop, reconcile loop and shutdown.
  \<^item> \<open>Loader_Correct\<close>, \<open>Loader_Spec\<close>, \<open>Loader_Safety\<close>, \<open>Loader_Runs\<close>: the specification \<open>core_step\<close> of the
    coordination of candidates, the proof that every action of the loader is a sequence of its steps, and
    what follows for the loader: one candidate at a time, commits confirmed by a fresh read and in order,
    the callback protocol, a truthful status. A concrete run shows a startup failure that is reported
    after a newer release was committed.
  \<^item> \<open>Loader_Told\<close>: the acknowledgements sent to the server, over all streams, replays and chained flushes, speak
    of callbacks that happened, and their sequence numbers identify them.
  \<^item> \<open>Config_Value\<close>, \<open>Config_Manager\<close>, \<open>Config_Manager_Correct\<close>, \<open>Managed_Config\<close>
    (\<^verbatim>\<open>configstore/clone.ts\<close>, \<^verbatim>\<open>errors.ts\<close>, \<^verbatim>\<open>snapshot.ts\<close>, \<^verbatim>\<open>contract.ts\<close>, \<^verbatim>\<open>manager.ts\<close>): configuration values
    and their redacted reports, the alias contract, the policy of \<open>ManagedConfigManager\<close>, and its
    composition with the loader: no secret reaches an observer, drift is reported, and restart-required
    fields never change in a running process.
  \<^item> \<open>Json_Text\<close>, \<open>Json_Text_Correct\<close>, \<open>Json_Format\<close> (\<^verbatim>\<open>frontend/lib/json-text.ts\<close>): the tokenizer tiles its
    input, the checker accepts exactly the JSON grammar, formatting only touches whitespace.
  \<^item> \<open>Line_Diff\<close>, \<open>Line_Diff_Correct\<close> (\<^verbatim>\<open>frontend/lib/line-diff.ts\<close>): the diff reconstructs both texts and is
    minimal unless truncated.
  \<^item> \<open>Utf8\<close>, \<open>Keyutil\<close> (\<^verbatim>\<open>internal/keyutil/keyutil.go\<close>), \<open>Validation\<close>, \<open>Validation_Correct\<close>
    (\<^verbatim>\<open>frontend/lib/validation.ts\<close>), \<open>Applications\<close> (\<^verbatim>\<open>internal/core/applications.go\<close>): the console's naming and
    contract rules are the server's.
  \<^item> \<open>Policy\<close> (\<^verbatim>\<open>internal/policy/policy.go\<close>), \<open>Policy_Editor\<close> (\<^verbatim>\<open>frontend/pages/policies.tsx\<close>): who may do what,
    that stored policies are normal and mean what was written, what the editor may send, and where its
    summary of effective permissions misleads.

  This theory joins the watch manager and the read cache.

  \<^bold>\<open>Termination and bounds.\<close> No definition uses fuel. Loops over data are recursive functions with a
  termination proof; loops that wait are actions, and the bounds that hold for all runs are theorems (the
  worker pool ends after at most one settlement per value; the cache never exceeds its limit). The
  source's own constants (100 reconcile pages, 4096 cache entries, two million cells of a diff table and the like) are
  definitions of the same name. Integers that the source keeps at a width stay there: \<open>uint64\<close> checks are
  explicit, and the diff table keeps the low 32 bits.

  \<^bold>\<open>Not modelled.\<close> The server's store, cryptography, transports and command line, which are I/O around
  third-party libraries (SQLite, AEAD, X.509, gRPC); the SDK's client, transport, TLS and Next.js glue for
  the same reason; generated messages; the codecs, artifacts and generators of managed configuration,
  which are driven by generated closures over arbitrary values; the Go and Python SDKs, which repeat the
  TypeScript one; the console's rendering, browser state and API calls, and its helpers over values of
  \<open>JSON.parse\<close> and locale collation. Within modelled files: log messages; timers, which fire at any time;
  object identity of configuration values, so clones are of finite trees without cycles; \<open>inferSchema\<close>;
  the comparison of drafts by \<open>JSON.stringify\<close>; exceptions thrown by handlers and watcher callbacks of the
  application, and callbacks that call back into the manager or the loader; the pause between the two fetches of a
  secret entry, which are one step; \<open>undefined\<close> as an element or an error of the worker pool.
\<close>

section \<open>The watch manager and the read cache together\<close>

text \<open>
  Every action of the watch manager acts on the read cache as a sequence of cache operations, so
  whatever holds of the cache under all interleavings holds while the manager runs.
\<close>

definition cache_reach :: "read_cache \<Rightarrow> read_cache \<Rightarrow> bool" where
  "cache_reach c c' \<longleftrightarrow> (\<exists>ops. c' = run cache_step ops c)"

lemma cache_reach_refl [simp]: "cache_reach c c"
  unfolding cache_reach_def by (rule exI [of _ "[]"]) simp

lemma cache_reach_trans: "cache_reach c c' \<Longrightarrow> cache_reach c' c'' \<Longrightarrow> cache_reach c c''"
  unfolding cache_reach_def using run_append by metis

lemma cache_reach_step: "cache_reach c (cache_step op c)"
  unfolding cache_reach_def by (rule exI [of _ "[op]"]) simp

lemma cache_reach_invalidate [simp]:
  "cache_reach c (invalidateParameter p c)" "cache_reach c (snd (invalidateParametersInNamespaces nss c))"
  using cache_reach_step [of c "InvalidateParameter p"] cache_reach_step [of c "InvalidateNamespaces nss"] by simp_all

lemma cache_reach_setValue: "cache_reach (wm_cache w) (wm_cache (setValue p v b ver r rec w))"
  by (simp add: setValue_cache)

lemma cache_reach_fold:
  "(\<And>x w. cache_reach (wm_cache w) (wm_cache (f x w))) \<Longrightarrow> cache_reach (wm_cache w) (wm_cache (fold f xs w))"
  by (induction xs arbitrary: w) (auto intro: cache_reach_trans)

lemma cache_reach_applySnapshot: "cache_reach (wm_cache w) (wm_cache (applySnapshot s r w))"
proof -
  let ?w1 = "w\<lparr>wm_cache := invalidateSecretsInNamespaces (map NsRef (wm_streamNamespaces w))
      (snd (invalidateParametersInNamespaces (map NsRef (wm_streamNamespaces w)) (wm_cache w)))\<rparr>"
  have "cache_reach (wm_cache w) (wm_cache ?w1)" by (simp add: invalidateSecretsInNamespaces_def)
  moreover have "cache_reach (wm_cache w') (wm_cache (drop_absent ps r p w'))" for ps p w'
    by (simp add: drop_absent_def cache_reach_setValue split: option.split)
  ultimately show ?thesis
    unfolding applySnapshot_def Let_def
    by (auto intro!: cache_reach_trans [OF _ cache_reach_trans [OF cache_reach_fold cache_reach_fold]]
        simp: cache_reach_setValue split: prod.split)
qed

lemma cache_reach_applyChange: "cache_reach (wm_cache w) (wm_cache (applyChange ch r w))"
  using cache_reach_trans [OF cache_reach_invalidate(1) cache_reach_setValue [of "w\<lparr>wm_cache := _\<rparr>", simplified]]
  by (auto simp: applyChange_def Let_def cache_reach_setValue split: option.split)

lemma cache_reach_handleEvent: "cache_reach (wm_cache w) (wm_cache (handleEvent ev r g now w))"
  using cache_reach_applySnapshot [of "w\<lparr>wm_lastEventAt := Some now\<rparr>"]
    cache_reach_applyChange [of "w\<lparr>wm_lastEventAt := Some now\<rparr>"]
  by (auto simp: handleEvent_def Let_def advanceRevision_def emit_def applySecretChange_def fireWatchers_def
      invalidateSecret_def split: subscribe_event.split option.split)

lemma cache_reach_reconcile: "cache_reach (wm_cache w) (wm_cache (snd (reconcile rn w)))"
  by (auto simp: reconcile_def reconcile_absent_def Let_def cache_reach_setValue intro!: cache_reach_fold
      split: option.split)

lemma watch_step_cache: "cache_reach (wm_cache w) (wm_cache (watch_step collate act w))"
proof (cases act)
  case (ReconFinish now)
  show ?thesis
  proof (cases "wm_recon w")
    case (RecFinishing rn)
    then show ?thesis using ReconFinish cache_reach_reconcile [of w rn]
      by (cases "reconcile rn w") (simp add: reconcile_finish_def split: bool.split)
  qed (use ReconFinish in \<open>simp_all add: reconcile_finish_def\<close>)
next
  case (ReconPage resp)
  then show ?thesis
    by (auto simp: reconcile_page_def Let_def cache_reach_setValue intro!: cache_reach_fold
        split: recon_pc.split list.split option.split)
qed (auto simp: registerParameter_fields stop_begin_def stop_finish_def Let_def run_head_def open_session_def emit_def
    session_connected_def session_failed_def stream_event_def cache_reach_handleEvent backoff_done_def
    reconcile_head_def reconcile_wake_def reconcile_begin_def cache_reach_step split: run_pc.split recon_pc.split)

lemma watch_run_cache: "cache_reach (wm_cache w) (wm_cache (run (watch_step collate) acts w))"
  by (induction acts arbitrary: w) (auto intro: cache_reach_trans [OF watch_step_cache])

lemma reachable_cache_inv:
  assumes "newReadCache ttl mx = Inr c0" "newSubscriptionManager iv ab c0 = Inr w0"
  shows "cache_inv (wm_cache (run (watch_step collate) acts w0))"
proof -
  have "wm_cache w0 = c0"
    using assms(2) by (auto simp: newSubscriptionManager_def split: option.splits js_number.splits if_splits)
  then show ?thesis
    using watch_run_cache [of w0 collate acts] cache_inv_new [OF assms(1)] cache_sys.inv_run
    by (auto simp: cache_reach_def)
qed

lemma invalidated_misses: "fst (getParameter p sel now (invalidateParameter p c)) = Inr None"
proof -
  have "map_get (rc_parameters (invalidateParameter p c)) p = None"
    by (auto simp: invalidateParameter_def Let_def split: option.split)
  then show ?thesis by (simp add: getParameter_def cache_get_def)
qed

lemma setValue_invalidates:
  "set_allowed w p r rec \<Longrightarrow> value_changed (map_get (wm_known w) p) b v \<Longrightarrow>
   wm_cache (setValue p v b ver r rec w) = invalidateParameter p (wm_cache w)"
  by (simp add: setValue_cache)

lemma live_change_allowed: "rev_inv w \<Longrightarrow> wm_lastRevision w < r \<Longrightarrow> set_allowed w p r False"
  by (force simp: rev_inv_def rev_bound_def set_allowed_def revisionAllowsWrite_def split: option.split)

text \<open>C2: a change event evicts what the cache knew. When the stream delivers a newer change of a
  parameter that is a deletion, or a put of a value other than the one the manager knows, every cached lookup of
  its path misses afterwards, and a backend read of the path that was already in flight can no longer store its result.
  (A put of the known value changes nothing and leaves the cache alone.)\<close>

theorem change_evicts_cache:
  assumes "newReadCache ttl mx = Inr c0" "newSubscriptionManager iv ab c0 = Inr w0"
    and "w = run (watch_step collate) acts w0"
    and "wm_run w = RunStreaming g full" "g = wm_namespaceGeneration w" "wm_lastRevision w < revision"
    and "wireChangeRef (pc_ref change) = Some ref"
    and "pc_changeType change = ''delete'' \<or> known_val w (displayPath ref) \<noteq> Some (pc_value change)"
    and "w' = watch_step collate (StreamEvent (ChangeEvent change) revision now) w"
  shows "fst (getParameter (displayPath ref) sel t (wm_cache w')) = Inr None \<and>
    (\<forall>n rg. rc_reads (wm_cache w) n = Some rg \<longrightarrow> rg_path rg = displayPath ref \<longrightarrow>
       \<not> isCurrent (wm_cache w') n ParameterKind)"
proof -
  let ?p = "displayPath ref" and ?w = "w\<lparr>wm_lastEventAt := Some now\<rparr>"
  have inv: "rev_inv w" "cache_inv (wm_cache w)"
    using rev_sys.inv_run [OF rev_inv_new [OF assms(2)]] reachable_cache_inv [OF assms(1,2)] assms(3) by simp_all
  have w': "wm_cache w' = wm_cache (applyChange change revision ?w)"
    using assms(4-6,9) by (simp add: stream_event_def handleEvent_def shouldApply_def advanceRevision_def Let_def)
  have ok: "set_allowed w ?p revision False" by (rule live_change_allowed [OF inv(1) assms(6)])
  show ?thesis
  proof (cases "pc_changeType change = ''delete''")
    case True
    have "wm_cache w' = invalidateParameter ?p (wm_cache w) \<or>
        wm_cache w' = invalidateParameter ?p (invalidateParameter ?p (wm_cache w))"
      using True assms(7) by (simp add: w' applyChange_def Let_def setValue_cache)
    moreover have "cache_inv (invalidateParameter ?p (wm_cache w))" by (rule cache_inv_invalidateParameter [OF inv(2)])
    ultimately show ?thesis
      using invalidated_misses invalidate_current [OF inv(2)] invalidate_current by (auto; blast)
  next
    case False
    have "value_changed (map_get (wm_known w) ?p) True (pc_value change)"
      using assms(8) False by (auto simp: value_changed_def known_val_def split: option.splits if_splits)
    then have "wm_cache w' = invalidateParameter ?p (wm_cache w)"
      using False assms(7) ok by (simp add: w' applyChange_def Let_def setValue_cache set_allowed_def)
    then show ?thesis using invalidated_misses invalidate_current(1) [OF inv(2)] by auto
  qed
qed

text \<open>A value is cached and a read of it is in flight when the stream delivers another value.\<close>

definition demo_change :: parameter_change where
  "demo_change = \<lparr>pc_ref = Some \<lparr>wr_namespace = Some (rr_namespace demo_ref), wr_key = rr_key demo_ref\<rparr>,
     pc_changeType = ''put'', pc_value = ''new'', pc_version = 2\<rparr>"

definition cached_acts :: "watch_action list" where
  "cached_acts = stream_acts @ [CacheOp (SetParameter (displayPath demo_ref) ''old'' (positionalSelector 0 []) 0 0),
     CacheOp (BeginRead (displayPath demo_ref))]"

lemma cached_state:
  fixes collate :: "string \<Rightarrow> string \<Rightarrow> bool"
  defines "w \<equiv> run (watch_step collate) cached_acts small_mgr"
  shows "fst (getParameter (displayPath demo_ref) (positionalSelector 0 []) 9 (wm_cache w)) = Inr (Some ''old'')"
    "isCurrent (wm_cache w) 2 ParameterKind" "\<exists>rg. rc_reads (wm_cache w) 2 = Some rg \<and> rg_path rg = displayPath demo_ref"
    "wm_run w = RunStreaming 1 True" "wm_namespaceGeneration w = 1" "wm_lastRevision w = 0" "wm_known w = []"
  unfolding w_def cached_acts_def by (simp_all add: stream_state) (simp_all add: small_simps)

theorem change_evicts_cache_witness:
  "let p = displayPath demo_ref; w = run (watch_step (\<lambda>_ _. True)) cached_acts small_mgr;
       w' = watch_step (\<lambda>_ _. True) (StreamEvent (ChangeEvent demo_change) 1 8) w
   in fst (getParameter p (positionalSelector 0 []) 9 (wm_cache w)) = Inr (Some ''old'') \<and>
      fst (getParameter p (positionalSelector 0 []) 9 (wm_cache w')) = Inr None \<and>
      isCurrent (wm_cache w) 2 ParameterKind \<and> \<not> isCurrent (wm_cache w') 2 ParameterKind"
proof -
  note st = cached_state [of "\<lambda>_ _. True"]
  let ?w = "run (watch_step (\<lambda>_ _. True)) cached_acts small_mgr"
  have h: "1 = wm_namespaceGeneration ?w" "wm_lastRevision ?w < 1" using st by simp_all
  have ref: "wireChangeRef (pc_ref demo_change) = Some demo_ref" using wire_ref [of demo_ref] by (simp add: demo_change_def)
  have new: "pc_changeType demo_change = ''delete'' \<or> known_val ?w (displayPath demo_ref) \<noteq> Some (pc_value demo_change)"
    using st(7) by (simp add: known_val_def map_get_Nil)
  note change_evicts_cache [OF new_small_cache new_small_mgr refl st(4) h ref new refl, of "positionalSelector 0 []" 9 8]
  then show ?thesis unfolding Let_def using st(1-3) by blast
qed

end
